(* ===== verification/Prelude.thy ===== *)
theory Prelude
  imports Main "HOL-Library.Word" "HOL-Library.Monad_Syntax"
begin

text \<open>
  Shared vocabulary of the development: the C integer types as words of their
  width, C string literals as byte lists, counted loops, little-endian field
  encodings, and the generic lemmas the component theories share.

  A function of the model that has a branch of C undefined behaviour (an access
  outside an object, a null or dangling pointer, signed overflow) returns an
  \<open>option\<close>; \<open>None\<close> is that branch, and also a loop that does not end.
  Error codes the program itself returns are ordinary values.
\<close>

unbundle bit_operations_syntax

section \<open>Machine types\<close>

type_synonym u8 = "8 word"
type_synonym u16 = "16 word"
type_synonym u32 = "32 word"
type_synonym u64 = "64 word"

text \<open>A C \<open>int\<close> is a 32-bit word read with \<open>sint\<close>.\<close>

type_synonym i32 = "32 word"

text \<open>Hints shared by the components: byte layouts, frames (what an operation
  leaves alone) and the equations of the loop summaries.\<close>

named_theorems layout \<open>byte and bit layout of packed structures\<close>
named_theorems frame \<open>what an operation leaves unchanged\<close>
named_theorems summary \<open>closed forms of loops\<close>

definition bytes :: "string \<Rightarrow> u8 list" where
  "bytes s = map of_char s"

lemma bytes_Nil [simp]: "bytes [] = []"
  by (simp add: bytes_def)

lemma bytes_Cons [simp]: "bytes (c # s) = of_char c # bytes s"
  by (simp add: bytes_def)

lemma length_bytes [simp]: "length (bytes s) = length s"
  by (simp add: bytes_def)

section \<open>Counted loops\<close>

text \<open>\<open>for (i = a; i < b; i++) f\<close> over an explicit state.\<close>

definition for_upto :: "nat \<Rightarrow> nat \<Rightarrow> (nat \<Rightarrow> 's \<Rightarrow> 's) \<Rightarrow> 's \<Rightarrow> 's" where
  "for_upto a b f s = fold f [a..<b] s"

lemma for_upto_same [simp]: "for_upto a a f s = s"
  by (simp add: for_upto_def)

lemma for_upto_Suc: "a \<le> b \<Longrightarrow> for_upto a (Suc b) f s = f b (for_upto a b f s)"
  by (simp add: for_upto_def)

text \<open>The invariant rule of counted loops: an invariant over the counter that
  each pass of the body carries from \<open>i\<close> to \<open>i + 1\<close>.\<close>

lemma for_upto_inv:
  assumes "a \<le> b" and "I a s" and step: "\<And>i t. a \<le> i \<Longrightarrow> i < b \<Longrightarrow> I i t \<Longrightarrow> I (Suc i) (f i t)"
  shows "I b (for_upto a b f s)"
proof -
  have "n \<le> b \<Longrightarrow> I n (for_upto a n f s)" if "a \<le> n" for n
    using that
  proof (induction n rule: dec_induct)
    case base
    then show ?case using assms(2) by simp
  next
    case (step n)
    then show ?case using assms(3) by (simp add: for_upto_Suc)
  qed
  then show ?thesis using assms(1) by simp
qed

text \<open>The same loop when the body can run into undefined behaviour.\<close>

fun for_list :: "('i \<Rightarrow> 's \<Rightarrow> 's option) \<Rightarrow> 'i list \<Rightarrow> 's \<Rightarrow> 's option" where
  "for_list f [] s = Some s"
| "for_list f (i # is) s = Option.bind (f i s) (for_list f is)"

lemma for_list_append: "for_list f (xs @ ys) s = Option.bind (for_list f xs s) (for_list f ys)"
  by (induction xs arbitrary: s) (auto split: Option.bind_split)

lemma for_list_total:
  assumes "I s" and "\<And>i t. i \<in> set is \<Longrightarrow> I t \<Longrightarrow> \<exists>t'. f i t = Some t' \<and> I t'"
  shows "\<exists>t. for_list f is s = Some t \<and> I t"
  using assms
proof (induction "is" arbitrary: s)
  case Nil
  then show ?case by simp
next
  case (Cons i "is")
  obtain t where t: "f i s = Some t" "I t" using Cons.prems by fastforce
  have "\<exists>t'. for_list f is t = Some t' \<and> I t'"
    using Cons.IH [OF t(2)] Cons.prems(2) by (meson list.set_intros(2))
  then show ?case using t(1) by simp
qed

lemma for_list_some_inv:
  assumes "for_list f is s = Some t" and "I s"
    and "\<And>i u u'. i \<in> set is \<Longrightarrow> I u \<Longrightarrow> f i u = Some u' \<Longrightarrow> I u'"
  shows "I t"
  using assms
proof (induction "is" arbitrary: s)
  case Nil
  then show ?case by simp
next
  case (Cons i "is")
  from Cons.prems(1) obtain u where u: "f i s = Some u" "for_list f is u = Some t"
    by (auto simp: bind_eq_Some_conv)
  have "I u" using Cons.prems(2,3) u(1) by (meson list.set_intros(1))
  then show ?case using Cons.IH [OF u(2)] Cons.prems(3) by (meson list.set_intros(2))
qed

section \<open>Digits of a number\<close>

text \<open>Digits of \<open>n\<close> in base \<open>b\<close>, least significant first (none for 0).\<close>

fun rev_digits :: "nat \<Rightarrow> nat \<Rightarrow> nat list" where
  "rev_digits b n = (if n = 0 \<or> b < 2 then [] else n mod b # rev_digits b (n div b))"

declare rev_digits.simps [simp del]

lemma rev_digits_0 [simp]: "rev_digits b 0 = []"
  by (simp add: rev_digits.simps)

lemma rev_digits_step: "0 < n \<Longrightarrow> 2 \<le> b \<Longrightarrow> rev_digits b n = n mod b # rev_digits b (n div b)"
  by (subst rev_digits.simps) simp

definition digits_value :: "nat \<Rightarrow> nat list \<Rightarrow> nat" where
  "digits_value b ds = foldl (\<lambda>v d. b * v + d) 0 ds"

lemma digits_value_snoc [simp]: "digits_value b (ds @ [d]) = b * digits_value b ds + d"
  by (simp add: digits_value_def)

lemma digits_value_rev_digits: "2 \<le> b \<Longrightarrow> digits_value b (rev (rev_digits b n)) = n"
proof (induction b n rule: rev_digits.induct)
  case (1 b n)
  then show ?case
    by (cases "n = 0") (simp_all add: rev_digits_step digits_value_def [of _ "[]"])
qed

lemma rev_digits_less: "2 \<le> b \<Longrightarrow> d \<in> set (rev_digits b n) \<Longrightarrow> d < b"
proof (induction b n rule: rev_digits.induct)
  case (1 b n)
  then show ?case
    by (cases "n = 0") (auto simp: rev_digits_step)
qed

lemma rev_digits_length: "2 \<le> b \<Longrightarrow> n < b ^ k \<Longrightarrow> length (rev_digits b n) \<le> k"
proof (induction k arbitrary: n)
  case 0
  then show ?case by simp
next
  case (Suc k)
  then have "n div b < b ^ k"
    by (simp add: less_mult_imp_div_less mult.commute)
  then show ?case
    using Suc by (cases "n = 0") (simp_all add: rev_digits_step)
qed

lemma rev_digits_nonempty: "2 \<le> b \<Longrightarrow> 0 < n \<Longrightarrow> rev_digits b n \<noteq> []"
  by (simp add: rev_digits_step)

lemma rev_digits_last: "2 \<le> b \<Longrightarrow> 0 < n \<Longrightarrow> last (rev_digits b n) \<noteq> 0"
proof (induction b n rule: rev_digits.induct)
  case (1 b n)
  show ?case
  proof (cases "n div b = 0")
    case True
    with "1.prems" show ?thesis by (simp add: rev_digits_step div_eq_0_iff)
  next
    case False
    then have "rev_digits b (n div b) \<noteq> []" and "last (rev_digits b (n div b)) \<noteq> 0"
      using "1.prems" "1.IH" by (simp_all add: rev_digits_nonempty)
    then show ?thesis using "1.prems" by (simp add: rev_digits_step [of n])
  qed
qed


section \<open>Words\<close>

lemma unat_of_nat_small: "n < 2 ^ LENGTH('a) \<Longrightarrow> unat (of_nat n :: 'a::len word) = n"
  by (simp add: unat_of_nat)

lemma unat_bound: "unat (w :: 'a::len word) < 2 ^ LENGTH('a)"
  by (rule unsigned_less)

lemma unat_ucast_up:
  "LENGTH('a) \<le> LENGTH('b) \<Longrightarrow> unat (ucast (x :: 'a::len word) :: 'b::len word) = unat x"
proof -
  assume "LENGTH('a) \<le> LENGTH('b)"
  then have "unat x < 2 ^ LENGTH('b)"
    by (intro less_le_trans [OF unat_bound [of x]]) (simp add: power_increasing)
  then show ?thesis by (simp add: unsigned_ucast_eq take_bit_nat_eq_self)
qed

section \<open>Little-endian fields\<close>

primrec le_bytes :: "nat \<Rightarrow> 'a::len word \<Rightarrow> u8 list" where
  "le_bytes 0 w = []"
| "le_bytes (Suc n) w = ucast w # le_bytes n (drop_bit 8 w)"

fun of_le :: "u8 list \<Rightarrow> 'a::len word" where
  "of_le [] = 0"
| "of_le (b # bs) = ucast b OR push_bit 8 (of_le bs)"

lemma length_le_bytes [simp]: "length (le_bytes n w) = n"
  by (induction n arbitrary: w) auto

lemma le_bytes_numeral:
  "le_bytes (numeral n) w = ucast w # le_bytes (pred_numeral n) (drop_bit 8 w)"
  by (simp add: numeral_eq_Suc)

lemma of_le_le_bytes: "of_le (le_bytes n w) = take_bit (8 * n) w"
proof (induction n arbitrary: w)
  case 0
  then show ?case by simp
next
  case (Suc n)
  have "ucast (ucast w :: u8) OR push_bit 8 (take_bit (8 * n) (drop_bit 8 w)) = take_bit (8 * Suc n) w"
    by (rule bit_word_eqI) (auto simp: bit_simps dest: bit_imp_le_length)
  then show ?case by (simp add: Suc.IH)
qed

text \<open>A field read back from its own bytes.\<close>

lemma of_le_whole [layout]: "LENGTH('a) \<le> 8 * n \<Longrightarrow> of_le (le_bytes n w) = (w :: 'a::len word)"
  by (simp add: of_le_le_bytes take_bit_word_eq_self)

text \<open>The masks of the C code, and what truncation after masking is.\<close>

lemma mask_numerals:
  "(0xff :: 'a::len word) = mask 8" "(0xffff :: 'a::len word) = mask 16"
  "(0xffffffff :: 'a::len word) = mask 32"
  by (simp_all add: mask_eq_exp_minus_1)

lemma ucast_masked [layout]:
  "ucast (w AND 0xff) = (ucast w :: u8)" "ucast (w AND 0xffff) = (ucast w :: u16)"
  "ucast (w AND 0xffffffff) = (ucast w :: u32)" for w :: "'a::len word"
  unfolding mask_numerals by (auto intro!: bit_word_eqI simp: bit_simps dest: bit_imp_le_length)

end
