(* ===== verification/Kprintf.thy ===== *)
theory Kprintf
  imports Prelude
begin

text \<open>
  The text console of sys/kprintf.c: the VGA buffer at 0xb8000 (80 columns of a
  character byte and an attribute byte), the cursor kept in the globals
  \<open>current_height\<close> and \<open>current_width\<close> (the width counts bytes, not columns),
  scrolling, the formatted printer and the clock display of the last row.

  Physical memory is a total function from addresses to bytes: every address the
  printer forms is a valid write on the machine, so running off the screen is
  modelled as the write it is, not as an error. The variable arguments are a list
  of typed values; taking an argument of another type, or none, is undefined
  behaviour, as is printing \<open>INT_MIN\<close> with \<open>%d\<close> (signed overflow).
\<close>

section \<open>State and constants\<close>

record console =
  vram :: "nat \<Rightarrow> u8"
  current_width :: u64
  current_height :: u64

definition BASE_ADDR :: nat where
  "BASE_ADDR = 0xb8000"

definition TIME_ADDRESS :: nat where
  "TIME_ADDRESS = BASE_ADDR + (160 * 24 + 120)"

definition KEYPRESS_BANNER :: nat where
  "KEYPRESS_BANNER = BASE_ADDR + (160 * 24 + 0)"

definition CTRL_KEYPRESS_ADDRESS :: nat where
  "CTRL_KEYPRESS_ADDRESS = BASE_ADDR + (160 * 24 + 21)"

definition KEYPRESS_ADDRESS :: nat where
  "KEYPRESS_ADDRESS = BASE_ADDR + (160 * 24 + 23)"

abbreviation (input) MAX_SCREEN_WIDTH :: nat where
  "MAX_SCREEN_WIDTH \<equiv> 160"

abbreviation (input) MAX_SCREEN_HEIGHT :: nat where
  "MAX_SCREEN_HEIGHT \<equiv> 24"

section \<open>Scrolling and the cursor\<close>

definition scroll_copy_row :: "nat \<Rightarrow> (nat \<Rightarrow> u8) \<Rightarrow> nat \<Rightarrow> u8" where
  "scroll_copy_row i m =
     for_upto 0 MAX_SCREEN_WIDTH
       (\<lambda>j m. m(BASE_ADDR + i * MAX_SCREEN_WIDTH + j :=
                m (BASE_ADDR + (i + 1) * MAX_SCREEN_WIDTH + j))) m"

definition scroll_copy :: "(nat \<Rightarrow> u8) \<Rightarrow> nat \<Rightarrow> u8" where
  "scroll_copy m = for_upto 0 (MAX_SCREEN_HEIGHT - 1) scroll_copy_row m"

definition scroll_blank :: "(nat \<Rightarrow> u8) \<Rightarrow> nat \<Rightarrow> u8" where
  "scroll_blank m =
     for_upto 0 MAX_SCREEN_WIDTH
       (\<lambda>index m. if index mod 2 = 0
          then m(BASE_ADDR + 23 * MAX_SCREEN_WIDTH + index := 0,
                 BASE_ADDR + 23 * MAX_SCREEN_WIDTH + index + 1 := 0x07)
          else m) m"

definition getCurrentAddress :: "console \<Rightarrow> nat \<times> console" where
  "getCurrentAddress c =
     (let c1 = (if 23 < current_height c
                then c\<lparr>vram := scroll_blank (scroll_copy (vram c)),
                       current_height := 23, current_width := 0\<rparr>
                else c)
      in (BASE_ADDR + unat (current_height c1 * 160 + current_width c1), c1))"

definition UpdateHeightWidth :: "nat \<Rightarrow> console \<Rightarrow> console" where
  "UpdateHeightWidth currAddr c =
     (let currAddValue = (of_nat currAddr :: u64) - of_nat BASE_ADDR
      in c\<lparr>current_height := currAddValue div 160,
           current_width := currAddValue mod 160\<rparr>)"

section \<open>Writing cells\<close>

text \<open>The pair of stores every printer repeats: \<open>*p++ = ch; *p++ = 0x07\<close>.\<close>

fun put_cell :: "u8 \<Rightarrow> nat \<times> (nat \<Rightarrow> u8) \<Rightarrow> nat \<times> (nat \<Rightarrow> u8)" where
  "put_cell ch (a, m) = (a + 2, m(a := ch, a + 1 := 0x07))"

fun put_cells :: "u8 list \<Rightarrow> nat \<times> (nat \<Rightarrow> u8) \<Rightarrow> nat \<times> (nat \<Rightarrow> u8)" where
  "put_cells [] p = p"
| "put_cells (ch # chs) p = put_cells chs (put_cell ch p)"

text \<open>The end of each printer: store the memory, recompute the cursor.\<close>

definition finish :: "console \<Rightarrow> nat \<times> (nat \<Rightarrow> u8) \<Rightarrow> console" where
  "finish c p = UpdateHeightWidth (fst p) (c\<lparr>vram := snd p\<rparr>)"

definition HandleChar :: "u8 \<Rightarrow> nat \<Rightarrow> console \<Rightarrow> console" where
  "HandleChar ch currAddr c = finish c (put_cell ch (currAddr, vram c))"

definition HandleNewLine :: "console \<Rightarrow> console" where
  "HandleNewLine c =
     snd (getCurrentAddress (c\<lparr>current_height := current_height c + 1, current_width := 0\<rparr>))"

definition HandleEverythingElse :: "u8 \<Rightarrow> nat \<Rightarrow> console \<Rightarrow> console" where
  "HandleEverythingElse fmt currAddr c =
     (if fmt = of_char (CHR 0x0A) then HandleNewLine c
      else finish c (put_cell fmt (currAddr, vram c)))"

text \<open>A C string is the list of its bytes up to the terminator.\<close>

fun put_string :: "u8 list \<Rightarrow> nat \<times> (nat \<Rightarrow> u8) \<Rightarrow> nat \<times> (nat \<Rightarrow> u8)" where
  "put_string [] p = p"
| "put_string (ch # str) p = (if ch \<noteq> 0 then put_string str (put_cell ch p) else p)"

definition HandleString :: "u8 list \<Rightarrow> nat \<Rightarrow> console \<Rightarrow> console" where
  "HandleString str currAddr c = finish c (put_string str (currAddr, vram c))"

section \<open>Numbers\<close>

text \<open>\<open>while (num > 0) { ch[numdigits++] = num % 10; num = num / 10; }\<close> over the
  local array \<open>ch\<close>; the three printers that use it only differ in the C type of
  \<open>num\<close>, which is positive here.\<close>

fun digits_loop :: "nat \<Rightarrow> nat \<Rightarrow> u8 list \<Rightarrow> nat \<times> u8 list" where
  "digits_loop num numdigits ch =
     (if 0 < num then digits_loop (num div 10) (numdigits + 1) (ch[numdigits := of_nat (num mod 10)])
      else (numdigits, ch))"

declare digits_loop.simps [simp del]

text \<open>\<open>for (int i = numdigits-1; i >= 0; --i)\<close> over the same array.\<close>

definition emit_digits :: "nat \<Rightarrow> u8 list \<Rightarrow> nat \<times> (nat \<Rightarrow> u8) \<Rightarrow> nat \<times> (nat \<Rightarrow> u8)" where
  "emit_digits numdigits ch p = fold (\<lambda>i. put_cell (0x30 + ch ! i)) (rev [0..<numdigits]) p"

definition HandleSignedInt :: "i32 \<Rightarrow> nat \<Rightarrow> console \<Rightarrow> console option" where
  "HandleSignedInt i_argVal currAddr c =
     (if i_argVal = 0 then Some (finish c (put_cell (of_char (CHR ''0'')) (currAddr, vram c)))
      else if sint i_argVal = - (2 ^ 31) then None
      else
        let p = (if sint i_argVal < 0 then put_cell 0x2d (currAddr, vram c) else (currAddr, vram c));
            num = (if sint i_argVal < 0 then sint i_argVal * (-1) else sint i_argVal);
            (numdigits, ch) = digits_loop (nat num) 0 (replicate 100 0)
        in Some (finish c (emit_digits numdigits ch p)))"

definition HandleUnsignedInt :: "u32 \<Rightarrow> nat \<Rightarrow> console \<Rightarrow> console" where
  "HandleUnsignedInt u_argVal currAddr c =
     (if u_argVal = 0 then finish c (put_cell (of_char (CHR ''0'')) (currAddr, vram c))
      else
        let (numdigits, ch) = digits_loop (unat u_argVal) 0 (replicate 100 0)
        in finish c (emit_digits numdigits ch (currAddr, vram c)))"

fun hex_loop :: "nat \<Rightarrow> nat \<Rightarrow> u8 list \<Rightarrow> nat \<times> u8 list" where
  "hex_loop num i ch =
     (if 0 < num then
        let rem = num mod 16
        in hex_loop (num div 16) (i + 1)
             (ch[i := (if rem < 10 then of_nat (48 + rem) else of_nat (55 + rem))])
      else (i, ch))"

declare hex_loop.simps [simp del]

definition HandleAddress :: "u64 \<Rightarrow> nat \<Rightarrow> console \<Rightarrow> console" where
  "HandleAddress addr currAddr c =
     (if addr = 0 then finish c (put_cell (of_char (CHR ''0'')) (currAddr, vram c))
      else
        let (i, ch) = hex_loop (unat addr) 0 (replicate 100 0)
        in finish c (fold (\<lambda>j. put_cell (ch ! j)) (rev [0..<i + 1]) (currAddr, vram c)))"

definition printTime :: "u32 \<Rightarrow> console \<Rightarrow> console" where
  "printTime time c =
     (let (numdigits, ch) = digits_loop (unat time) 0 (replicate 100 0);
          p = emit_digits numdigits ch (TIME_ADDRESS, vram c)
      in c\<lparr>vram := snd (put_cell (of_char (CHR ''s'')) p)\<rparr>)"

definition printKeypress :: "u8 \<Rightarrow> nat \<Rightarrow> console \<Rightarrow> console" where
  "printKeypress keypress address c = c\<lparr>vram := snd (put_cell keypress (address, vram c))\<rparr>"

section \<open>kprintf\<close>

datatype vararg = ArgStr "u8 list" | ArgInt i32 | ArgU64 u64

text \<open>One conversion: the character after \<open>%\<close>, the remaining arguments. A
  character with no case of its own prints nothing.\<close>

definition kprintf_conv :: "u8 \<Rightarrow> vararg list \<Rightarrow> console \<Rightarrow> (vararg list \<times> console) option" where
  "kprintf_conv d args c =
     (if d = of_char (CHR ''s'') then
        (case args of ArgStr str # rest \<Rightarrow>
           let (a, c1) = getCurrentAddress c in Some (rest, HandleString str a c1)
         | _ \<Rightarrow> None)
      else if d = of_char (CHR ''d'') then
        (case args of ArgInt i \<comment> \<open>int\<close> # rest \<Rightarrow>
           let (a, c1) = getCurrentAddress c in map_option (Pair rest) (HandleSignedInt i a c1)
         | _ \<Rightarrow> None)
      else if d = of_char (CHR ''x'') then
        (case args of ArgInt u \<comment> \<open>unsigned int\<close> # rest \<Rightarrow>
           let (a, c1) = getCurrentAddress c in Some (rest, HandleUnsignedInt u a c1)
         | _ \<Rightarrow> None)
      else if d = of_char (CHR ''c'') then
        (case args of ArgInt i # rest \<Rightarrow>
           let (a, c1) = getCurrentAddress c in Some (rest, HandleChar (ucast i) a c1)
         | _ \<Rightarrow> None)
      else if d = of_char (CHR ''p'') then
        (case args of ArgU64 addr # rest \<Rightarrow>
           let (a, c1) = getCurrentAddress c in Some (rest, HandleAddress addr a c1)
         | _ \<Rightarrow> None)
      else Some (args, c))"

text \<open>The format loop. A \<open>%\<close> right before the terminator makes the loop step
  past the end of the format string.\<close>

fun kprintf :: "u8 list \<Rightarrow> vararg list \<Rightarrow> console \<Rightarrow> console option" where
  "kprintf [] args c = Some c"
| "kprintf (ch # fmt) args c =
     (if ch = 0 then Some c
      else if ch = of_char (CHR ''%'') then
        (case fmt of [] \<Rightarrow> None
         | d # fmt' \<Rightarrow>
             if d = 0 then None
             else (case kprintf_conv d args c of None \<Rightarrow> None
                   | Some (args', c') \<Rightarrow> kprintf fmt' args' c'))
      else let (a, c1) = getCurrentAddress c
           in kprintf fmt args (HandleEverythingElse ch a c1))"


section \<open>Cells\<close>

lemma put_cells_append: "put_cells (xs @ ys) p = put_cells ys (put_cells xs p)"
  by (induction xs arbitrary: p) auto

lemma fst_put_cells [simp]: "fst (put_cells chs p) = fst p + 2 * length chs"
  by (induction chs arbitrary: p) (auto split: prod.splits)

text \<open>What a run of cells writes: characters at even offsets, the attribute 7 at
  odd ones, and nothing outside the run.\<close>

lemma put_cells_apply:
  "snd (put_cells chs (a, m)) x =
     (if a \<le> x \<and> x < a + 2 * length chs
      then (if even (x - a) then chs ! ((x - a) div 2) else 7) else m x)"
proof (induction chs arbitrary: a m x)
  case Nil
  then show ?case by auto
next
  case (Cons ch chs)
  consider "x < a" | "x = a" | "x = a + 1" | "a + 2 \<le> x" by linarith
  then show ?case
  proof cases
    case 4
    then obtain d where d: "x = a + 2 + d" by (metis le_Suc_ex)
    then have "(x - a) div 2 = Suc (d div 2)" and "even (x - a) = even d" by simp_all
    then show ?thesis using d by (simp add: Cons.IH)
  qed (simp_all add: Cons.IH)
qed

lemma put_cells_frame [frame]:
  "x < a \<or> a + 2 * length chs \<le> x \<Longrightarrow> snd (put_cells chs (a, m)) x = m x"
  by (auto simp: put_cells_apply)

lemma put_cell_cells: "put_cell ch p = put_cells [ch] p"
  by simp

lemma put_string_cells: "put_string str p = put_cells (takeWhile (\<lambda>ch. ch \<noteq> 0) str) p"
  by (induction str arbitrary: p) auto

lemma fold_put_cell: "fold (\<lambda>i. put_cell (f i)) is p = put_cells (map f is) p"
  by (induction "is" arbitrary: p) auto

section \<open>The digit arrays\<close>

lemma digits_loop_spec:
  "n + length (rev_digits 10 num) \<le> length ch \<Longrightarrow>
   digits_loop num n ch =
     (n + length (rev_digits 10 num),
      take n ch @ map of_nat (rev_digits 10 num) @ drop (n + length (rev_digits 10 num)) ch)"
proof (induction num n ch rule: digits_loop.induct)
  case (1 num n ch)
  show ?case
  proof (cases "num = 0")
    case True
    then show ?thesis by (subst digits_loop.simps) simp
  next
    case False
    define k where "k = length (rev_digits 10 (num div 10))"
    have step: "rev_digits 10 num = num mod 10 # rev_digits 10 (num div 10)"
      using False by (simp add: rev_digits_step)
    with "1.prems" have n: "n < length ch" and k: "n + 1 + k \<le> length ch" by (simp_all add: k_def)
    have "take (Suc n) (ch[n := v]) = take n ch @ [v]" for v
      using n by (simp add: take_Suc_conv_app_nth)
    then show ?thesis
      using False step n k 1 by (subst digits_loop.simps) (simp add: k_def)
  qed
qed

lemma hex_loop_spec:
  "n + length (rev_digits 16 num) \<le> length ch \<Longrightarrow>
   hex_loop num n ch =
     (n + length (rev_digits 16 num),
      take n ch @ map (\<lambda>d. if d < 10 then of_nat (48 + d) else of_nat (55 + d)) (rev_digits 16 num)
        @ drop (n + length (rev_digits 16 num)) ch)"
proof (induction num n ch rule: hex_loop.induct)
  case (1 num n ch)
  show ?case
  proof (cases "num = 0")
    case True
    then show ?thesis by (subst hex_loop.simps) simp
  next
    case False
    have step: "rev_digits 16 num = num mod 16 # rev_digits 16 (num div 16)"
      using False by (simp add: rev_digits_step)
    with "1.prems" have n: "n < length ch" by simp
    have "take (Suc n) (ch[n := v]) = take n ch @ [v]" for v
      using n by (simp add: take_Suc_conv_app_nth)
    then show ?thesis
      using False step n 1 by (subst hex_loop.simps) (simp add: Let_def)
  qed
qed

text \<open>The printed digits, most significant first.\<close>

definition dec_text :: "nat \<Rightarrow> u8 list" where
  "dec_text n = map (\<lambda>d. 0x30 + of_nat d) (rev (rev_digits 10 n))"

definition hex_digit :: "nat \<Rightarrow> u8" where
  "hex_digit d = (if d < 10 then of_nat (48 + d) else of_nat (55 + d))"

definition hex_text :: "nat \<Rightarrow> u8 list" where
  "hex_text n = map hex_digit (rev (rev_digits 16 n))"

lemma map_nth_rev_upt:
  assumes "k \<le> length xs"
  shows "map (\<lambda>i. f (xs ! i)) (rev [0..<k]) = map f (rev (take k xs))"
proof -
  have "map ((!) xs) [0..<k] = take k xs" using assms by (simp add: list_eq_iff_nth_eq)
  then have "map f (map ((!) xs) (rev [0..<k])) = map f (rev (take k xs))"
    by (simp only: rev_map [symmetric])
  then show ?thesis by (simp add: comp_def)
qed

lemma emit_digits_cells:
  "length (rev_digits 10 n) \<le> 100 \<Longrightarrow>
   emit_digits (fst (digits_loop n 0 (replicate 100 0))) (snd (digits_loop n 0 (replicate 100 0))) p
     = put_cells (dec_text n) p"
  by (simp add: digits_loop_spec emit_digits_def fold_put_cell map_nth_rev_upt dec_text_def
      rev_map comp_def)

lemma hex_cells:
  assumes "length (rev_digits 16 n) < 100"
  shows "fold (\<lambda>j. put_cell (snd (hex_loop n 0 (replicate 100 0)) ! j))
           (rev [0..<fst (hex_loop n 0 (replicate 100 0)) + 1]) p
         = put_cells (0 # hex_text n) p"
proof -
  define k where "k = length (rev_digits 16 n)"
  define ch where "ch = map hex_digit (rev_digits 16 n) @ drop k (replicate 100 0)"
  have loop: "hex_loop n 0 (replicate 100 0) = (k, ch)"
    using assms by (simp add: hex_loop_spec k_def ch_def hex_digit_def [abs_def])
  have "map ((!) ch) (rev [0..<k + 1]) = ch ! k # map (\<lambda>i. id (ch ! i)) (rev [0..<k])"
    by simp
  also have "\<dots> = 0 # hex_text n"
    using assms by (subst map_nth_rev_upt) (simp_all add: ch_def k_def nth_append hex_text_def rev_map)
  finally show ?thesis by (simp only: loop fst_conv snd_conv fold_put_cell)
qed


section \<open>Scrolling\<close>

lemma scroll_copy_row_apply [summary]:
  "scroll_copy_row i m x =
     (if BASE_ADDR + i * 160 \<le> x \<and> x < BASE_ADDR + (i + 1) * 160 then m (x + 160) else m x)"
proof -
  have "(\<forall>x. for_upto 0 160 (\<lambda>j m. m(BASE_ADDR + i * 160 + j := m (BASE_ADDR + (i + 1) * 160 + j))) m x =
      (if BASE_ADDR + i * 160 \<le> x \<and> x < BASE_ADDR + i * 160 + 160 then m (x + 160) else m x))"
    by (rule for_upto_inv [where I = "\<lambda>j t. \<forall>x. t x =
        (if BASE_ADDR + i * 160 \<le> x \<and> x < BASE_ADDR + i * 160 + j then m (x + 160) else m x)"])
      (auto simp: algebra_simps)
  then show ?thesis by (simp add: scroll_copy_row_def algebra_simps)
qed

lemma scroll_copy_apply [summary]:
  "scroll_copy m x =
     (if BASE_ADDR \<le> x \<and> x < BASE_ADDR + 23 * 160 then m (x + 160) else m x)"
proof -
  have "\<forall>x. for_upto 0 23 scroll_copy_row m x =
      (if BASE_ADDR \<le> x \<and> x < BASE_ADDR + 23 * 160 then m (x + 160) else m x)"
    by (rule for_upto_inv [where I = "\<lambda>i t. \<forall>x. t x =
        (if BASE_ADDR \<le> x \<and> x < BASE_ADDR + i * 160 then m (x + 160) else m x)"])
      (auto simp: scroll_copy_row_apply)
  then show ?thesis by (simp add: scroll_copy_def)
qed

lemma scroll_blank_apply [summary]:
  "scroll_blank m x =
     (if BASE_ADDR + 23 * 160 \<le> x \<and> x < BASE_ADDR + 24 * 160
      then (if even (x - BASE_ADDR) then 0 else 7) else m x)"
proof -
  define row where "row = BASE_ADDR + 23 * 160"
  define b where "b = (\<lambda>index (m :: nat \<Rightarrow> u8). if index mod 2 = 0
     then m(row + index := 0, row + index + 1 := 0x07) else m)"
  define I where "I = (\<lambda>k (t :: nat \<Rightarrow> u8). \<forall>x. t x =
     (if row \<le> x \<and> x < row + (k + k mod 2) then (if even (x - row) then 0 else 7) else m x))"
  have loop: "I 160 (for_upto 0 160 b m)"
  proof (rule for_upto_inv [where I = I])
    fix i t assume "I i t"
    then have t: "t x = (if row \<le> x \<and> x < row + (i + i mod 2)
        then (if even (x - row) then 0 else 7) else m x)" for x
      by (simp add: I_def)
    show "I (Suc i) (b i t)"
    proof (cases "even i")
      case True
      then have "i mod 2 = 0" and "Suc i mod 2 = 1" by presburger+
      then show ?thesis using True by (auto simp: I_def b_def t)
    next
      case False
      then have "i mod 2 = 1" and "Suc i mod 2 = 0" by presburger+
      then show ?thesis by (simp add: I_def b_def t)
    qed
  qed (auto simp: I_def)
  have "for_upto 0 160 b m x = (if row \<le> x \<and> x < row + (160 + 160 mod 2)
      then (if even (x - row) then 0 else 7) else m x)"
    using loop unfolding I_def by blast
  moreover have "scroll_blank m = for_upto 0 160 b m"
    unfolding scroll_blank_def b_def row_def ..
  moreover have "row + (160 + 160 mod 2) = row + 160" by simp
  ultimately have row: "scroll_blank m x = (if row \<le> x \<and> x < row + 160
      then (if even (x - row) then 0 else 7) else m x)"
    by (simp only:)
  have parity: "even (x - row) = even (x - BASE_ADDR)" if "row \<le> x"
  proof -
    have "x - BASE_ADDR = 3680 + (x - row)" using that by (simp add: row_def)
    then show ?thesis by simp
  qed
  have "BASE_ADDR + 23 * 160 = row" and "BASE_ADDR + 24 * 160 = row + 160"
    by (simp_all add: row_def)
  then show ?thesis using row parity by presburger
qed

section \<open>The cursor\<close>

text \<open>The invariant of the cursor: the width is an even byte offset inside a row.\<close>

definition console_inv :: "console \<Rightarrow> bool" where
  "console_inv c \<longleftrightarrow> unat (current_width c) < 160 \<and> even (unat (current_width c))"

definition offset_of :: "console \<Rightarrow> nat" where
  "offset_of c = unat (current_height c) * 160 + unat (current_width c)"

lemma unat_cursor:
  assumes "unat (h :: u64) \<le> 23" and "unat (w :: u64) < 160"
  shows "unat (h * 160 + w) = unat h * 160 + unat w"
proof -
  have "unat (h * 160) = unat h * 160"
    using assms by (simp add: unat_word_ariths)
  then show ?thesis using assms by (simp add: unat_word_ariths)
qed

lemma getCurrentAddress_inv:
  assumes "console_inv c" and "getCurrentAddress c = (a, c1)"
  shows "console_inv c1" and "a = BASE_ADDR + offset_of c1" and "unat (current_height c1) \<le> 23"
    and "offset_of c1 < 3840" and "even (offset_of c1)"
proof -
  have h: "unat (current_height c1) \<le> 23"
    using assms(2) by (auto simp: getCurrentAddress_def Let_def word_less_nat_alt split: if_splits)
  show inv: "console_inv c1"
    using assms by (auto simp: getCurrentAddress_def console_inv_def Let_def split: if_splits)
  show "unat (current_height c1) \<le> 23" by (fact h)
  then show "a = BASE_ADDR + offset_of c1"
    using assms(2) inv
    by (auto simp: getCurrentAddress_def offset_of_def console_inv_def Let_def unat_cursor)
  show "offset_of c1 < 3840" and "even (offset_of c1)"
    using h inv by (auto simp: offset_of_def console_inv_def)
qed

lemma UpdateHeightWidth_at:
  assumes "off < 2 ^ 63"
  shows "unat (current_height (UpdateHeightWidth (BASE_ADDR + off) c)) = off div 160"
    and "unat (current_width (UpdateHeightWidth (BASE_ADDR + off) c)) = off mod 160"
proof -
  have "(of_nat (BASE_ADDR + off) :: u64) - of_nat BASE_ADDR = of_nat off" by simp
  moreover have "unat (of_nat off :: u64) = off"
    using assms by (simp add: unat_of_nat_small)
  ultimately show "unat (current_height (UpdateHeightWidth (BASE_ADDR + off) c)) = off div 160"
    and "unat (current_width (UpdateHeightWidth (BASE_ADDR + off) c)) = off mod 160"
    by (simp_all add: UpdateHeightWidth_def Let_def unat_div unat_mod)
qed

lemma vram_UpdateHeightWidth [simp]: "vram (UpdateHeightWidth a c) = vram c"
  by (simp add: UpdateHeightWidth_def Let_def)

text \<open>Every printer is a run of cells followed by the cursor update.\<close>

lemma finish_cells:
  fixes c :: console and off :: nat and chs :: "u8 list"
  assumes "off + 2 * length chs < 2 ^ 63" and "even off"
  defines "c' \<equiv> finish c (put_cells chs (BASE_ADDR + off, vram c))"
  shows "console_inv c'" and "offset_of c' = off + 2 * length chs"
    and "vram c' = snd (put_cells chs (BASE_ADDR + off, vram c))"
proof -
  have fin: "c' = UpdateHeightWidth (BASE_ADDR + (off + 2 * length chs))
      (c\<lparr>vram := snd (put_cells chs (BASE_ADDR + off, vram c))\<rparr>)"
    by (simp add: c'_def finish_def add.assoc)
  have "even ((off + 2 * length chs) mod 160)"
    using assms(2) by (simp add: dvd_mod_iff)
  then show "console_inv c'" and "offset_of c' = off + 2 * length chs"
    and "vram c' = snd (put_cells chs (BASE_ADDR + off, vram c))"
    using assms(1) by (simp_all add: fin console_inv_def offset_of_def UpdateHeightWidth_at)
qed


section \<open>What is on the screen\<close>

definition screen_text :: "(nat \<Rightarrow> u8) \<Rightarrow> nat \<Rightarrow> nat \<Rightarrow> u8 list" where
  "screen_text m a n = map (\<lambda>k. m (a + 2 * k)) [0..<n]"

lemma screen_text_put_cells:
  "screen_text (snd (put_cells chs (a, m))) a (length chs) = chs"
  by (rule nth_equalityI) (auto simp: screen_text_def put_cells_apply)

text \<open>Decimal text of an integer, and its reading.\<close>

definition int_text :: "int \<Rightarrow> u8 list" where
  "int_text n = (if n = 0 then [0x30]
     else (if n < 0 then [0x2d] else []) @ dec_text (nat \<bar>n\<bar>))"

definition text_value :: "u8 list \<Rightarrow> int" where
  "text_value t =
     (let value = (\<lambda>ds. int (digits_value 10 (map (\<lambda>d. unat (d - 0x30)) ds)))
      in if t \<noteq> [] \<and> hd t = 0x2d then - value (tl t) else value t)"

lemma dec_text_digits: "map (\<lambda>d. unat (d - 0x30)) (dec_text n) = rev (rev_digits 10 n)"
proof -
  have "map (\<lambda>d. unat ((0x30 + of_nat d) - 0x30 :: u8)) (rev (rev_digits 10 n)) = rev (rev_digits 10 n)"
    by (rule map_idI) (auto dest!: rev_digits_less [of 10, simplified] simp: unat_of_nat_small)
  then show ?thesis by (simp add: dec_text_def comp_def)
qed

lemma dec_text_head:
  assumes "0 < n"
  shows "dec_text n \<noteq> [] \<and> hd (dec_text n) \<noteq> 0x2d"
proof -
  have ne: "dec_text n \<noteq> []"
    using assms by (simp add: dec_text_def rev_digits_nonempty)
  define f where "f = (\<lambda>d :: u8. unat (d - 0x30))"
  have "map f (dec_text n) = rev (rev_digits 10 n)"
    unfolding f_def by (rule dec_text_digits)
  then have "f (hd (dec_text n)) = hd (rev (rev_digits 10 n))"
    using ne by (metis list.map_sel(1))
  moreover have "hd (rev (rev_digits 10 n)) \<in> set (rev_digits 10 n)"
    using assms rev_digits_nonempty [of 10 n] hd_in_set [of "rev (rev_digits 10 n)"] by simp
  ultimately have "f (hd (dec_text n)) < 10"
    by (simp add: rev_digits_less)
  moreover have "f 0x2d = 253" by (simp add: f_def)
  ultimately show ?thesis using ne by fastforce
qed

lemma text_value_int_text: "text_value (int_text n) = n"
proof -
  have "digits_value 10 (map (\<lambda>d. unat (d - 0x30)) (dec_text k)) = k" for k
    by (simp only: dec_text_digits) (simp add: digits_value_rev_digits)
  then show ?thesis
    using dec_text_head [of "nat \<bar>n\<bar>"]
    by (auto simp: int_text_def text_value_def Let_def digits_value_def [of _ "[0]"])
qed

lemma sint_bits: "\<bar>sint (w :: u32)\<bar> \<le> 2 ^ 31"
  using sint_ge [of w] sint_lt [of w] by auto

lemma length_dec_text: "n < 10 ^ k \<Longrightarrow> length (dec_text n) \<le> k"
  by (simp add: dec_text_def rev_digits_length)

lemma length_hex_text: "n < 16 ^ k \<Longrightarrow> length (hex_text n) \<le> k"
  by (simp add: hex_text_def rev_digits_length)

lemma length_int_text: "\<bar>n\<bar> \<le> 2 ^ 31 \<Longrightarrow> length (int_text n) \<le> 11"
proof -
  assume "\<bar>n\<bar> \<le> 2 ^ 31"
  then have "nat \<bar>n\<bar> < 10 ^ 10" by simp
  then have "length (dec_text (nat \<bar>n\<bar>)) \<le> 10" by (rule length_dec_text)
  then show ?thesis by (cases "n < 0") (auto simp: int_text_def)
qed

section \<open>The printers as runs of cells\<close>

lemma HandleChar_cells: "HandleChar ch a c = finish c (put_cells [ch] (a, vram c))"
  by (simp add: HandleChar_def)

lemma HandleString_cells:
  "HandleString str a c = finish c (put_cells (takeWhile (\<lambda>ch. ch \<noteq> 0) str) (a, vram c))"
  by (simp add: HandleString_def put_string_cells)

lemma emit_small:
  assumes "n < 10 ^ 10"
  obtains k ch where "digits_loop n 0 (replicate 100 0) = (k, ch)"
    and "\<And>p. emit_digits k ch p = put_cells (dec_text n) p"
proof -
  have "length (rev_digits 10 n) \<le> 100" using rev_digits_length [of 10 n 10] assms by simp
  from emit_digits_cells [OF this] show ?thesis
    by (intro that [of "fst (digits_loop n 0 (replicate 100 0))"
          "snd (digits_loop n 0 (replicate 100 0))"]) simp_all
qed

lemma HandleSignedInt_cells:
  "HandleSignedInt i a c =
     (if sint i = - (2 ^ 31) then None
      else Some (finish c (put_cells (int_text (sint i)) (a, vram c))))"
proof (cases "i = 0")
  case True
  then show ?thesis by (simp add: HandleSignedInt_def int_text_def)
next
  case False
  then have "sint i \<noteq> 0" by (metis sint_0 signed_word_eqI)
  moreover have "nat \<bar>sint i\<bar> < 10 ^ 10" using sint_bits [of i] by auto
  then obtain k ch where "digits_loop (nat \<bar>sint i\<bar>) 0 (replicate 100 0) = (k, ch)"
    and "\<And>p. emit_digits k ch p = put_cells (dec_text (nat \<bar>sint i\<bar>)) p"
    by (rule emit_small) blast
  ultimately show ?thesis
    using False by (cases "sint i < 0") (simp_all add: HandleSignedInt_def int_text_def)
qed

lemma HandleUnsignedInt_cells:
  "HandleUnsignedInt u a c = finish c (put_cells (int_text (int (unat u))) (a, vram c))"
proof -
  have "unat u < 10 ^ 10" using unat_bound [of u] by simp
  then obtain k ch where "digits_loop (unat u) 0 (replicate 100 0) = (k, ch)"
    and "\<And>p. emit_digits k ch p = put_cells (dec_text (unat u)) p"
    by (rule emit_small) blast
  then show ?thesis by (simp add: HandleUnsignedInt_def int_text_def uint_0_iff)
qed

lemma HandleAddress_cells:
  "HandleAddress addr a c =
     finish c (put_cells (if addr = 0 then [0x30] else 0 # hex_text (unat addr)) (a, vram c))"
proof -
  have "length (rev_digits 16 (unat addr)) < 100"
    using rev_digits_length [of 16 "unat addr" 16] unat_bound [of addr] by simp
  from hex_cells [OF this, of "(a, vram c)"] show ?thesis
    by (auto simp: HandleAddress_def case_prod_unfold Let_def simp del: upt_Suc)
qed

definition time_text :: "u32 \<Rightarrow> u8 list" where
  "time_text time = dec_text (unat time) @ [of_char (CHR ''s'')]"

lemma length_time_text: "length (time_text time) \<le> 11"
proof -
  have "unat time < 10 ^ 10" using unat_bound [of time] by simp
  then have "length (dec_text (unat time)) \<le> 10" by (rule length_dec_text)
  then show ?thesis by (simp add: time_text_def)
qed

lemma printTime_cells:
  "printTime time c = c\<lparr>vram := snd (put_cells (time_text time) (TIME_ADDRESS, vram c))\<rparr>"
proof -
  have "unat time < 10 ^ 10" using unat_bound [of time] by simp
  then obtain k ch where "digits_loop (unat time) 0 (replicate 100 0) = (k, ch)"
    and "\<And>p. emit_digits k ch p = put_cells (dec_text (unat time)) p"
    by (rule emit_small) blast
  then show ?thesis by (simp add: printTime_def put_cells_append time_text_def)
qed

lemma printTime_frame [frame]:
  "x < TIME_ADDRESS \<or> TIME_ADDRESS + 22 \<le> x \<Longrightarrow> vram (printTime time c) x = vram c x"
  using length_time_text [of time] by (auto simp: printTime_cells put_cells_apply)

lemmas printers = HandleChar_cells HandleString_cells HandleUnsignedInt_cells HandleAddress_cells


section \<open>The terminal the console implements\<close>

text \<open>Abstract terminal: 24 rows of 160 bytes and a cursor (row, byte column). A
  character goes to the cursor cell; a line feed starts the next row; a cursor
  below the last row scrolls by one row first.\<close>

type_synonym terminal = "u8 list list \<times> nat \<times> nat"

definition blank_row :: "u8 list" where
  "blank_row = map (\<lambda>k. if even k then 0 else 7) [0..<160]"

fun term_scroll :: "terminal \<Rightarrow> terminal" where
  "term_scroll (rows, h, w) = (if 23 < h then (tl rows @ [blank_row], 23, 0) else (rows, h, w))"

fun term_store :: "u8 \<Rightarrow> terminal \<Rightarrow> terminal" where
  "term_store ch (rows, h, w) =
     (rows[h := (rows ! h)[w := ch, w + 1 := 7]], (160 * h + w + 2) div 160, (160 * h + w + 2) mod 160)"

fun term_newline :: "terminal \<Rightarrow> terminal" where
  "term_newline (rows, h, w) = term_scroll (rows, h + 1, 0)"

definition term_putc :: "u8 \<Rightarrow> terminal \<Rightarrow> terminal" where
  "term_putc ch t =
     (if ch = of_char (CHR 0x0A) then term_newline (term_scroll t) else term_store ch (term_scroll t))"

definition row_bytes :: "(nat \<Rightarrow> u8) \<Rightarrow> nat \<Rightarrow> u8 list" where
  "row_bytes m r = map (\<lambda>k. m (BASE_ADDR + 160 * r + k)) [0..<160]"

definition screen_rows :: "(nat \<Rightarrow> u8) \<Rightarrow> u8 list list" where
  "screen_rows m = map (row_bytes m) [0..<24]"

definition terminal_of :: "console \<Rightarrow> terminal" where
  "terminal_of c = (screen_rows (vram c), unat (current_height c), unat (current_width c))"

lemma length_screen_rows [simp]: "length (screen_rows m) = 24"
  by (simp add: screen_rows_def)

lemma nth_screen_rows [simp]: "r < 24 \<Longrightarrow> screen_rows m ! r = row_bytes m r"
  by (simp add: screen_rows_def)

lemma length_row_bytes [simp]: "length (row_bytes m r) = 160"
  by (simp add: row_bytes_def)

lemma nth_row_bytes [simp]: "k < 160 \<Longrightarrow> row_bytes m r ! k = m (BASE_ADDR + 160 * r + k)"
  by (simp add: row_bytes_def)

lemma screen_rows_scroll:
  "screen_rows (scroll_blank (scroll_copy m)) = tl (screen_rows m) @ [blank_row]"
proof (rule nth_equalityI)
  fix r assume "r < length (screen_rows (scroll_blank (scroll_copy m)))"
  then have r: "r < 24" by simp
  show "screen_rows (scroll_blank (scroll_copy m)) ! r = (tl (screen_rows m) @ [blank_row]) ! r"
  proof (rule nth_equalityI)
    show "length (screen_rows (scroll_blank (scroll_copy m)) ! r)
        = length ((tl (screen_rows m) @ [blank_row]) ! r)"
      using r by (auto simp: nth_append nth_tl blank_row_def)
    fix k assume "k < length (screen_rows (scroll_blank (scroll_copy m)) ! r)"
    with r have k: "k < 160" by simp
    show "screen_rows (scroll_blank (scroll_copy m)) ! r ! k
        = (tl (screen_rows m) @ [blank_row]) ! r ! k"
    proof (cases "r = 23")
      case True
      then show ?thesis using k
        by (simp add: nth_append scroll_blank_apply blank_row_def)
    next
      case False
      then have "BASE_ADDR + 160 * r + k < BASE_ADDR + 3680" using r k by simp
      then show ?thesis using r k False
        by (simp add: nth_append nth_tl scroll_blank_apply scroll_copy_apply algebra_simps)
    qed
  qed
qed simp

lemma screen_rows_cell:
  assumes "h < 24" and "w < 159"
  shows "screen_rows (m(BASE_ADDR + (160 * h + w) := x, BASE_ADDR + (160 * h + w) + 1 := y))
       = (screen_rows m)[h := (screen_rows m ! h)[w := x, w + 1 := y]]" (is "screen_rows ?m = ?R")
proof (rule nth_equalityI)
  fix r assume "r < length (screen_rows ?m)"
  then have r: "r < 24" by simp
  have other: "160 * r + k \<noteq> 160 * h + v" if "r \<noteq> h" "k < 160" "v < 160" for k v
    using that by (metis add.commute div_mult_self1_is_m div_mult_self2 div_less add_0
        mult.commute zero_neq_numeral zero_less_numeral)
  show "screen_rows ?m ! r = ?R ! r"
  proof (rule nth_equalityI)
    fix k assume "k < length (screen_rows ?m ! r)"
    then have k: "k < 160" using r by simp
    show "screen_rows ?m ! r ! k = ?R ! r ! k"
    proof (cases "r = h")
      case True
      then show ?thesis using assms k by (simp add: nth_list_update)
    next
      case False
      then show ?thesis
        using assms r k other [OF False k, of w] other [OF False k, of "w + 1"]
        by (simp add: add.assoc)
    qed
  qed (use assms r in \<open>cases "r = h"; simp\<close>)
qed simp


section \<open>One character of plain text\<close>

definition putc :: "u8 \<Rightarrow> console \<Rightarrow> console" where
  "putc ch c = (let (a, c1) = getCurrentAddress c in HandleEverythingElse ch a c1)"

lemma kprintf_plain_step:
  "ch \<noteq> 0 \<Longrightarrow> ch \<noteq> of_char (CHR ''%'') \<Longrightarrow> kprintf (ch # fmt) args c = kprintf fmt args (putc ch c)"
  by (simp add: putc_def case_prod_unfold Let_def)

lemma getCurrentAddress_refines:
  "getCurrentAddress c = (a, c1) \<Longrightarrow> terminal_of c1 = term_scroll (terminal_of c)"
  by (auto simp: getCurrentAddress_def terminal_of_def Let_def word_less_nat_alt screen_rows_scroll)

lemma getCurrentAddress_frame [frame]:
  assumes "getCurrentAddress c = (a, c1)" and "x < BASE_ADDR \<or> BASE_ADDR + 3840 \<le> x"
  shows "vram c1 x = vram c x"
  using assms by (auto simp: getCurrentAddress_def Let_def scroll_blank_apply scroll_copy_apply)

text \<open>A cell stored at the cursor of an address that \<open>getCurrentAddress\<close> returned.\<close>

lemma store_cell_refines:
  fixes c1 :: console and ch :: u8
  assumes "console_inv c1" and "unat (current_height c1) \<le> 23"
  defines "c2 \<equiv> finish c1 (put_cells [ch] (BASE_ADDR + offset_of c1, vram c1))"
  shows "terminal_of c2 = term_store ch (terminal_of c1)" and "console_inv c2"
    and "x < BASE_ADDR \<or> BASE_ADDR + 3840 \<le> x \<Longrightarrow> vram c2 x = vram c1 x"
proof -
  let ?h = "unat (current_height c1)" and ?w = "unat (current_width c1)"
  have off: "offset_of c1 = 160 * ?h + ?w" by (simp add: offset_of_def)
  have w160: "?w < 160" and evw: "even ?w" using assms(1) by (auto simp: console_inv_def)
  then have w: "?w < 159" by presburger
  have ev: "even (offset_of c1)" using evw by (simp add: off)
  have lt: "offset_of c1 + 2 \<le> 3840" using w assms(2) off by linarith
  have v: "vram c2 = (vram c1)(BASE_ADDR + offset_of c1 := ch, BASE_ADDR + offset_of c1 + 1 := 7)"
    by (simp add: c2_def finish_def)
  have o2: "offset_of c1 + 2 < 2 ^ 63" using lt by simp
  show "console_inv c2"
    using finish_cells(1) [of "offset_of c1" "[ch]"] ev lt by (simp add: c2_def)
  show "terminal_of c2 = term_store ch (terminal_of c1)"
    using w assms(2) UpdateHeightWidth_at [OF o2] 
    by (simp add: terminal_of_def v off screen_rows_cell [simplified])
       (simp add: c2_def finish_def off add.assoc)
  show "x < BASE_ADDR \<or> BASE_ADDR + 3840 \<le> x \<Longrightarrow> vram c2 x = vram c1 x"
    using lt by (auto simp: v)
qed


lemma putc_refines:
  assumes "console_inv c"
  shows "terminal_of (putc ch c) = term_putc ch (terminal_of c)" and "console_inv (putc ch c)"
    and "x < BASE_ADDR \<or> BASE_ADDR + 3840 \<le> x \<Longrightarrow> vram (putc ch c) x = vram c x"
proof -
  obtain a c1 where g: "getCurrentAddress c = (a, c1)" by fastforce
  note inv = getCurrentAddress_inv [OF assms g]
  let ?n = "c1\<lparr>current_height := current_height c1 + 1, current_width := 0\<rparr>"
  have suc: "unat (current_height c1 + 1) = unat (current_height c1) + 1"
    using inv(3) by (simp add: unat_word_ariths)
  have nl: "terminal_of ?n = (screen_rows (vram c1), unat (current_height c1) + 1, 0)"
    by (simp add: terminal_of_def suc)
  obtain a' c2 where g2: "getCurrentAddress ?n = (a', c2)" by fastforce
  have n_inv: "console_inv ?n" by (simp add: console_inv_def)
  note store = store_cell_refines [OF inv(1,3), where ch = ch]
  have put: "putc ch c = (if ch = 0x0A then c2
      else finish c1 (put_cells [ch] (BASE_ADDR + offset_of c1, vram c1)))"
    by (simp add: putc_def g HandleEverythingElse_def HandleNewLine_def g2 inv(2))
  have "terminal_of c1 = term_scroll (terminal_of c)" by (rule getCurrentAddress_refines [OF g])
  moreover have "terminal_of c2 = term_newline (terminal_of c1)"
    using getCurrentAddress_refines [OF g2] nl by (simp add: terminal_of_def)
  ultimately show "terminal_of (putc ch c) = term_putc ch (terminal_of c)"
    by (simp add: put term_putc_def store(1) del: put_cells.simps)
  show "console_inv (putc ch c)"
    using getCurrentAddress_inv(1) [OF n_inv g2] store(2) by (simp add: put del: put_cells.simps)
  show "x < BASE_ADDR \<or> BASE_ADDR + 3840 \<le> x \<Longrightarrow> vram (putc ch c) x = vram c x"
    using getCurrentAddress_frame [OF g, of x] getCurrentAddress_frame [OF g2, of x] store(3) [of x]
    by (auto simp: put simp del: put_cells.simps)
qed

definition plain_format :: "u8 list \<Rightarrow> bool" where
  "plain_format fmt \<longleftrightarrow> (\<forall>ch \<in> set fmt. ch \<noteq> 0 \<and> ch \<noteq> of_char (CHR ''%''))"

lemma kprintf_plain: "plain_format fmt \<Longrightarrow> kprintf fmt args c = Some (fold putc fmt c)"
proof (induction fmt arbitrary: c)
  case Nil
  then show ?case by simp
next
  case (Cons ch fmt)
  then have "plain_format fmt" and "ch \<noteq> 0" and "ch \<noteq> of_char (CHR ''%'')"
    by (simp_all add: plain_format_def)
  then show ?case using Cons.IH by (simp add: kprintf_plain_step del: kprintf.simps)
qed

lemma fold_putc_refines:
  assumes "console_inv c"
  shows "terminal_of (fold putc fmt c) = fold term_putc fmt (terminal_of c)
    \<and> console_inv (fold putc fmt c)
    \<and> (\<forall>x. x < BASE_ADDR \<or> BASE_ADDR + 3840 \<le> x \<longrightarrow> vram (fold putc fmt c) x = vram c x)"
  using assms
proof (induction fmt arbitrary: c)
  case Nil
  then show ?case by simp
next
  case (Cons ch fmt)
  have "console_inv (putc ch c)" using Cons.prems by (rule putc_refines(2))
  from Cons.IH [OF this] show ?case
    using putc_refines [OF Cons.prems] by simp
qed

section \<open>Formats with conversions\<close>

definition arg_size :: "vararg \<Rightarrow> nat" where
  "arg_size v = (case v of ArgStr str \<Rightarrow> length str | _ \<Rightarrow> 16)"

lemma length_int_text_unsigned: "length (int_text (int (unat (u :: u32)))) \<le> 11"
proof -
  have "nat \<bar>int (unat u)\<bar> < 10 ^ 10" using unat_bound [of u] by simp
  then have "length (dec_text (nat \<bar>int (unat u)\<bar>)) \<le> 10" by (rule length_dec_text)
  then show ?thesis by (simp add: int_text_def)
qed

lemma length_address_text:
  "length (if addr = 0 then [0x30] else 0 # hex_text (unat (addr :: u64))) \<le> 17"
  using length_hex_text [of "unat addr" 16] unat_bound [of addr] by simp

text \<open>One conversion is one run of cells at the cursor, of bounded length.\<close>

definition cell_run :: "console \<Rightarrow> console \<Rightarrow> bool" where
  "cell_run c c' \<longleftrightarrow> (\<exists>a c1 chs. getCurrentAddress c = (a, c1) \<and> length chs < 2 ^ 60
     \<and> c' = finish c1 (put_cells chs (a, vram c1)))"

lemma cell_runI:
  "getCurrentAddress c = (a, c1) \<Longrightarrow> length chs < 2 ^ 60 \<Longrightarrow>
   cell_run c (finish c1 (put_cells chs (a, vram c1)))"
  by (auto simp: cell_run_def)

lemma kprintf_conv_cells:
  assumes "kprintf_conv d args c = Some (rest, c')" and "\<forall>v \<in> set args. arg_size v < 2 ^ 60"
  shows "set rest \<subseteq> set args" and "c' = c \<or> cell_run c c'"
proof -
  obtain a c1 where g: "getCurrentAddress c = (a, c1)" by fastforce
  note run = cell_runI [OF g]
  have str: "cell_run c (HandleString str a c1)" if "ArgStr str \<in> set args" for str
    using assms(2) that length_takeWhile_le [of "\<lambda>ch. ch \<noteq> 0" str]
    by (fastforce simp: arg_size_def HandleString_cells intro!: run)
  have num: "cell_run c x" if "HandleSignedInt i a c1 = Some x" for i x
    using that length_int_text [OF sint_bits, of i]
    by (auto simp: HandleSignedInt_cells intro!: run split: if_splits)
  have unsig: "cell_run c (HandleUnsignedInt u a c1)" for u
    unfolding HandleUnsignedInt_cells
    by (rule run, rule le_less_trans [OF length_int_text_unsigned]) simp
  have addr: "cell_run c (HandleAddress w a c1)" for w
    unfolding HandleAddress_cells
    by (rule run, rule le_less_trans [OF length_address_text]) simp
  have chr: "cell_run c (HandleChar ch a c1)" for ch
    unfolding HandleChar_cells by (rule run) simp
  show "set rest \<subseteq> set args" and "c' = c \<or> cell_run c c'"
    using assms(1) str num unsig addr chr
    by (auto simp: kprintf_conv_def g split: if_splits list.splits vararg.splits)
qed

lemma cell_run_inv: "console_inv c \<Longrightarrow> cell_run c c' \<Longrightarrow> console_inv c'"
proof -
  assume inv: "console_inv c" and "cell_run c c'"
  then obtain a c1 chs where g: "getCurrentAddress c = (a, c1)" and len: "length chs < 2 ^ 60"
    and c': "c' = finish c1 (put_cells chs (a, vram c1))" by (auto simp: cell_run_def)
  note i = getCurrentAddress_inv [OF inv g]
  show ?thesis using finish_cells(1) [of "offset_of c1" chs c1] i(2,4,5) len by (simp add: c')
qed

lemma kprintf_inv_lemma:
  assumes "kprintf fmt args c = Some c'" and "\<forall>v \<in> set args. arg_size v < 2 ^ 60" and "console_inv c"
  shows "console_inv c'"
  using assms
proof (induction fmt args c rule: kprintf.induct)
  case (1 args c)
  then show ?case by simp
next
  case (2 ch fmt args c)
  show ?case
  proof (cases "ch = 0 \<or> ch \<noteq> of_char (CHR ''%'')")
    case True
    then consider "ch = 0" | "ch \<noteq> 0" "ch \<noteq> of_char (CHR ''%'')" by blast
    then show ?thesis
    proof cases
      case 1
      then show ?thesis using "2.prems" by simp
    next
      case 2
      then have "kprintf fmt args (putc ch c) = Some c'" and "console_inv (putc ch c)"
        using "2.prems" kprintf_plain_step putc_refines(2) by auto
      then show ?thesis
        using 2 "2.prems" "2.IH"(2) by (auto simp: putc_def split: prod.splits)
    qed
  next
    case False
    then obtain d fmt' where fmt: "fmt = d # fmt'" "d \<noteq> 0"
      using "2.prems" by (auto split: list.splits if_splits)
    then obtain rest c1 where conv: "kprintf_conv d args c = Some (rest, c1)"
      and k: "kprintf fmt' rest c1 = Some c'"
      using False "2.prems" by (auto split: option.splits prod.splits)
    note step = kprintf_conv_cells [OF conv "2.prems"(2)]
    have "console_inv c1" using step(2) "2.prems"(3) cell_run_inv by blast
    then show ?thesis
      using "2.IH"(1) [of d fmt' "(rest, c1)" rest c1] False fmt conv k step(1) "2.prems"(2)
      by (simp add: subset_iff)
  qed
qed


section \<open>When a call is defined\<close>

text \<open>The arguments a conversion leaves, if the next argument has its type.\<close>

definition conv_args :: "u8 \<Rightarrow> vararg list \<Rightarrow> vararg list option" where
  "conv_args d args =
     (if d = of_char (CHR ''s'') then (case args of ArgStr _ # rest \<Rightarrow> Some rest | _ \<Rightarrow> None)
      else if d = of_char (CHR ''d'') then
        (case args of ArgInt i # rest \<Rightarrow> if sint i = - (2 ^ 31) then None else Some rest | _ \<Rightarrow> None)
      else if d = of_char (CHR ''x'') \<or> d = of_char (CHR ''c'') then
        (case args of ArgInt _ # rest \<Rightarrow> Some rest | _ \<Rightarrow> None)
      else if d = of_char (CHR ''p'') then (case args of ArgU64 _ # rest \<Rightarrow> Some rest | _ \<Rightarrow> None)
      else Some args)"

fun format_ok :: "u8 list \<Rightarrow> vararg list \<Rightarrow> bool" where
  "format_ok [] args = True"
| "format_ok (ch # fmt) args =
     (if ch = 0 then True
      else if ch = of_char (CHR ''%'') then
        (case fmt of [] \<Rightarrow> False
         | d # fmt' \<Rightarrow> d \<noteq> 0 \<and> (case conv_args d args of None \<Rightarrow> False | Some rest \<Rightarrow> format_ok fmt' rest))
      else format_ok fmt args)"

lemma kprintf_conv_args: "conv_args d args = map_option fst (kprintf_conv d args c)"
  by (auto simp: kprintf_conv_def conv_args_def HandleSignedInt_cells case_prod_unfold Let_def
      split: list.splits vararg.splits)

lemma kprintf_defined_iff: "kprintf fmt args c \<noteq> None \<longleftrightarrow> format_ok fmt args"
proof (induction fmt args c rule: kprintf.induct)
  case (1 args c)
  then show ?case by simp
next
  case (2 ch fmt args c)
  show ?case
  proof (cases "ch = 0 \<or> ch \<noteq> of_char (CHR ''%'')")
    case True
    then show ?thesis using 2 by (auto split: prod.splits)
  next
    case False
    then have ch: "ch = of_char (CHR ''%'')" by simp
    show ?thesis
    proof (cases fmt)
      case Nil
      then show ?thesis using ch by simp
    next
      case (Cons d fmt')
      then show ?thesis
      proof (cases "kprintf_conv d args c")
        case None
        then show ?thesis using ch Cons by (simp add: kprintf_conv_args [of d args c])
      next
        case (Some r)
        then show ?thesis using ch Cons 2(1)
          by (cases r) (simp add: kprintf_conv_args [of d args c])
      qed
    qed
  qed
qed

lemma kprintf_total: "format_ok fmt args \<Longrightarrow> \<exists>c'. kprintf fmt args c = Some c'"
  using kprintf_defined_iff [of fmt args c] by auto

section \<open>Properties\<close>

definition start_console :: console where
  "start_console = \<lparr>vram = (\<lambda>_. 0), current_width = 0, current_height = 0\<rparr>"

lemma start_console_inv: "console_inv start_console"
  by (simp add: start_console_def console_inv_def)

text \<open>Refinement of plain text. Printing a format without conversions (and
  without NUL) is always defined, and is exactly the abstract terminal taking the
  characters one by one: a 24-row screen that scrolls by a row when the cursor has
  run below the last row.\<close>

theorem kprintf_plain_refines_terminal:
  assumes "console_inv c" and "plain_format fmt"
  shows "\<exists>c'. kprintf fmt args c = Some c' \<and> terminal_of c' = fold term_putc fmt (terminal_of c)"
  using kprintf_plain [OF assms(2)] fold_putc_refines [OF assms(1)] by auto

theorem kprintf_plain_refines_terminal_witness:
  "\<exists>c'. kprintf (bytes ''hi'') [] start_console = Some c'
     \<and> terminal_of c' = fold term_putc (bytes ''hi'') (terminal_of start_console)"
  by (rule kprintf_plain_refines_terminal [OF start_console_inv]) (simp add: plain_format_def)

text \<open>Plain text never leaves the text area. However long it is, a format
  without conversions writes only to rows 0 to 23: the status row below (clock and
  key display) and all other memory keep their contents, and the cursor stays well
  formed.\<close>

theorem kprintf_plain_keeps_status_row:
  assumes "console_inv c" and "plain_format fmt" and "kprintf fmt args c = Some c'"
  shows "console_inv c' \<and> (\<forall>x. x < BASE_ADDR \<or> BASE_ADDR + 3840 \<le> x \<longrightarrow> vram c' x = vram c x)"
  using assms kprintf_plain [OF assms(2)] fold_putc_refines [OF assms(1)] by auto

theorem kprintf_plain_keeps_status_row_witness:
  "\<exists>c'. kprintf (bytes ''ok'') [] start_console = Some c' \<and> console_inv c'
     \<and> (\<forall>x. x < BASE_ADDR \<or> BASE_ADDR + 3840 \<le> x \<longrightarrow> vram c' x = vram start_console x)"
proof -
  have plain: "plain_format (bytes ''ok'')" by (simp add: plain_format_def)
  obtain c' where k: "kprintf (bytes ''ok'') [] start_console = Some c'"
    using kprintf_plain [OF plain] by blast
  from kprintf_plain_keeps_status_row [OF start_console_inv plain k] k show ?thesis by blast
qed

text \<open>C11: The cursor invariant. Every call of \<open>kprintf\<close> that returns, with any
  conversions and string arguments shorter than \<open>2^60\<close> bytes, leaves an even
  column inside a row; and from such a cursor the next write address is a character
  cell of rows 0 to 23, however far below the screen the cursor had run.\<close>

theorem kprintf_cursor_invariant:
  assumes "console_inv c" and "\<forall>v \<in> set args. arg_size v < 2 ^ 60" and "kprintf fmt args c = Some c'"
  shows "console_inv c' \<and> (\<forall>a c1. getCurrentAddress c' = (a, c1) \<longrightarrow>
     console_inv c1 \<and> BASE_ADDR \<le> a \<and> a + 1 < BASE_ADDR + 3840 \<and> even (a - BASE_ADDR))"
proof -
  have inv: "console_inv c'" using kprintf_inv_lemma [OF assms(3,2,1)] .
  have "console_inv c1 \<and> BASE_ADDR \<le> a \<and> a + 1 < BASE_ADDR + 3840 \<and> even (a - BASE_ADDR)"
    if g: "getCurrentAddress c' = (a, c1)" for a c1
  proof -
    note i = getCurrentAddress_inv [OF inv g]
    have "offset_of c1 + 1 < 3840" using i(4,5) by presburger
    then show ?thesis using i by simp
  qed
  with inv show ?thesis by blast
qed

theorem kprintf_cursor_invariant_witness:
  "kprintf (bytes ''%s'') [ArgStr (bytes ''a'')] start_console = Some (HandleString (bytes ''a'') BASE_ADDR start_console)
   \<and> console_inv (HandleString (bytes ''a'') BASE_ADDR start_console)"
proof -
  have k: "kprintf (bytes ''%s'') [ArgStr (bytes ''a'')] start_console
      = Some (HandleString (bytes ''a'') BASE_ADDR start_console)"
    by (simp add: kprintf_conv_def getCurrentAddress_def start_console_def)
  have small: "\<forall>v \<in> set [ArgStr (bytes ''a'')]. arg_size v < 2 ^ 60" by (simp add: arg_size_def)
  from kprintf_cursor_invariant [OF start_console_inv small k] k show ?thesis by blast
qed

text \<open>Scrolling. When the cursor is below row 23, asking for the write address
  drops the first row, moves the others up by one, blanks row 23 (NUL characters,
  attribute 7), puts the cursor at its start, and touches nothing outside the text
  area.\<close>

theorem scroll_moves_rows_up:
  assumes "23 < current_height c" and "getCurrentAddress c = (a, c1)"
  shows "screen_rows (vram c1) = tl (screen_rows (vram c)) @ [blank_row]
     \<and> a = BASE_ADDR + 23 * 160 \<and> current_height c1 = 23 \<and> current_width c1 = 0
     \<and> (\<forall>x. x < BASE_ADDR \<or> BASE_ADDR + 3840 \<le> x \<longrightarrow> vram c1 x = vram c x)"
  using assms getCurrentAddress_frame [OF assms(2)]
  by (auto simp: getCurrentAddress_def Let_def screen_rows_scroll)

theorem scroll_moves_rows_up_witness:
  "screen_rows (vram (snd (getCurrentAddress (start_console\<lparr>current_height := 30\<rparr>))))
     = tl (screen_rows (vram (start_console\<lparr>current_height := 30\<rparr>))) @ [blank_row]"
  using scroll_moves_rows_up [of "start_console\<lparr>current_height := 30\<rparr>"
      "fst (getCurrentAddress (start_console\<lparr>current_height := 30\<rparr>))"
      "snd (getCurrentAddress (start_console\<lparr>current_height := 30\<rparr>))"]
  by simp

text \<open>\<open>%d\<close> prints the number. For every \<open>int\<close> but the smallest one, the cells
  from the cursor on read as a text whose decimal value is the argument, in at most
  11 characters, the cursor moves behind it, and no other memory changes. (For
  \<open>INT_MIN\<close> the negation overflows and the call is undefined.)\<close>

theorem HandleSignedInt_prints_decimal:
  assumes "sint i \<noteq> - (2 ^ 31)" and "even off" and "off < 3840"
  shows "\<exists>c' n. HandleSignedInt i (BASE_ADDR + off) c = Some c' \<and> n \<le> 11
     \<and> text_value (screen_text (vram c') (BASE_ADDR + off) n) = sint i
     \<and> offset_of c' = off + 2 * n
     \<and> (\<forall>x. x < BASE_ADDR + off \<or> BASE_ADDR + off + 2 * n \<le> x \<longrightarrow> vram c' x = vram c x)"
proof -
  let ?t = "int_text (sint i)" and ?a = "BASE_ADDR + off"
  define c' where "c' = finish c (put_cells ?t (?a, vram c))"
  have len: "length ?t \<le> 11" by (rule length_int_text [OF sint_bits])
  then have small: "off + 2 * length ?t < 2 ^ 63" using assms(3) by simp
  note fin = finish_cells [OF small assms(2), of c]
  have "HandleSignedInt i ?a c = Some c'"
    using assms(1) by (simp add: HandleSignedInt_cells c'_def)
  moreover have "text_value (screen_text (vram c') ?a (length ?t)) = sint i"
    by (simp only: c'_def fin(3) screen_text_put_cells text_value_int_text)
  moreover have "\<forall>x. x < ?a \<or> ?a + 2 * length ?t \<le> x \<longrightarrow> vram c' x = vram c x"
    by (simp only: c'_def fin(3)) (blast intro: put_cells_frame)
  ultimately show ?thesis using len fin(2) by (auto simp: c'_def)
qed

theorem HandleSignedInt_prints_decimal_witness:
  "\<exists>c' n. HandleSignedInt (-42) (BASE_ADDR + 4) start_console = Some c' \<and> n \<le> 11
     \<and> text_value (screen_text (vram c') (BASE_ADDR + 4) n) = -42"
  using HandleSignedInt_prints_decimal [of "-42" 4 start_console] by auto

text \<open>\<open>%p\<close> prints a stray NUL cell. For a non-zero address the loop that
  emits the digits starts one entry above the last digit: the first cell is the NUL
  of the zero-initialised array, and the hexadecimal digits (at most 16, most
  significant first, none of them a leading zero) follow it.\<close>

theorem HandleAddress_leading_nul:
  assumes "addr \<noteq> 0" and "even off" and "off < 3840"
  shows "\<exists>ds. digits_value 16 ds = unat addr \<and> ds \<noteq> [] \<and> hd ds \<noteq> 0 \<and> length ds \<le> 16
     \<and> (\<forall>d \<in> set ds. d < 16)
     \<and> screen_text (vram (HandleAddress addr (BASE_ADDR + off) c)) (BASE_ADDR + off) (length ds + 1)
         = 0 # map hex_digit ds"
proof -
  let ?r = "rev_digits 16 (unat addr)" and ?a = "BASE_ADDR + off"
  have pos: "0 < unat addr" using assms(1) by (simp add: unat_gt_0)
  have len: "length ?r \<le> 16" using rev_digits_length [of 16 "unat addr" 16] unat_bound [of addr] by simp
  let ?chs = "0 # hex_text (unat addr)"
  have lc: "length ?chs = length ?r + 1" by (simp add: hex_text_def)
  then have small: "off + 2 * length ?chs < 2 ^ 63" using assms(3) len by simp
  note fin = finish_cells [OF small assms(2), of c]
  have "screen_text (vram (HandleAddress addr ?a c)) ?a (length ?chs) = ?chs"
    using assms(1) by (simp only: HandleAddress_cells if_False fin(3) screen_text_put_cells)
  then have "screen_text (vram (HandleAddress addr ?a c)) ?a (length (rev ?r) + 1) = 0 # map hex_digit (rev ?r)"
    by (simp add: lc hex_text_def)
  moreover have "hd (rev ?r) \<noteq> 0"
    using rev_digits_last [of 16 "unat addr"] pos by (simp add: hd_rev)
  ultimately show ?thesis
    using len pos rev_digits_nonempty [of 16 "unat addr"] rev_digits_less [of 16 _ "unat addr"]
      digits_value_rev_digits [of 16 "unat addr"]
    by (intro exI [of _ "rev ?r"]) auto
qed

theorem HandleAddress_leading_nul_witness:
  "\<exists>ds. digits_value 16 ds = 0x1F \<and>
     screen_text (vram (HandleAddress 0x1F BASE_ADDR start_console)) BASE_ADDR (length ds + 1)
       = 0 # map hex_digit ds"
  using HandleAddress_leading_nul [of "0x1F" 0 start_console] by auto

text \<open>\<open>%s\<close> is not clipped to the screen. A string without NUL bytes is
  written as one run of cells at the cursor; the status row keeps its contents
  exactly when the run ends inside the text area, and otherwise the row's first
  byte is overwritten by the character that falls on it.\<close>

theorem HandleString_clobbers_status_row:
  fixes c :: console and str :: "u8 list" and off :: nat
  assumes "even off" and "off < 3840" and "0 \<notin> set str" and "length str < 2 ^ 60"
  defines "c' \<equiv> HandleString str (BASE_ADDR + off) c"
  shows "screen_text (vram c') (BASE_ADDR + off) (length str) = str
     \<and> (off + 2 * length str \<le> 3840 \<longrightarrow> (\<forall>x \<ge> BASE_ADDR + 3840. vram c' x = vram c x))
     \<and> (3840 < off + 2 * length str \<longrightarrow> vram c' (BASE_ADDR + 3840) = str ! ((3840 - off) div 2))"
proof -
  have all: "takeWhile (\<lambda>ch. ch \<noteq> 0) str = str" using assms(3) by (simp add: takeWhile_eq_all_conv) metis
  have small: "off + 2 * length str < 2 ^ 63" using assms(2,4) by simp
  have v: "vram c' = snd (put_cells str (BASE_ADDR + off, vram c))"
    using finish_cells(3) [OF small assms(1), of c] by (simp add: c'_def HandleString_cells all)
  have "even (BASE_ADDR + 3840 - (BASE_ADDR + off))" using assms(1,2) by simp
  then show ?thesis
    using assms(2) by (auto simp: v screen_text_put_cells put_cells_apply)
qed

theorem HandleString_clobbers_status_row_witness:
  "vram (HandleString (bytes ''xyz'') (BASE_ADDR + 3838) start_console) (BASE_ADDR + 3840) = of_char (CHR ''y'')"
  using HandleString_clobbers_status_row [of 3838 "bytes ''xyz''" start_console] by simp

text \<open>The clock display stays in its field. Whatever the time, \<open>printTime\<close>
  writes its decimal digits (none for 0) and the letter s at column 60 of the status
  row, at most 22 bytes, all inside that row, and nothing else.\<close>

theorem printTime_in_status_row:
  "\<exists>n. n \<le> 11 \<and> screen_text (vram (printTime time c)) TIME_ADDRESS n = dec_text (unat time) @ [of_char (CHR ''s'')]
     \<and> TIME_ADDRESS + 2 * n \<le> BASE_ADDR + 4000
     \<and> (\<forall>x. x < TIME_ADDRESS \<or> TIME_ADDRESS + 2 * n \<le> x \<longrightarrow> vram (printTime time c) x = vram c x)
     \<and> current_height (printTime time c) = current_height c
     \<and> current_width (printTime time c) = current_width c"
proof -
  let ?t = "time_text time"
  have v: "vram (printTime time c) = snd (put_cells ?t (TIME_ADDRESS, vram c))"
    by (simp add: printTime_cells)
  have "screen_text (vram (printTime time c)) TIME_ADDRESS (length ?t) = ?t"
    by (simp only: v screen_text_put_cells)
  moreover have "\<forall>x. x < TIME_ADDRESS \<or> TIME_ADDRESS + 2 * length ?t \<le> x \<longrightarrow>
      vram (printTime time c) x = vram c x"
    by (simp only: v) (blast intro: put_cells_frame)
  moreover have "TIME_ADDRESS + 2 * length ?t \<le> BASE_ADDR + 4000"
    using length_time_text [of time] by (simp add: TIME_ADDRESS_def)
  ultimately show ?thesis using length_time_text [of time]
    by (intro exI [of _ "length ?t"]) (simp add: printTime_cells time_text_def)
qed

theorem printTime_in_status_row_witness:
  "\<exists>n. n \<le> 11 \<and> screen_text (vram (printTime 0 start_console)) TIME_ADDRESS n
      = dec_text (unat (0 :: u32)) @ [of_char (CHR ''s'')]"
  using printTime_in_status_row [of 0 start_console] by blast



end
