(* ===== verification/Idt.thy ===== *)
theory Idt
  imports Kprintf
begin

text \<open>
  The interrupt descriptor table of sys/idt.c: 256 packed 16-byte gates, the IDT
  register image, installing and looking up a service routine, and
  initialisation. Code addresses (handlers, the table's own address) are 64-bit
  words. The table is a list of gate records; its memory image is the concatenation
  of their little-endian encodings, which is what \<open>memset\<close> clears and the
  processor reads. A store beyond the last gate is undefined behaviour.
\<close>

section \<open>Data\<close>

record idtd =
  offset_1 :: u16
  selector :: u16
  ist :: u8
  gate_type :: u8
  offset_2 :: u16
  offset_3 :: u32
  gate_zero :: u32

record idtr =
  limit :: u16
  base :: u64

record idt_state =
  s_Idtr :: idtr
  s_Idtd :: "idtd list"
  loaded_idtr :: "idtr option"  \<comment> \<open>the processor's register, set by lidt\<close>
  interrupt_flag :: bool        \<comment> \<open>set by sti, cleared by cli\<close>

abbreviation (input) MAX_NUM_INTERRUPTS :: nat where
  "MAX_NUM_INTERRUPTS \<equiv> 256"

abbreviation (input) IDT_SELECTOR :: u16 where
  "IDT_SELECTOR \<equiv> 0x8"

abbreviation (input) INTERRUPT_GATE_TYPE_ATTR :: u8 where
  "INTERRUPT_GATE_TYPE_ATTR \<equiv> 0x8E"

text \<open>The packed layout of a gate (16 bytes).\<close>

definition idtd_bytes :: "idtd \<Rightarrow> u8 list" where
  "idtd_bytes d = le_bytes 2 (offset_1 d) @ le_bytes 2 (selector d) @ [ist d] @ [gate_type d]
     @ le_bytes 2 (offset_2 d) @ le_bytes 4 (offset_3 d) @ le_bytes 4 (gate_zero d)"

definition idtd_of_bytes :: "u8 list \<Rightarrow> idtd" where
  "idtd_of_bytes bs =
     \<lparr>offset_1 = of_le (take 2 bs), selector = of_le (take 2 (drop 2 bs)),
      ist = bs ! 4, gate_type = bs ! 5, offset_2 = of_le (take 2 (drop 6 bs)),
      offset_3 = of_le (take 4 (drop 8 bs)), gate_zero = of_le (take 4 (drop 12 bs))\<rparr>"

definition table_bytes :: "idtd list \<Rightarrow> u8 list" where
  "table_bytes t = concat (map idtd_bytes t)"

definition table_of_bytes :: "u8 list \<Rightarrow> idtd list" where
  "table_of_bytes bs = map (\<lambda>i. idtd_of_bytes (take 16 (drop (16 * i) bs))) [0..<length bs div 16]"

section \<open>Operations\<close>

text \<open>The kernel's own \<open>memset\<close>, over the bytes of the object it is given.\<close>

definition kmemset :: "u8 list \<Rightarrow> i32 \<Rightarrow> i32 \<Rightarrow> u8 list option" where
  "kmemset s c n =
     (if sint n \<le> int (length s)
      then Some (for_upto 0 (nat (sint n)) (\<lambda>i ch. ch[i := ucast c]) s)
      else None)"

definition enable_Interrupts :: "idt_state \<Rightarrow> idt_state" where
  "enable_Interrupts s = s\<lparr>interrupt_flag := True\<rparr>"

definition disable_Interrupts :: "idt_state \<Rightarrow> idt_state" where
  "disable_Interrupts s = s\<lparr>interrupt_flag := False\<rparr>"

definition set_interrupt_service_routine ::
  "u32 \<Rightarrow> u8 \<Rightarrow> u64 \<Rightarrow> idtd list \<Rightarrow> idtd list option" where
  "set_interrupt_service_routine interrupt_service_num gtype interrupt_service_routine t =
     (if interrupt_service_routine = 0 \<or> 256 < interrupt_service_num \<or> interrupt_service_num < 0
      then Some t
      else if length t \<le> unat interrupt_service_num then None
      else
        let addr = interrupt_service_routine
        in Some (t[unat interrupt_service_num :=
             \<lparr>offset_1 = ucast (addr AND 0xffff),
              selector = IDT_SELECTOR,
              ist = 0,
              gate_type = gtype,
              offset_2 = ucast (drop_bit 16 addr AND 0xffff),
              offset_3 = ucast (drop_bit 32 addr AND 0xffffffff),
              gate_zero = 0\<rparr>]))"

text \<open>The pointer to an entry is its index; \<open>None\<close> is the null pointer.\<close>

definition get_interrupt_service_routine :: "u32 \<Rightarrow> nat option" where
  "get_interrupt_service_routine interrupt_service_num =
     (if interrupt_service_num < 256 then Some (unat interrupt_service_num) else None)"

definition init_Idt :: "u64 \<Rightarrow> u64 \<Rightarrow> idt_state \<Rightarrow> console \<Rightarrow> (idt_state \<times> console) option" where
  "init_Idt table_addr default_interrupt_service_routine s c = do {
     let r = \<lparr>limit = of_nat (16 * MAX_NUM_INTERRUPTS - 1), base = table_addr\<rparr>;
     c1 \<leftarrow> kprintf (bytes (''s_idtr: lim (%d) base(%p)'' @ [CHR 0x0A]))
             [ArgInt (ucast (limit r)), ArgU64 (base r)] c;
     bs \<leftarrow> kmemset (table_bytes (s_Idtd s)) 0 (of_nat (16 * MAX_NUM_INTERRUPTS - 1));
     t \<leftarrow> for_list (\<lambda>i t. set_interrupt_service_routine (of_nat i) INTERRUPT_GATE_TYPE_ATTR
             default_interrupt_service_routine t) [0..<MAX_NUM_INTERRUPTS] (table_of_bytes bs);
     Some (s\<lparr>s_Idtr := r, s_Idtd := t, loaded_idtr := Some r\<rparr>, c1)
   }"


section \<open>Layout\<close>

lemma length_idtd_bytes [simp]: "length (idtd_bytes d) = 16"
  by (simp add: idtd_bytes_def)

lemma idtd_of_bytes_idtd_bytes [layout]: "idtd_of_bytes (idtd_bytes d) = d"
proof -
  have "take 2 (idtd_bytes d) = le_bytes 2 (offset_1 d)"
    "take 2 (drop 2 (idtd_bytes d)) = le_bytes 2 (selector d)"
    "idtd_bytes d ! 4 = ist d" "idtd_bytes d ! 5 = gate_type d"
    "take 2 (drop 6 (idtd_bytes d)) = le_bytes 2 (offset_2 d)"
    "take 4 (drop 8 (idtd_bytes d)) = le_bytes 4 (offset_3 d)"
    "take 4 (drop 12 (idtd_bytes d)) = le_bytes 4 (gate_zero d)"
    by (simp_all add: idtd_bytes_def nth_append)
  then show ?thesis by (simp add: idtd_of_bytes_def layout)
qed

lemma length_table_bytes [simp]: "length (table_bytes t) = 16 * length t"
  by (induction t) (simp_all add: table_bytes_def)

text \<open>Gate number \<open>i\<close> occupies the 16 bytes from offset \<open>16 * i\<close>.\<close>

lemma table_bytes_gate [layout]:
  "i < length t \<Longrightarrow> take 16 (drop (16 * i) (table_bytes t)) = idtd_bytes (t ! i)"
proof (induction t arbitrary: i)
  case Nil
  then show ?case by simp
next
  case (Cons d t)
  then show ?case by (cases i) (simp_all add: table_bytes_def drop_append)
qed

lemma table_of_bytes_table_bytes [layout]: "table_of_bytes (table_bytes t) = t"
  by (rule nth_equalityI)
    (simp_all add: table_of_bytes_def table_bytes_gate idtd_of_bytes_idtd_bytes)

lemma length_table_of_bytes [simp]: "length (table_of_bytes bs) = length bs div 16"
  by (simp add: table_of_bytes_def)

section \<open>The installed gate\<close>

definition gate_for :: "u8 \<Rightarrow> u64 \<Rightarrow> idtd" where
  "gate_for gtype addr = \<lparr>offset_1 = ucast addr, selector = 8, ist = 0, gate_type = gtype,
     offset_2 = ucast (drop_bit 16 addr), offset_3 = ucast (drop_bit 32 addr), gate_zero = 0\<rparr>"

lemma gate_for_fields [simp]:
  "selector (gate_for gtype addr) = 8" "gate_type (gate_for gtype addr) = gtype"
  by (simp_all add: gate_for_def)

text \<open>What the processor reads: the handler address from bytes 0-1, 6-7 and 8-11
  of a gate.\<close>

definition gate_address :: "u8 list \<Rightarrow> u64" where
  "gate_address bs = of_le (take 2 bs @ take 2 (drop 6 bs) @ take 4 (drop 8 bs))"

lemma set_interrupt_service_routine_eq:
  "set_interrupt_service_routine n gtype addr t =
     (if addr = 0 \<or> 256 < n then Some t
      else if length t \<le> unat n then None else Some (t[unat n := gate_for gtype addr]))"
  by (simp add: set_interrupt_service_routine_def gate_for_def Let_def ucast_masked)

lemma ucast_parts [layout]:
  "(ucast (ucast a :: u16) :: u8) = ucast a" "(ucast (ucast a :: u32) :: u8) = ucast a"
  "(ucast (drop_bit 8 (ucast a :: u16)) :: u8) = ucast (drop_bit 8 a)"
  "(ucast (drop_bit 8 (ucast a :: u32)) :: u8) = ucast (drop_bit 8 a)"
  "(ucast (drop_bit 16 (ucast a :: u32)) :: u8) = ucast (drop_bit 16 a)"
  "(ucast (drop_bit 24 (ucast a :: u32)) :: u8) = ucast (drop_bit 24 a)" for a :: u64
  by (auto intro!: bit_word_eqI simp: bit_simps)

lemma gate_address_gate_for [layout]: "gate_address (idtd_bytes (gate_for gtype addr)) = addr"
proof -
  have bs: "take 2 (idtd_bytes (gate_for gtype addr)) @ take 2 (drop 6 (idtd_bytes (gate_for gtype addr)))
      @ take 4 (drop 8 (idtd_bytes (gate_for gtype addr))) = le_bytes 8 addr"
    by (simp add: idtd_bytes_def gate_for_def le_bytes_numeral ucast_parts drop_bit_drop_bit)
  show ?thesis by (simp only: gate_address_def bs) (simp add: of_le_whole)
qed


section \<open>Initialisation\<close>

lemma kmemset_eq:
  assumes "0 \<le> sint n" and "nat (sint n) \<le> length s"
  shows "kmemset s c n = Some (replicate (nat (sint n)) (ucast c) @ drop (nat (sint n)) s)"
proof -
  have "k \<le> length s \<Longrightarrow> for_upto 0 k (\<lambda>i ch. ch[i := ucast c]) s = replicate k (ucast c) @ drop k s" for k
  proof (induction k)
    case 0
    then show ?case by simp
  next
    case (Suc k)
    then have "drop k s = s ! k # drop (Suc k) s" by (simp add: Cons_nth_drop_Suc)
    with Suc show ?case
      by (simp add: for_upto_Suc list_update_append replicate_append_same del: replicate_Suc)
        (simp add: replicate_app_Cons_same)
  qed
  then show ?thesis using assms by (auto simp: kmemset_def)
qed

lemma kmemset_length: "kmemset s c n = Some s' \<Longrightarrow> length s' = length s"
proof -
  have "length (for_upto 0 k (\<lambda>i ch. ch[i := ucast c]) s) = length s" for k
    by (induction k) (simp_all add: for_upto_Suc)
  then show "kmemset s c n = Some s' \<Longrightarrow> length s' = length s"
    by (auto simp: kmemset_def split: if_splits)
qed

lemma install_loop:
  assumes "addr \<noteq> 0" and "n \<le> length t" and "n \<le> 256"
  shows "for_list (\<lambda>i t. set_interrupt_service_routine (of_nat i) gtype addr t) [0..<n] t
       = Some (replicate n (gate_for gtype addr) @ drop n t)"
  using assms(2,3)
proof (induction n)
  case 0
  then show ?case by simp
next
  case (Suc n)
  have "unat (of_nat n :: u32) = n" using Suc.prems by (intro unat_of_nat_small) simp
  then have "set_interrupt_service_routine (of_nat n) gtype addr (replicate n g @ drop n t)
      = Some ((replicate n g @ drop n t)[n := gate_for gtype addr])" for g
    using assms(1) Suc.prems
    by (simp add: set_interrupt_service_routine_eq word_less_nat_alt)
  moreover have "drop n t = t ! n # drop (Suc n) t" using Suc.prems by (simp add: Cons_nth_drop_Suc)
  ultimately show ?case
    using Suc by (simp add: for_list_append list_update_append replicate_app_Cons_same)
qed

lemma init_format_ok:
  "format_ok (bytes (''s_idtr: lim (%d) base(%p)'' @ [CHR 0x0A]))
     [ArgInt (ucast (of_nat (16 * 256 - 1) :: u16)), ArgU64 a]"
  by (simp add: conv_args_def)

definition idt_inv :: "idtd list \<Rightarrow> bool" where
  "idt_inv t \<longleftrightarrow> length t = 256"

text \<open>\<open>init_Idt\<close> never fails on a full table and a real default handler: every
  one of the 256 gates ends up as the default gate.\<close>

lemma init_Idt_eq:
  assumes "idt_inv (s_Idtd s)" and "dflt \<noteq> 0"
  shows "\<exists>c'. init_Idt table dflt s c =
     Some (s\<lparr>s_Idtr := \<lparr>limit = 4095, base = table\<rparr>, s_Idtd := replicate 256 (gate_for 0x8E dflt),
              loaded_idtr := Some \<lparr>limit = 4095, base = table\<rparr>\<rparr>, c')"
proof -
  obtain c' where k: "kprintf (bytes (''s_idtr: lim (%d) base(%p)'' @ [CHR 0x0A]))
      [ArgInt (ucast (of_nat (16 * 256 - 1) :: u16)), ArgU64 table] c = Some c'"
    using kprintf_total [OF init_format_ok] by blast
  have len: "length (table_bytes (s_Idtd s)) = 4096" using assms(1) by (simp add: idt_inv_def)
  then obtain bs where m: "kmemset (table_bytes (s_Idtd s)) 0 (of_nat (16 * 256 - 1)) = Some bs"
    using kmemset_eq [of "of_nat (16 * 256 - 1)" "table_bytes (s_Idtd s)" 0] by simp
  then have "length bs = 4096" using kmemset_length len by simp
  then have l: "for_list (\<lambda>i t. set_interrupt_service_routine (of_nat i) 0x8E dflt t) [0..<256] (table_of_bytes bs)
      = Some (replicate 256 (gate_for 0x8E dflt))"
    using install_loop [OF assms(2), of 256 "table_of_bytes bs" "0x8E"] by simp
  show ?thesis
    unfolding init_Idt_def Let_def using k m l by simp
qed


section \<open>Properties\<close>

text \<open>C23: Installing a gate. On a 256-entry table, installing a non-null handler at
  a vector below 256 succeeds, and in the table's memory image the 16 bytes of that
  vector then encode, as the processor reads them, exactly the handler's 64-bit
  address, kernel selector 8 and the given type; every other vector's 16 bytes are
  unchanged.\<close>

theorem install_encodes_handler:
  assumes "idt_inv t" and "n < 256" and "addr \<noteq> 0"
  shows "\<exists>t'. set_interrupt_service_routine n gtype addr t = Some t' \<and> idt_inv t'
     \<and> gate_address (take 16 (drop (16 * unat n) (table_bytes t'))) = addr
     \<and> selector (t' ! unat n) = 8 \<and> gate_type (t' ! unat n) = gtype
     \<and> (\<forall>i < 256. i \<noteq> unat n \<longrightarrow>
          take 16 (drop (16 * i) (table_bytes t')) = take 16 (drop (16 * i) (table_bytes t)))"
proof -
  have n: "unat n < 256" using assms(2) by (simp add: word_less_nat_alt)
  let ?t = "t[unat n := gate_for gtype addr]"
  have "set_interrupt_service_routine n gtype addr t = Some ?t"
    using assms n by (simp add: set_interrupt_service_routine_eq idt_inv_def word_less_nat_alt)
  then show ?thesis
    using assms(1) n by (simp add: idt_inv_def table_bytes_gate gate_address_gate_for)
qed

theorem install_encodes_handler_witness:
  "\<exists>t'. set_interrupt_service_routine 33 0x8E 0xffffffff80201234 (replicate 256 (gate_for 0x8E 1)) = Some t'
     \<and> gate_address (take 16 (drop (16 * unat (33 :: u32)) (table_bytes t'))) = 0xffffffff80201234"
proof -
  have "idt_inv (replicate 256 (gate_for 0x8E 1))" by (simp add: idt_inv_def)
  from install_encodes_handler [OF this, of 33 "0xffffffff80201234" "0x8E"] show ?thesis by force
qed

text \<open>C25: The vector guard is off by one. The guard refuses vectors above 256, not
  above 255: for vector 256 it lets the store past the last gate through (undefined
  behaviour on the 256-entry table), although the lookup of the same vector
  correctly answers the null pointer.\<close>

theorem install_vector_256_out_of_bounds:
  assumes "idt_inv t" and "addr \<noteq> 0"
  shows "set_interrupt_service_routine 256 gtype addr t = None \<and> get_interrupt_service_routine 256 = None
     \<and> (\<forall>n. 256 < n \<longrightarrow> set_interrupt_service_routine n gtype addr t = Some t)"
  using assms by (simp add: set_interrupt_service_routine_eq idt_inv_def get_interrupt_service_routine_def)

theorem install_vector_256_out_of_bounds_witness:
  "set_interrupt_service_routine 256 0x8E 1 (replicate 256 (gate_for 0x8E 1)) = None"
  using install_vector_256_out_of_bounds [of "replicate 256 (gate_for 0x8E 1)" 1 "0x8E"]
  by (simp add: idt_inv_def)

text \<open>Initialisation. From any previous contents of the 256 gates, \<open>init_Idt\<close>
  returns (it never faults, its message prints) with every gate pointing at the
  default handler with type 0x8E, and the IDT register loaded with the table's
  address and the limit 4095, one less than the 4096 bytes of the table.\<close>

theorem init_Idt_installs_default_everywhere:
  assumes "idt_inv (s_Idtd s)" and "dflt \<noteq> 0"
  shows "\<exists>s' c'. init_Idt table dflt s c = Some (s', c') \<and> idt_inv (s_Idtd s')
     \<and> (\<forall>i < 256. gate_address (take 16 (drop (16 * i) (table_bytes (s_Idtd s')))) = dflt
            \<and> gate_type (s_Idtd s' ! i) = 0x8E)
     \<and> loaded_idtr s' = Some \<lparr>limit = 4095, base = table\<rparr>
     \<and> length (table_bytes (s_Idtd s')) = unat (limit (s_Idtr s')) + 1
     \<and> interrupt_flag s' = interrupt_flag s"
  using init_Idt_eq [OF assms, of table c]
  by (auto simp: idt_inv_def table_bytes_gate gate_address_gate_for)

definition empty_idt :: idt_state where
  "empty_idt = \<lparr>s_Idtr = \<lparr>limit = 0, base = 0\<rparr>,
     s_Idtd = replicate 256 \<lparr>offset_1 = 0, selector = 0, ist = 0, gate_type = 0, offset_2 = 0,
                offset_3 = 0, gate_zero = 0\<rparr>,
     loaded_idtr = None, interrupt_flag = False\<rparr>"

theorem init_Idt_installs_default_everywhere_witness:
  "\<exists>s' c'. init_Idt 0xffffffff80300000 0xffffffff80201000 empty_idt start_console = Some (s', c')
     \<and> gate_address (take 16 (drop (16 * 14) (table_bytes (s_Idtd s')))) = 0xffffffff80201000"
proof -
  have inv: "idt_inv (s_Idtd empty_idt)" by (simp add: empty_idt_def idt_inv_def)
  obtain s' c' where "init_Idt 0xffffffff80300000 0xffffffff80201000 empty_idt start_console = Some (s', c')"
    and "\<forall>i < 256. gate_address (take 16 (drop (16 * i) (table_bytes (s_Idtd s')))) = 0xffffffff80201000
            \<and> gate_type (s_Idtd s' ! i) = 0x8E"
    using init_Idt_installs_default_everywhere [OF inv, of "0xffffffff80201000"
        "0xffffffff80300000" start_console] by auto
  moreover have "(14 :: nat) < 256" by simp
  ultimately show ?thesis by blast
qed

end
