(* ===== verification/PortIO.thy ===== *)
theory PortIO
  imports Prelude
begin

text \<open>
  Port input and output: the inline-assembly wrappers of sys/pic.c (bytes) and
  sys/pci.c (32-bit). The processor's \<open>in\<close> and \<open>out\<close> instructions are recorded
  in the order they execute; what a device answers to an \<open>in\<close> is the parameter
  \<open>device\<close>, a function of everything that happened on the bus before it.
\<close>

datatype io_event =
    In8 u16 u8
  | Out8 u16 u8
  | In32 u16 u32
  | Out32 u16 u32

type_synonym io_log = "io_event list"

record device =
  read8 :: "io_log \<Rightarrow> u16 \<Rightarrow> u8"
  read32 :: "io_log \<Rightarrow> u16 \<Rightarrow> u32"

definition inportb :: "device \<Rightarrow> u16 \<Rightarrow> io_log \<Rightarrow> u8 \<times> io_log" where
  "inportb dev port log = (let ret = read8 dev log port in (ret, log @ [In8 port ret]))"

definition outportb :: "u16 \<Rightarrow> u8 \<Rightarrow> io_log \<Rightarrow> io_log" where
  "outportb port val log = log @ [Out8 port val]"

definition io_wait :: "io_log \<Rightarrow> io_log" where
  "io_wait log = outportb 0x80 0 log"

definition inportl :: "device \<Rightarrow> u16 \<Rightarrow> io_log \<Rightarrow> u32 \<times> io_log" where
  "inportl dev port log = (let ret = read32 dev log port in (ret, log @ [In32 port ret]))"

definition outportl :: "u16 \<Rightarrow> u32 \<Rightarrow> io_log \<Rightarrow> io_log" where
  "outportl port value log = log @ [Out32 port value]"

text \<open>The bytes written to one port, in order.\<close>

fun written :: "u16 \<Rightarrow> io_log \<Rightarrow> u8 list" where
  "written p [] = []"
| "written p (Out8 q v # log) = (if p = q then v # written p log else written p log)"
| "written p (_ # log) = written p log"

lemma written_append [simp]: "written p (xs @ ys) = written p xs @ written p ys"
  by (induction p xs rule: written.induct) auto

lemma written_outportb [simp]:
  "written p (outportb q v log) = written p log @ (if p = q then [v] else [])"
  by (simp add: outportb_def)

lemma written_io_wait [simp]: "p \<noteq> 0x80 \<Longrightarrow> written p (io_wait log) = written p log"
  by (simp add: io_wait_def)

lemma written_inportb [simp]: "written p (snd (inportb dev q log)) = written p log"
  by (simp add: inportb_def Let_def)

end
