(* ===== verification/HandlerTable.thy ===== *)
theory HandlerTable
  imports Prelude
begin

text \<open>
  The interface the device drivers rely on: a table of interrupt handlers that can
  be installed by vector and looked up again. The laws are those of a partial
  store: an installed handler is the one found, and other vectors keep theirs.
\<close>

locale handler_table =
  fixes install :: "'v \<Rightarrow> 'h \<Rightarrow> 't \<Rightarrow> 't option"
    and handler :: "'v \<Rightarrow> 't \<Rightarrow> 'h"
    and wf :: "'t \<Rightarrow> bool"
    and vector :: "'v \<Rightarrow> bool"
    and code :: "'h \<Rightarrow> bool"
  assumes install_defined: "wf t \<Longrightarrow> vector v \<Longrightarrow> code h \<Longrightarrow> \<exists>t'. install v h t = Some t'"
    and install_wf: "wf t \<Longrightarrow> vector v \<Longrightarrow> code h \<Longrightarrow> install v h t = Some t' \<Longrightarrow> wf t'"
    and install_same: "wf t \<Longrightarrow> vector v \<Longrightarrow> code h \<Longrightarrow> install v h t = Some t' \<Longrightarrow> handler v t' = h"
    and install_other: "wf t \<Longrightarrow> vector v \<Longrightarrow> code h \<Longrightarrow> install v h t = Some t' \<Longrightarrow>
      vector w \<Longrightarrow> w \<noteq> v \<Longrightarrow> handler w t' = handler w t"
begin

text \<open>Installing drivers one after the other.\<close>

lemma install_all_defined:
  assumes "wf t" and ok: "\<forall>(v, h) \<in> set vhs. vector v \<and> code h"
  shows "\<exists>t'. for_list (\<lambda>(v, h). install v h) vhs t = Some t' \<and> wf t'"
proof (rule for_list_total [where I = wf])
  fix vh t assume "vh \<in> set vhs" and t: "wf t"
  then obtain v h where vh: "vh = (v, h)" "vector v" "code h" using ok by fastforce
  then obtain t' where "install v h t = Some t'" using install_defined t by blast
  then show "\<exists>t'. (\<lambda>(v, h). install v h) vh t = Some t' \<and> wf t'"
    using vh t install_wf by auto
qed (rule assms(1))

lemma install_all_other:
  assumes "wf t" and "\<forall>(v, h) \<in> set vhs. vector v \<and> code h"
    and "for_list (\<lambda>(v, h). install v h) vhs t = Some t'"
    and "vector w" and "w \<notin> fst ` set vhs"
  shows "handler w t' = handler w t"
  using assms
proof (induction vhs arbitrary: t)
  case Nil
  then show ?case by simp
next
  case (Cons vh vhs)
  obtain v h where vh: "vh = (v, h)" by fastforce
  from Cons.prems(3) vh obtain t1 where t1: "install v h t = Some t1"
    and rest: "for_list (\<lambda>(v, h). install v h) vhs t1 = Some t'"
    by (auto simp: bind_eq_Some_conv)
  have v: "vector v" "code h" using Cons.prems(2) vh by auto
  have "wf t1" using install_wf [OF Cons.prems(1) v t1] .
  moreover have "\<forall>(v, h) \<in> set vhs. vector v \<and> code h" using Cons.prems(2) by simp
  ultimately have "handler w t' = handler w t1"
    using Cons.IH rest Cons.prems(4,5) by simp
  then show ?case
    using install_other [OF Cons.prems(1) v t1 Cons.prems(4)] Cons.prems(5) vh by simp
qed

text \<open>Drivers at distinct vectors do not disturb each other.\<close>

lemma install_all_found:
  assumes "wf t" and "\<forall>(v, h) \<in> set vhs. vector v \<and> code h" and "distinct (map fst vhs)"
    and "for_list (\<lambda>(v, h). install v h) vhs t = Some t'" and "(v, h) \<in> set vhs"
  shows "handler v t' = h"
  using assms
proof (induction vhs arbitrary: t)
  case Nil
  then show ?case by simp
next
  case (Cons vh vhs)
  obtain u k where vh: "vh = (u, k)" by fastforce
  from Cons.prems(4) vh obtain t1 where t1: "install u k t = Some t1"
    and rest: "for_list (\<lambda>(v, h). install v h) vhs t1 = Some t'"
    by (auto simp: bind_eq_Some_conv)
  have u: "vector u" "code k" using Cons.prems(2) vh by auto
  have wf1: "wf t1" using install_wf [OF Cons.prems(1) u t1] .
  have ok: "\<forall>(v, h) \<in> set vhs. vector v \<and> code h" using Cons.prems(2) by simp
  show ?case
  proof (cases "(v, h) = vh")
    case True
    then have "handler v t1 = h" using install_same [OF Cons.prems(1) u t1] vh by simp
    moreover have "v \<notin> fst ` set vhs" using Cons.prems(3) True vh by auto
    ultimately show ?thesis
      using install_all_other [OF wf1 ok rest] u(1) True vh by auto
  next
    case False
    then show ?thesis using Cons.IH [OF wf1 ok] Cons.prems(3,5) rest by simp
  qed
qed

end

end
