(* ===== verification/Pic.thy ===== *)
theory Pic
  imports PortIO Idt HandlerTable
begin

text \<open>
  The two cascaded 8259 interrupt controllers of sys/pic.c as port traffic: the
  guarded data and command accessors, the initialisation sequence, the in-service
  and request registers, end of interrupt, and the driver-level handler functions
  \<open>set_ir_in_idt\<close> and \<open>get_ir_from_idt\<close>, which implement the handler-table
  interface on the descriptor table.
\<close>

section \<open>Constants\<close>

abbreviation (input) MASTER_PIC_ID :: u8 where "MASTER_PIC_ID \<equiv> 0"
abbreviation (input) SLAVE_PIC_ID :: u8 where "SLAVE_PIC_ID \<equiv> 1"
abbreviation (input) MASTER_PIC_COMMAND :: u8 where "MASTER_PIC_COMMAND \<equiv> 0x20"
abbreviation (input) MASTER_PIC_DATA :: u8 where "MASTER_PIC_DATA \<equiv> 0x21"
abbreviation (input) SLAVE_PIC_COMMAND :: u8 where "SLAVE_PIC_COMMAND \<equiv> 0xA0"
abbreviation (input) SLAVE_PIC_DATA :: u8 where "SLAVE_PIC_DATA \<equiv> 0xA1"
abbreviation (input) PIC_ICW1_MASK_ICW4 :: u8 where "PIC_ICW1_MASK_ICW4 \<equiv> 0x01"
abbreviation (input) PIC_ICW1_MASK_INIT :: u8 where "PIC_ICW1_MASK_INIT \<equiv> 0x10"
abbreviation (input) PIC_ICW4_MASK_8086 :: u8 where "PIC_ICW4_MASK_8086 \<equiv> 0x01"
abbreviation (input) PIC_OCW3_ISR :: u8 where "PIC_OCW3_ISR \<equiv> 0x0a"
abbreviation (input) PIC_OCW3_IRR :: u8 where "PIC_OCW3_IRR \<equiv> 0x0b"
abbreviation (input) PIC_EOI :: u8 where "PIC_EOI \<equiv> 0x20"

section \<open>Register access\<close>

definition write_data_to_pic :: "u8 \<Rightarrow> u8 \<Rightarrow> io_log \<Rightarrow> io_log" where
  "write_data_to_pic data picNum log =
     (if picNum = MASTER_PIC_ID then outportb (ucast MASTER_PIC_DATA) data log
      else if picNum = SLAVE_PIC_ID then outportb (ucast SLAVE_PIC_DATA) data log
      else log)"

definition write_command_word_to_pic :: "u8 \<Rightarrow> u8 \<Rightarrow> io_log \<Rightarrow> io_log" where
  "write_command_word_to_pic cmd picNum log =
     (if picNum = MASTER_PIC_ID then outportb (ucast MASTER_PIC_COMMAND) cmd log
      else if picNum = SLAVE_PIC_ID then outportb (ucast SLAVE_PIC_COMMAND) cmd log
      else log)"

definition read_data_from_pic :: "device \<Rightarrow> u8 \<Rightarrow> io_log \<Rightarrow> u8 \<times> io_log" where
  "read_data_from_pic dev picNum log =
     (if picNum = MASTER_PIC_ID then inportb dev (ucast MASTER_PIC_DATA) log
      else if picNum = SLAVE_PIC_ID then inportb dev (ucast SLAVE_PIC_DATA) log
      else (0, log))"

definition read_command_word_from_pic :: "device \<Rightarrow> u8 \<Rightarrow> io_log \<Rightarrow> u8 \<times> io_log" where
  "read_command_word_from_pic dev picNum log =
     (if picNum = MASTER_PIC_ID then inportb dev (ucast MASTER_PIC_COMMAND) log
      else if picNum = SLAVE_PIC_ID then inportb dev (ucast SLAVE_PIC_COMMAND) log
      else (0, log))"

section \<open>Initialisation and service registers\<close>

definition init_pic :: "device \<Rightarrow> u8 \<Rightarrow> u8 \<Rightarrow> io_log \<Rightarrow> io_log" where
  "init_pic dev offset1 offset2 log =
     (let (master_pic_data, log) = read_data_from_pic dev MASTER_PIC_ID log;
          (slave_pic_data, log) = read_data_from_pic dev SLAVE_PIC_ID log;
          log = write_command_word_to_pic (PIC_ICW1_MASK_INIT OR PIC_ICW1_MASK_ICW4) MASTER_PIC_ID log;
          log = io_wait log;
          log = write_command_word_to_pic (PIC_ICW1_MASK_INIT OR PIC_ICW1_MASK_ICW4) SLAVE_PIC_ID log;
          log = io_wait log;
          log = write_data_to_pic offset1 MASTER_PIC_ID log;
          log = io_wait log;
          log = write_data_to_pic offset2 SLAVE_PIC_ID log;
          log = io_wait log;
          log = write_data_to_pic 0x04 MASTER_PIC_ID log;
          log = io_wait log;
          log = write_data_to_pic 0x02 SLAVE_PIC_ID log;
          log = io_wait log;
          log = write_data_to_pic PIC_ICW4_MASK_8086 MASTER_PIC_ID log;
          log = io_wait log;
          log = write_data_to_pic PIC_ICW4_MASK_8086 SLAVE_PIC_ID log;
          log = io_wait log;
          log = write_data_to_pic master_pic_data MASTER_PIC_ID log;
          log = io_wait log;
          log = write_data_to_pic slave_pic_data SLAVE_PIC_ID log
      in io_wait log)"

definition get_pic_isr :: "device \<Rightarrow> io_log \<Rightarrow> u16 \<times> io_log" where
  "get_pic_isr dev log =
     (let log = write_command_word_to_pic PIC_OCW3_ISR MASTER_PIC_ID log;
          log = write_command_word_to_pic PIC_OCW3_ISR SLAVE_PIC_ID log;
          (m, log) = read_command_word_from_pic dev MASTER_PIC_ID log;
          (s, log) = read_command_word_from_pic dev SLAVE_PIC_ID log
      in (push_bit 8 (ucast m) OR ucast s, log))"

definition get_pic_irr :: "device \<Rightarrow> io_log \<Rightarrow> u16 \<times> io_log" where
  "get_pic_irr dev log =
     (let log = write_command_word_to_pic PIC_OCW3_IRR MASTER_PIC_ID log;
          log = write_command_word_to_pic PIC_OCW3_IRR SLAVE_PIC_ID log;
          (m, log) = read_command_word_from_pic dev MASTER_PIC_ID log;
          (s, log) = read_command_word_from_pic dev SLAVE_PIC_ID log
      in (push_bit 8 (ucast m) OR ucast s, log))"

definition end_of_interrupt :: "u8 \<Rightarrow> io_log \<Rightarrow> io_log" where
  "end_of_interrupt interruptNum log =
     (if 15 < interruptNum then log
      else
        let log = (if 8 \<le> interruptNum then write_command_word_to_pic PIC_EOI SLAVE_PIC_ID log else log)
        in write_command_word_to_pic PIC_EOI MASTER_PIC_ID log)"

section \<open>Handlers by vector\<close>

text \<open>A null handler is the address 0. The lookup reads the gate record through
  the pointer \<open>get_interrupt_service_routine\<close> returns.\<close>

definition get_ir_from_idt :: "u16 \<Rightarrow> idtd list \<Rightarrow> u64" where
  "get_ir_from_idt interrupt_num t =
     (if 256 \<le> interrupt_num then 0
      else (case get_interrupt_service_routine (ucast interrupt_num) of
         None \<Rightarrow> 0
       | Some i \<Rightarrow>
           let offset1 = offset_1 (t ! i);
               offset2 = offset_2 (t ! i);
               offset3 = offset_3 (t ! i)
           in push_bit 32 (ucast offset3) OR ucast (push_bit 16 (ucast offset2 :: u32)) OR ucast offset1))"

definition set_ir_in_idt :: "u16 \<Rightarrow> u64 \<Rightarrow> idtd list \<Rightarrow> idtd list option" where
  "set_ir_in_idt interrupt_num interrupt_service_routine t =
     (if 256 \<le> interrupt_num then Some t
      else set_interrupt_service_routine (ucast interrupt_num) INTERRUPT_GATE_TYPE_ATTR
             interrupt_service_routine t)"

section \<open>The handler-table laws\<close>

lemma get_ir_gate_for:
  "push_bit 32 (ucast (offset_3 (gate_for gtype addr))) OR
   ucast (push_bit 16 (ucast (offset_2 (gate_for gtype addr)) :: u32)) OR
   ucast (offset_1 (gate_for gtype addr)) = addr"
proof (rule bit_word_eqI)
  fix n assume "n < LENGTH(64)"
  then show "bit (push_bit 32 (ucast (offset_3 (gate_for gtype addr))) OR
     ucast (push_bit 16 (ucast (offset_2 (gate_for gtype addr)) :: u32)) OR
     ucast (offset_1 (gate_for gtype addr)) :: u64) n = bit addr n"
    by (cases "n < 32") (auto simp: gate_for_def bit_simps not_less)
qed

lemma unat_vector [simp]: "unat (ucast (v :: u16) :: u32) = unat v"
  by (simp add: unat_ucast_up)

lemma vector_less: "(v :: u16) < 256 \<longleftrightarrow> unat v < 256" "(256 :: u16) \<le> v \<longleftrightarrow> 256 \<le> unat v"
  by (simp_all add: word_less_nat_alt word_le_nat_alt)

lemma set_ir_in_idt_eq:
  assumes "idt_inv t" and "v < 256" and "h \<noteq> 0"
  shows "set_ir_in_idt v h t = Some (t[unat v := gate_for 0x8E h])"
  using assms
  by (auto simp: set_ir_in_idt_def set_interrupt_service_routine_eq vector_less idt_inv_def
      word_less_nat_alt)

lemma get_ir_from_idt_eq:
  assumes "v < 256"
  shows "get_ir_from_idt v t =
    push_bit 32 (ucast (offset_3 (t ! unat v))) OR
    ucast (push_bit 16 (ucast (offset_2 (t ! unat v)) :: u32)) OR ucast (offset_1 (t ! unat v))"
  using assms
  by (auto simp: get_ir_from_idt_def get_interrupt_service_routine_def vector_less
      word_less_nat_alt Let_def)

interpretation idt_handlers: handler_table set_ir_in_idt get_ir_from_idt idt_inv "\<lambda>v. v < 256" "\<lambda>h. h \<noteq> 0"
proof unfold_locales
  fix t :: "idtd list" and t' v w h
  assume t: "idt_inv t" and v: "v < (256 :: u16)" and h: "h \<noteq> (0 :: u64)"
  show "\<exists>t'. set_ir_in_idt v h t = Some t'"
    using set_ir_in_idt_eq [OF t v h] by blast
  assume "set_ir_in_idt v h t = Some t'"
  then have t': "t' = t[unat v := gate_for 0x8E h]" using set_ir_in_idt_eq [OF t v h] by simp
  show "idt_inv t'" using t by (simp add: t' idt_inv_def)
  show "get_ir_from_idt v t' = h"
    using t v by (simp add: t' get_ir_from_idt_eq idt_inv_def vector_less get_ir_gate_for)
  assume "w < (256 :: u16)" and "w \<noteq> v"
  moreover from this have "unat v \<noteq> unat w" using unsigned_word_eqI by blast
  ultimately show "get_ir_from_idt w t' = get_ir_from_idt w t"
    by (simp add: t' get_ir_from_idt_eq)
qed


section \<open>Port traffic\<close>

lemmas pic_access = write_data_to_pic_def write_command_word_to_pic_def
  read_data_from_pic_def read_command_word_from_pic_def

text \<open>Every write to a controller is followed at once by the dummy write to port
  0x80 that gives the controller time to settle.\<close>

definition pic_port :: "u16 \<Rightarrow> bool" where
  "pic_port p \<longleftrightarrow> p = 0x20 \<or> p = 0x21 \<or> p = 0xA0 \<or> p = 0xA1"

fun paced :: "io_log \<Rightarrow> bool" where
  "paced [] = True"
| "paced (Out8 p v # log) =
     (if pic_port p then (case log of Out8 q w # _ \<Rightarrow> q = 0x80 | _ \<Rightarrow> False) \<and> paced log else paced log)"
| "paced (_ # log) = paced log"

lemma init_pic_trace:
  "\<exists>m s. m = read8 dev log 0x21 \<and> s = read8 dev (log @ [In8 0x21 m]) 0xA1 \<and>
     init_pic dev offset1 offset2 log = log @
       [In8 0x21 m, In8 0xA1 s,
        Out8 0x20 0x11, Out8 0x80 0, Out8 0xA0 0x11, Out8 0x80 0,
        Out8 0x21 offset1, Out8 0x80 0, Out8 0xA1 offset2, Out8 0x80 0,
        Out8 0x21 0x04, Out8 0x80 0, Out8 0xA1 0x02, Out8 0x80 0,
        Out8 0x21 0x01, Out8 0x80 0, Out8 0xA1 0x01, Out8 0x80 0,
        Out8 0x21 m, Out8 0x80 0, Out8 0xA1 s, Out8 0x80 0]"
  by (simp add: init_pic_def pic_access inportb_def outportb_def io_wait_def Let_def)

section \<open>Properties\<close>

text \<open>Initialisation of the controllers. Whatever the devices answer,
  \<open>init_pic\<close> first reads both interrupt masks, then sends each controller one
  initialisation command (0x11) and to its data port, in this order, its vector
  offset, its cascade wiring (4 for the master, 2 for the slave), 8086 mode and the
  mask that was read from it; every one of these writes is paced by a dummy write.\<close>

theorem init_pic_sequence:
  "\<exists>m s traffic. init_pic dev offset1 offset2 log = log @ traffic
     \<and> m = read8 dev log 0x21 \<and> s = read8 dev (log @ [In8 0x21 m]) 0xA1
     \<and> take 2 traffic = [In8 0x21 m, In8 0xA1 s]
     \<and> written 0x20 traffic = [0x11] \<and> written 0xA0 traffic = [0x11]
     \<and> written 0x21 traffic = [offset1, 0x04, 0x01, m]
     \<and> written 0xA1 traffic = [offset2, 0x02, 0x01, s]
     \<and> paced traffic"
  using init_pic_trace [of dev log offset1 offset2]
  by (auto simp: pic_port_def)

text \<open>End of interrupt. For a master line (0 to 7) the command 0x20 goes to the
  master only; for a slave line (8 to 15) it goes to the slave and then to the
  master; for any other number no port is touched.\<close>

theorem end_of_interrupt_targets:
  "end_of_interrupt n log = log @
     (if n < 8 then [Out8 0x20 0x20]
      else if n < 16 then [Out8 0xA0 0x20, Out8 0x20 0x20] else [])"
  by (auto simp: end_of_interrupt_def pic_access outportb_def Let_def word_less_nat_alt word_le_nat_alt)

text \<open>The service registers. \<open>get_pic_isr\<close> and \<open>get_pic_irr\<close> send their
  OCW3 (0x0a, 0x0b) to both controllers before reading, and return the byte read
  from the master as the high byte and the byte read from the slave as the low byte.\<close>

theorem service_registers_combine:
  fixes dev :: device and log :: io_log
  defines "ask cmd \<equiv> log @ [Out8 0x20 cmd, Out8 0xA0 cmd]"
  defines "m cmd \<equiv> read8 dev (ask cmd) 0x20"
  defines "s cmd \<equiv> read8 dev (ask cmd @ [In8 0x20 (m cmd)]) 0xA0"
  shows "snd (get_pic_isr dev log) = ask 0x0a @ [In8 0x20 (m 0x0a), In8 0xA0 (s 0x0a)]
     \<and> ucast (drop_bit 8 (fst (get_pic_isr dev log))) = m 0x0a \<and> ucast (fst (get_pic_isr dev log)) = s 0x0a
     \<and> snd (get_pic_irr dev log) = ask 0x0b @ [In8 0x20 (m 0x0b), In8 0xA0 (s 0x0b)]
     \<and> ucast (drop_bit 8 (fst (get_pic_irr dev log))) = m 0x0b \<and> ucast (fst (get_pic_irr dev log)) = s 0x0b"
proof -
  have hi: "ucast (drop_bit 8 (push_bit 8 (ucast a) OR ucast b :: u16)) = a" for a b :: u8
    by (rule bit_word_eqI) (auto simp: bit_simps dest: bit_imp_le_length)
  have lo: "ucast (push_bit 8 (ucast a) OR ucast b :: u16) = b" for a b :: u8
    by (rule bit_word_eqI) (auto simp: bit_simps dest: bit_imp_le_length)
  show ?thesis
    by (simp add: get_pic_isr_def get_pic_irr_def pic_access inportb_def outportb_def Let_def
        ask_def m_def s_def hi [simplified] lo [simplified])
qed

text \<open>C26: Drivers do not disturb each other. Installing any list of non-null
  handlers at pairwise distinct vectors below 256 through \<open>set_ir_in_idt\<close> succeeds;
  afterwards \<open>get_ir_from_idt\<close> returns each of them at its vector, and at every
  other vector what it returned before.\<close>

theorem installed_handlers_are_found:
  assumes "idt_inv t" and "\<forall>(v, h) \<in> set vhs. v < 256 \<and> h \<noteq> 0" and "distinct (map fst vhs)"
  shows "\<exists>t'. for_list (\<lambda>(v, h). set_ir_in_idt v h) vhs t = Some t' \<and> idt_inv t'
     \<and> (\<forall>(v, h) \<in> set vhs. get_ir_from_idt v t' = h)
     \<and> (\<forall>w < 256. w \<notin> fst ` set vhs \<longrightarrow> get_ir_from_idt w t' = get_ir_from_idt w t)"
proof -
  obtain t' where t': "for_list (\<lambda>(v, h). set_ir_in_idt v h) vhs t = Some t'" "idt_inv t'"
    using idt_handlers.install_all_defined [OF assms(1,2)] by blast
  then show ?thesis
    using idt_handlers.install_all_found [OF assms t'(1)]
      idt_handlers.install_all_other [OF assms(1,2) t'(1)] by auto
qed

theorem installed_handlers_are_found_witness:
  "\<exists>t'. for_list (\<lambda>(v, h). set_ir_in_idt v h) [(32, 0x1000), (33, 0x2000)] (s_Idtd empty_idt) = Some t'
     \<and> get_ir_from_idt 32 t' = 0x1000 \<and> get_ir_from_idt 33 t' = 0x2000"
  using installed_handlers_are_found [of "s_Idtd empty_idt" "[(32, 0x1000), (33, 0x2000)]"]
  by (auto simp: idt_inv_def empty_idt_def)

end
