(* ===== verification/Pit.thy ===== *)
theory Pit
  imports Pic
begin

text \<open>
  The interval timer of sys/pit.c: programming channel 0, and the tick handler that
  counts interrupts, advances the displayed time and acknowledges the interrupt.
  \<open>g_pit_count\<close> is a 32-bit counter that wraps, \<open>time_in_sec\<close> a 64-bit one.
\<close>

record pit =
  g_pit_count :: u32
  time_in_sec :: u64

definition pit_start :: pit where
  "pit_start = \<lparr>g_pit_count = 0, time_in_sec = 1\<rparr>"

abbreviation (input) PIT_CHANNEL_0 :: u16 where "PIT_CHANNEL_0 \<equiv> 0x40"
abbreviation (input) PIT_COMMAND :: u16 where "PIT_COMMAND \<equiv> 0x43"
abbreviation (input) PIT_SQUARE_WAVE_COMMAND_VALUE :: u8 where "PIT_SQUARE_WAVE_COMMAND_VALUE \<equiv> 0x34"

definition get_pit_count :: "pit \<Rightarrow> u32" where
  "get_pit_count p = g_pit_count p"

definition helper_calculate_timer :: "pit \<times> console \<times> io_log \<Rightarrow> pit \<times> console \<times> io_log" where
  "helper_calculate_timer s =
     (case s of (p, c, log) \<Rightarrow>
        let p = p\<lparr>g_pit_count := g_pit_count p + 1\<rparr>;
            (p, c) = (if g_pit_count p mod 35 = 0 then
                        let p = p\<lparr>time_in_sec := time_in_sec p + 1\<rparr>
                        in (p, printTime (ucast (time_in_sec p div 100)) c)
                      else (p, c))
        in (p, c, outportb 0x20 0x20 log))"

text \<open>The divisor of 1193181 Hz by 4000 is sent low byte first; the table of
  handlers gets the timer's entry stub, whose address is a parameter.\<close>

definition init_pit :: "u64 \<Rightarrow> idtd list \<Rightarrow> pit \<Rightarrow> io_log \<Rightarrow> (idtd list \<times> pit \<times> io_log) option" where
  "init_pit pit_interrupt_service_routine t p log = do {
     t1 \<leftarrow> set_ir_in_idt 32 pit_interrupt_service_routine t;
     let base_frequency = (4000 :: u16);
     let max_frequency = (1193181 :: u64);
     let frequency = (ucast (max_frequency div ucast base_frequency) :: u16);
     let log = outportb PIT_COMMAND PIT_SQUARE_WAVE_COMMAND_VALUE log;
     let log = outportb PIT_CHANNEL_0 (ucast frequency) log;
     let log = outportb PIT_CHANNEL_0 (ucast (drop_bit 8 frequency)) log;
     Some (t1, p\<lparr>g_pit_count := 0\<rparr>, log)
   }"

section \<open>Ticks\<close>

lemma tick_pit:
  "fst (helper_calculate_timer (p, c, log)) =
     p\<lparr>g_pit_count := g_pit_count p + 1,
       time_in_sec := time_in_sec p + (if (g_pit_count p + 1) mod 35 = 0 then 1 else 0)\<rparr>"
  by (simp add: helper_calculate_timer_def Let_def)

lemma tick_log: "snd (snd (helper_calculate_timer (p, c, log))) = log @ [Out8 0x20 0x20]"
  by (simp add: helper_calculate_timer_def Let_def outportb_def)

text \<open>\<open>n\<close> timer interrupts.\<close>

definition ticks :: "nat \<Rightarrow> pit \<times> console \<times> io_log \<Rightarrow> pit \<times> console \<times> io_log" where
  "ticks n = helper_calculate_timer ^^ n"

lemma ticks_0 [simp]: "ticks 0 s = s"
  by (simp add: ticks_def)

lemma ticks_Suc [simp]: "ticks (Suc n) s = helper_calculate_timer (ticks n s)"
  by (simp add: ticks_def)

lemma ticks_pit:
  assumes "n < 2 ^ 32" and "g_pit_count p = 0"
  shows "unat (g_pit_count (fst (ticks n (p, c, log)))) = n
     \<and> time_in_sec (fst (ticks n (p, c, log))) = time_in_sec p + of_nat (n div 35)"
  using assms(1)
proof (induction n)
  case 0
  then show ?case using assms(2) by simp
next
  case (Suc n)
  obtain q d l where t: "ticks n (p, c, log) = (q, d, l)" by (cases "ticks n (p, c, log)") auto
  have IH: "unat (g_pit_count q) = n" "time_in_sec q = time_in_sec p + of_nat (n div 35)"
    using Suc t by simp_all
  have cnt: "unat (g_pit_count q + 1) = Suc n"
    using IH(1) Suc.prems by (simp add: unat_word_ariths)
  have "(g_pit_count q + 1) mod 35 = 0 \<longleftrightarrow> Suc n mod 35 = 0"
    using unat_mod [of "g_pit_count q + 1" 35] cnt unat_0_iff [of "(g_pit_count q + 1) mod 35"] by simp
  then show ?case
    using IH cnt by (simp add: t tick_pit div_Suc)
qed


lemma unat_numeral_100: "unat (100 :: u64) = 100"
  by simp

section \<open>Properties\<close>

text \<open>Counting ticks. After \<open>n\<close> timer interrupts (fewer than \<open>2^32\<close>) from a zero
  counter, the counter holds \<open>n\<close>, the time unit has advanced once per 35 ticks, and
  the log holds exactly one end-of-interrupt command to the master controller per
  tick.\<close>

theorem timer_counts_ticks:
  assumes "n < 2 ^ 32" and "g_pit_count p = 0"
  shows "unat (get_pit_count (fst (ticks n (p, c, log)))) = n
     \<and> time_in_sec (fst (ticks n (p, c, log))) = time_in_sec p + of_nat (n div 35)
     \<and> snd (snd (ticks n (p, c, log))) = log @ replicate n (Out8 0x20 0x20)"
proof -
  have "snd (snd (ticks n (p, c, log))) = log @ replicate n (Out8 0x20 0x20)"
  proof (induction n)
    case 0
    then show ?case by simp
  next
    case (Suc n)
    obtain q d l where t: "ticks n (p, c, log) = (q, d, l)" by (cases "ticks n (p, c, log)") auto
    then show ?case using Suc by (simp add: tick_log replicate_append_same)
  qed
  then show ?thesis using ticks_pit [OF assms] by (simp add: get_pit_count_def)
qed

theorem timer_counts_ticks_witness:
  "unat (get_pit_count (fst (ticks 3500 (pit_start, start_console, [])))) = 3500
   \<and> time_in_sec (fst (ticks 3500 (pit_start, start_console, []))) = 101"
  using timer_counts_ticks [of 3500 pit_start start_console "[]"] by (simp add: pit_start_def)


text \<open>The clock display. At every multiple of 35 ticks (below \<open>2^32\<close>) the clock
  field reads the decimal text of \<open>(n / 35 + 1) / 100\<close> followed by s, so one
  displayed second is 3500 ticks; a tick that is no multiple of 35 leaves the whole
  screen alone, and no tick ever writes outside the 22 bytes of the field.\<close>

theorem timer_displays_time:
  fixes p :: pit and c :: console and log :: io_log and n :: nat
  assumes "Suc n < 2 ^ 32" and "g_pit_count p = 0" and "time_in_sec p = 1"
  defines "before \<equiv> fst (snd (ticks n (p, c, log)))"
  defines "after \<equiv> fst (snd (ticks (Suc n) (p, c, log)))"
  shows "(Suc n mod 35 = 0 \<longrightarrow> (\<exists>k. screen_text (vram after) TIME_ADDRESS k
            = time_text (of_nat ((Suc n div 35 + 1) div 100))))
     \<and> (Suc n mod 35 \<noteq> 0 \<longrightarrow> after = before)
     \<and> (\<forall>x. x < TIME_ADDRESS \<or> TIME_ADDRESS + 22 \<le> x \<longrightarrow> vram after x = vram before x)"
proof -
  obtain q d l where t: "ticks n (p, c, log) = (q, d, l)" by (cases "ticks n (p, c, log)") auto
  have b: "before = d" by (simp add: before_def t)
  note now = ticks_pit [of n p c log] and nxt = ticks_pit [OF assms(1,2), of c log]
  have cnt: "unat (g_pit_count q + 1) = Suc n"
    using nxt t by (simp add: tick_pit)
  have mod: "(g_pit_count q + 1) mod 35 = 0 \<longleftrightarrow> Suc n mod 35 = 0"
    using unat_mod [of "g_pit_count q + 1" 35] cnt unat_0_iff [of "(g_pit_count q + 1) mod 35"] by simp
  define time where "time = (ucast ((time_in_sec q + 1) div 100) :: u32)"
  have a: "after = (if Suc n mod 35 = 0 then printTime time d else d)"
    using mod by (simp add: after_def t helper_calculate_timer_def Let_def time_def)
  have "screen_text (vram (printTime time d)) TIME_ADDRESS (length (time_text time)) = time_text time"
    by (simp add: printTime_cells screen_text_put_cells)
  moreover have "time = of_nat ((Suc n div 35 + 1) div 100)" if "Suc n mod 35 = 0"
  proof -
    have "time_in_sec q + 1 = of_nat (Suc n div 35 + 1)"
      using nxt t that mod assms(3) by (simp add: tick_pit)
    moreover have "unat (of_nat (Suc n div 35 + 1) :: u64) = Suc n div 35 + 1"
      using assms(1) by (intro unat_of_nat_small) simp
    ultimately have "unat ((time_in_sec q + 1) div 100) = (Suc n div 35 + 1) div 100"
      by (metis unat_div unat_numeral_100)
    then show ?thesis
      by (metis time_def of_nat_unat)
  qed
  ultimately show ?thesis
    using printTime_frame [of _ time d] by (auto simp: a b)
qed


theorem timer_displays_time_witness:
  "\<exists>k. screen_text (vram (fst (snd (ticks (Suc 6999) (pit_start, start_console, []))))) TIME_ADDRESS k
     = time_text (of_nat 2)"
  using timer_displays_time [of 6999 pit_start start_console "[]"] by (simp add: pit_start_def)


text \<open>Programming the timer. On a full descriptor table and with a non-null entry
  stub, \<open>init_pit\<close> installs the stub at vector 32 (and nothing else changes in the
  table), sends the mode byte 0x34 to the command port, and then two bytes to
  channel 0 that recombine, low byte first, to the divisor 1193181 / 4000 = 298;
  the tick counter restarts at 0 and the displayed time is kept.\<close>

theorem init_pit_programs_channel_0:
  assumes "idt_inv t" and "stub \<noteq> 0"
  shows "\<exists>t' p' traffic lo hi. init_pit stub t p log = Some (t', p', log @ traffic)
     \<and> get_ir_from_idt 32 t' = stub \<and> idt_inv t'
     \<and> (\<forall>w < 256. w \<noteq> 32 \<longrightarrow> get_ir_from_idt w t' = get_ir_from_idt w t)
     \<and> traffic = [Out8 0x43 0x34, Out8 0x40 lo, Out8 0x40 hi]
     \<and> unat lo + 256 * unat hi = 1193181 div 4000
     \<and> g_pit_count p' = 0 \<and> time_in_sec p' = time_in_sec p"
proof -
  have v: "(32 :: u16) < 256" by simp
  obtain t' where t': "set_ir_in_idt 32 stub t = Some t'"
    using idt_handlers.install_defined [OF assms(1) v assms(2)] by blast
  then show ?thesis
    using idt_handlers.install_wf [OF assms(1) v assms(2) t']
      idt_handlers.install_same [OF assms(1) v assms(2) t']
      idt_handlers.install_other [OF assms(1) v assms(2) t']
    by (simp add: init_pit_def outportb_def Let_def)
qed

theorem init_pit_programs_channel_0_witness:
  "\<exists>t' p' log'. init_pit 0xffffffff80200100 (s_Idtd empty_idt) pit_start [] = Some (t', p', log')
     \<and> get_ir_from_idt 32 t' = 0xffffffff80200100"
proof -
  have "idt_inv (s_Idtd empty_idt)" by (simp add: empty_idt_def idt_inv_def)
  from init_pit_programs_channel_0 [OF this, of "0xffffffff80200100" pit_start "[]"]
  show ?thesis by auto
qed

end
