(* ===== verification/Ps2.thy ===== *)
theory Ps2
  imports Pic
begin

text \<open>
  The keyboard handler of sys/ps2Controller.c: the scan-code table, the shift and
  control flags, and the key display in the status row. One interrupt reads one
  scan code from port 0x60, updates a flag or the display, and acknowledges.
  Characters compared in the C code are signed, hence \<open>sint\<close>.
\<close>

record keyboard =
  uppercase :: u8
  ctrlKey :: u8

definition keyboard_start :: keyboard where
  "keyboard_start = \<lparr>uppercase = 0, ctrlKey = 0\<rparr>"

definition keymap :: "u8 list" where
  "keymap =
     [0, 0] @ bytes ''1234567890-='' @ [8, 9] @ bytes ''q''
     @ bytes ''wertyui0p[]'' @ [13, 0] @ bytes ''asdfg''
     @ bytes ''hjkl;'' @ [39, 0, 0, 92] @ bytes ''zxcvbnm,.''
     @ bytes ''/'' @ [0] @ bytes ''*'' @ [0] @ bytes '' '' @ [0]
     @ [112, 113, 114, 115, 116, 117, 118, 119, 120, 121] @ [0, 0]
     @ bytes ''789-456+1230.'' @ [0, 0, 0, 122, 123]"

text \<open>The \<open>default\<close> branch of the switch, on the video memory.\<close>

definition display_key :: "u8 \<Rightarrow> keyboard \<Rightarrow> (nat \<Rightarrow> u8) \<Rightarrow> nat \<Rightarrow> u8" where
  "display_key key k m =
     (let m = (if ctrlKey k = 0
               then m(CTRL_KEYPRESS_ADDRESS + 1 := 0, CTRL_KEYPRESS_ADDRESS + 2 := 0x07) else m);
          m = (if key \<le> 88 \<and> keymap ! unat key \<noteq> 0 then
                 let ch = keymap ! unat key;
                     m = (if ctrlKey k \<noteq> 0
                          then m(CTRL_KEYPRESS_ADDRESS + 1 := of_char (CHR ''^''),
                                 CTRL_KEYPRESS_ADDRESS + 2 := 0x07) else m)
                 in if uppercase k \<noteq> 0 \<and> 97 \<le> sint ch \<and> sint ch \<le> 122
                    then m(KEYPRESS_ADDRESS + 1 := ch - 32, KEYPRESS_ADDRESS + 2 := 0x07)
                    else m(KEYPRESS_ADDRESS + 1 := ch, KEYPRESS_ADDRESS + 2 := 0x07)
               else m)
      in if uppercase k \<noteq> 0 \<and> 97 \<le> sint (m (KEYPRESS_ADDRESS + 1)) \<and> sint (m (KEYPRESS_ADDRESS + 1)) \<le> 122
         then m(KEYPRESS_ADDRESS + 1 := m (KEYPRESS_ADDRESS + 1) - 32, KEYPRESS_ADDRESS + 2 := 0x07)
         else m)"

text \<open>The switch on the scan code.\<close>

definition switch_key :: "u8 \<Rightarrow> keyboard \<times> console \<Rightarrow> keyboard \<times> console" where
  "switch_key key s =
     (case s of (k, c) \<Rightarrow>
        if key = 0x2A then (k\<lparr>uppercase := 1\<rparr>, c)
        else if key = 0x36 then (k\<lparr>uppercase := 1\<rparr>, c)
        else if key = 0xAA then (k\<lparr>uppercase := 0\<rparr>, c)
        else if key = 0xB6 then (k\<lparr>uppercase := 0\<rparr>, c)
        else if key = 0x1D then (k\<lparr>ctrlKey := 1\<rparr>, c)
        else if key = 0xE0 then (k\<lparr>ctrlKey := 1\<rparr>, c)
        else if key = 0x9D then (k\<lparr>ctrlKey := 0\<rparr>, c)
        else (k, c\<lparr>vram := display_key key k (vram c)\<rparr>))"

definition helper_keyboard_handler ::
  "device \<Rightarrow> keyboard \<times> console \<times> io_log \<Rightarrow> keyboard \<times> console \<times> io_log" where
  "helper_keyboard_handler dev s =
     (case s of (k, c, log) \<Rightarrow>
        let (ch, log) = inportb dev 0x60 log;
            key = ch AND 0xff;
            (k, c) = switch_key key (k, c)
        in (k, c, outportb 0x20 0x20 log))"

definition init_ps2_controller :: "u64 \<Rightarrow> idtd list \<Rightarrow> idtd list option" where
  "init_ps2_controller keyboard_interrupt_service_routine t =
     set_ir_in_idt 33 keyboard_interrupt_service_routine t"

section \<open>Flags\<close>

lemma length_keymap: "length keymap = 89"
  by (simp add: keymap_def)

definition shift_press :: "u8 \<Rightarrow> bool" where
  "shift_press key \<longleftrightarrow> key = 0x2A \<or> key = 0x36"

definition shift_code :: "u8 \<Rightarrow> bool" where
  "shift_code key \<longleftrightarrow> shift_press key \<or> key = 0xAA \<or> key = 0xB6"

definition ctrl_press :: "u8 \<Rightarrow> bool" where
  "ctrl_press key \<longleftrightarrow> key = 0x1D \<or> key = 0xE0"

definition ctrl_code :: "u8 \<Rightarrow> bool" where
  "ctrl_code key \<longleftrightarrow> ctrl_press key \<or> key = 0x9D"

lemmas codes = shift_press_def shift_code_def ctrl_press_def ctrl_code_def

lemma switch_key_flags:
  "uppercase (fst (switch_key key s)) =
     (if shift_press key then 1 else if shift_code key then 0 else uppercase (fst s))"
  "ctrlKey (fst (switch_key key s)) =
     (if ctrl_press key then 1 else if ctrl_code key then 0 else ctrlKey (fst s))"
  by (cases s; auto simp: switch_key_def codes)+

lemma switch_key_console:
  "vram (snd (switch_key key s)) =
     (if shift_code key \<or> ctrl_code key then vram (snd s) else display_key key (fst s) (vram (snd s)))"
  "current_height (snd (switch_key key s)) = current_height (snd s)"
  "current_width (snd (switch_key key s)) = current_width (snd s)"
  by (cases s; auto simp: switch_key_def codes)+

lemmas display_addresses = CTRL_KEYPRESS_ADDRESS_def KEYPRESS_ADDRESS_def BASE_ADDR_def

lemma display_key_frame [frame]:
  "x \<notin> {CTRL_KEYPRESS_ADDRESS + 1, CTRL_KEYPRESS_ADDRESS + 2, KEYPRESS_ADDRESS + 1, KEYPRESS_ADDRESS + 2} \<Longrightarrow>
   display_key key k m x = m x"
  by (simp add: display_key_def Let_def)

lemma keyboard_handler_eq:
  "helper_keyboard_handler dev (k, c, log) =
     (let key = read8 dev log 0x60; r = switch_key key (k, c)
      in (fst r, snd r, log @ [In8 0x60 key, Out8 0x20 0x20]))"
proof -
  have "w AND 0xff = w" for w :: u8 by (rule bit_word_eqI) (simp add: mask_numerals bit_simps)
  then show ?thesis
    by (simp add: helper_keyboard_handler_def inportb_def outportb_def Let_def case_prod_unfold)
qed

text \<open>A sequence of scan codes.\<close>

definition keys :: "u8 list \<Rightarrow> keyboard \<times> console \<Rightarrow> keyboard \<times> console" where
  "keys codes s = fold switch_key codes s"

lemma keys_snoc [simp]: "keys (codes @ [key]) s = switch_key key (keys codes s)"
  by (simp add: keys_def)

lemma keys_Nil [simp]: "keys [] s = s"
  by (simp add: keys_def)


lemma flags_after_keys:
  "uppercase (fst (keys codes s)) =
     (if filter shift_code codes = [] then uppercase (fst s)
      else if shift_press (last (filter shift_code codes)) then 1 else 0)"
  "ctrlKey (fst (keys codes s)) =
     (if filter ctrl_code codes = [] then ctrlKey (fst s)
      else if ctrl_press (last (filter ctrl_code codes)) then 1 else 0)"
proof (induction codes rule: rev_induct)
  case (snoc key codes)
  have "shift_press key \<Longrightarrow> shift_code key" and "ctrl_press key \<Longrightarrow> ctrl_code key"
    by (simp_all add: shift_code_def ctrl_code_def)
  {
    case 1
    show ?case using snoc(1) \<open>shift_press key \<Longrightarrow> shift_code key\<close>
      by (auto simp: switch_key_flags)
  next
    case 2
    show ?case using snoc(2) \<open>ctrl_press key \<Longrightarrow> ctrl_code key\<close>
      by (auto simp: switch_key_flags)
  }
qed simp_all

definition keyboard_inv :: "keyboard \<Rightarrow> bool" where
  "keyboard_inv k \<longleftrightarrow> uppercase k \<in> {0, 1} \<and> ctrlKey k \<in> {0, 1}"

lemma switch_key_inv: "keyboard_inv (fst s) \<Longrightarrow> keyboard_inv (fst (switch_key key s))"
  by (simp add: keyboard_inv_def switch_key_flags)

section \<open>The displayed key\<close>

definition upper :: "u8 \<Rightarrow> u8" where
  "upper ch = (if 97 \<le> sint ch \<and> sint ch \<le> 122 then ch - 32 else ch)"

lemma upper_idem: "upper (upper ch) = upper ch"
proof (cases "97 \<le> sint ch \<and> sint ch \<le> 122")
  case True
  have "sint (ch - 32) = sint ch - 32"
    using True by (simp add: sint_word_diff signed_take_bit_int_eq_self)
  with True show ?thesis by (simp add: upper_def)
next
  case False
  then show ?thesis by (simp add: upper_def)
qed

text \<open>What a code that is no modifier shows.\<close>

lemma display_key_shown:
  "display_key key k m (KEYPRESS_ADDRESS + 1) =
     (let ch = (if key \<le> 88 \<and> keymap ! unat key \<noteq> 0 then keymap ! unat key else m (KEYPRESS_ADDRESS + 1))
      in if uppercase k \<noteq> 0 then upper ch else ch)"
proof -
  define lower where "lower = (\<lambda>ch :: u8. 97 \<le> sint ch \<and> sint ch \<le> 122)"
  define ch where "ch = keymap ! unat key"
  define pressed where "pressed \<longleftrightarrow> key \<le> 88 \<and> ch \<noteq> 0"
  have fold: "(97 \<le> sint x \<and> sint x \<le> 122) = lower x" for x
    by (simp add: lower_def)
  have up: "upper x = (if lower x then x - 32 else x)" for x
    by (simp add: upper_def lower_def)
  have low: "\<not> lower (x - 32)" if "lower x" for x
  proof -
    have "sint (x - 32) = sint x - 32"
      using that by (simp add: lower_def sint_word_diff signed_take_bit_int_eq_self)
    then show ?thesis using that by (simp add: lower_def)
  qed
  show ?thesis
    unfolding display_key_def Let_def up fold ch_def [symmetric] pressed_def [symmetric]
    using low by (simp add: display_addresses)
qed

lemma display_key_caret:
  "display_key key k m (CTRL_KEYPRESS_ADDRESS + 1) =
     (if ctrlKey k = 0 then 0
      else if key \<le> 88 \<and> keymap ! unat key \<noteq> 0 then of_char (CHR ''^'')
      else m (CTRL_KEYPRESS_ADDRESS + 1))"
proof -
  define pressed where "pressed \<longleftrightarrow> key \<le> 88 \<and> keymap ! unat key \<noteq> 0"
  show ?thesis
    unfolding display_key_def Let_def pressed_def [symmetric] by (simp add: display_addresses)
qed

section \<open>Properties\<close>

text \<open>The modifier flags. After any sequence of scan codes the shift flag is set
  exactly when the last shift code of the sequence was a press (0x2A, 0x36) rather
  than a release (0xAA, 0xB6), and the control flag exactly when the last control
  code was 0x1D or the prefix 0xE0 rather than 0x9D; without such a code a flag
  keeps its value.\<close>

theorem modifier_flags_follow_last_code:
  "uppercase (fst (keys codes s)) =
     (if filter shift_code codes = [] then uppercase (fst s)
      else if shift_press (last (filter shift_code codes)) then 1 else 0)
   \<and> ctrlKey (fst (keys codes s)) =
     (if filter ctrl_code codes = [] then ctrlKey (fst s)
      else if ctrl_press (last (filter ctrl_code codes)) then 1 else 0)"
  by (rule conjI flags_after_keys)+

text \<open>The key display. One keyboard interrupt reads port 0x60 once, sends one end
  of interrupt, and for a code that is no modifier shows the table's character of a
  mapped press (or keeps the old one), in upper case exactly when shift is held and
  it is a letter; the caret in front is cleared when control is up, set when control
  is held and the key is mapped, and otherwise kept. Apart from these two cells (their
  character and attribute bytes) no memory changes, and never the cursor.\<close>

theorem keyboard_interrupt_displays_key:
  fixes dev :: device and k :: keyboard and c :: console and log :: io_log
  defines "key \<equiv> read8 dev log 0x60"
  defines "r \<equiv> helper_keyboard_handler dev (k, c, log)"
  assumes "\<not> shift_code key" and "\<not> ctrl_code key"
  shows "snd (snd r) = log @ [In8 0x60 key, Out8 0x20 0x20] \<and> fst r = k
     \<and> vram (fst (snd r)) (KEYPRESS_ADDRESS + 1) =
         (let ch = (if key \<le> 88 \<and> keymap ! unat key \<noteq> 0 then keymap ! unat key
                    else vram c (KEYPRESS_ADDRESS + 1))
          in if uppercase k \<noteq> 0 then upper ch else ch)
     \<and> vram (fst (snd r)) (CTRL_KEYPRESS_ADDRESS + 1) =
         (if ctrlKey k = 0 then 0
          else if key \<le> 88 \<and> keymap ! unat key \<noteq> 0 then of_char (CHR ''^'')
          else vram c (CTRL_KEYPRESS_ADDRESS + 1))
     \<and> (\<forall>x. x \<notin> {CTRL_KEYPRESS_ADDRESS + 1, CTRL_KEYPRESS_ADDRESS + 2, KEYPRESS_ADDRESS + 1,
                    KEYPRESS_ADDRESS + 2} \<longrightarrow> vram (fst (snd r)) x = vram c x)
     \<and> current_height (fst (snd r)) = current_height c \<and> current_width (fst (snd r)) = current_width c"
proof -
  have r: "r = (fst (switch_key key (k, c)), snd (switch_key key (k, c)), log @ [In8 0x60 key, Out8 0x20 0x20])"
    by (simp add: r_def key_def keyboard_handler_eq Let_def)
  have "fst (switch_key key (k, c)) = k"
    using assms(3,4) by (auto simp: switch_key_def codes)
  then show ?thesis
    using assms(3,4) display_key_shown display_key_caret display_key_frame
    by (simp add: r switch_key_console)
qed

definition one_key :: "u8 \<Rightarrow> device" where
  "one_key key = \<lparr>read8 = (\<lambda>_ _. key), read32 = (\<lambda>_ _. 0)\<rparr>"

theorem keyboard_interrupt_displays_key_witness:
  "vram (fst (snd (helper_keyboard_handler (one_key 0x1E)
      (\<lparr>uppercase = 1, ctrlKey = 0\<rparr>, start_console, [])))) (KEYPRESS_ADDRESS + 1) = of_char (CHR ''A'')"
proof -
  have "keymap ! unat (0x1E :: u8) = 97" by (simp add: keymap_def)
  then show ?thesis
    using keyboard_interrupt_displays_key [of "one_key 0x1E" "[]" "\<lparr>uppercase = 1, ctrlKey = 0\<rparr>" start_console]
    by (simp add: one_key_def codes upper_def)
qed

text \<open>Extended keys leave control stuck. The prefix 0xE0 is treated as a control
  press, and no code of the extended key's release clears it: after pressing and
  releasing an extended key (prefix, code, prefix, code) whose own codes are no
  modifiers, the control flag is set, and the next mapped key is shown with a caret
  although no control key was touched.\<close>

theorem extended_key_sets_control:
  assumes "\<not> ctrl_code press" and "\<not> ctrl_code release"
    and "\<not> ctrl_code key" and "\<not> shift_code key" and "key \<le> 88" and "keymap ! unat key \<noteq> 0"
  shows "ctrlKey (fst (keys [0xE0, press, 0xE0, release] s)) = 1
     \<and> vram (snd (keys [0xE0, press, 0xE0, release, key] s)) (CTRL_KEYPRESS_ADDRESS + 1) = of_char (CHR ''^'')"
proof -
  have flag: "ctrlKey (fst (keys [0xE0, press, 0xE0, release] s)) = 1"
    using assms(1,2) flags_after_keys(2) [of "[0xE0, press, 0xE0, release]" s]
    by (simp add: ctrl_code_def ctrl_press_def)
  have "keys [0xE0, press, 0xE0, release, key] s = switch_key key (keys [0xE0, press, 0xE0, release] s)"
    by (simp add: keys_def)
  then show ?thesis
    using flag assms(3-6) display_key_caret [of key "fst (keys [0xE0, press, 0xE0, release] s)"
        "vram (snd (keys [0xE0, press, 0xE0, release] s))"]
    by (simp add: switch_key_console)
qed

theorem extended_key_sets_control_witness:
  "vram (snd (keys [0xE0, 0x48, 0xE0, 0xC8, 0x1E] (keyboard_start, start_console)))
      (CTRL_KEYPRESS_ADDRESS + 1) = of_char (CHR ''^'')"
proof -
  have "keymap ! unat (0x1E :: u8) \<noteq> 0" by (simp add: keymap_def)
  then show ?thesis
    using extended_key_sets_control [of "0x48" "0xC8" "0x1E" "(keyboard_start, start_console)"]
    by (simp add: codes)
qed

end
