(* ===== verification/Pci.thy ===== *)
theory Pci
  imports PortIO
begin

text \<open>
  PCI enumeration of sys/pci.c: reading a configuration register through the
  address port 0xCF8 and the data port 0xCFC, recording the header of a present
  device in the eight-entry table \<open>devInfo\<close>, and the scan of every bus and slot.
  A store into \<open>devInfo\<close> beyond its eighth entry is undefined behaviour. What the
  devices answer is the parameter of PortIO.
\<close>

record pci_dev_info =
  deviceId :: u16
  vendorId :: u16
  status :: u16
  command :: u16
  classCode :: u8
  subClass :: u8
  progIf :: u8
  revisionId :: u8
  bist :: u8
  headerType :: u8
  latencyTimer :: u8
  cacheLineSize :: u8
  bar0 :: u32
  bar1 :: u32
  bar2 :: u32
  bar3 :: u32
  bar4 :: u32
  bar5 :: u32
  cardBusCISPtr :: u32
  subsystemId :: u16
  subsystemVendorId :: u16
  expansionBaseROMAddr :: u32
  reserved0 :: u16
  capabilitiesPtr :: u16
  reserved1 :: u32
  maxLatency :: u8
  minGrant :: u8
  interruptPin :: u8
  interruptLine :: u8

text \<open>\<open>devCount\<close> is an \<open>int\<close> that grows from 0 by at most 8192.\<close>

record pci =
  devInfo :: "pci_dev_info list"
  devCount :: nat

abbreviation (input) MAX_PCI_DEVICES :: nat where "MAX_PCI_DEVICES \<equiv> 8"
abbreviation (input) PCI_CONFIG_ADDRESS :: u16 where "PCI_CONFIG_ADDRESS \<equiv> 0xCF8"
abbreviation (input) PCI_CONFIG_DATA :: u16 where "PCI_CONFIG_DATA \<equiv> 0xCFC"
abbreviation (input) REGISTER_OFFSET_VENDOR :: u8 where "REGISTER_OFFSET_VENDOR \<equiv> 0x00"
abbreviation (input) REGISTER_OFFSET_STATUS :: u8 where "REGISTER_OFFSET_STATUS \<equiv> 0x04"
abbreviation (input) REGISTER_OFFSET_CLASS :: u8 where "REGISTER_OFFSET_CLASS \<equiv> 0x08"
abbreviation (input) REGISTER_OFFSET_BIST :: u8 where "REGISTER_OFFSET_BIST \<equiv> 0x0C"
abbreviation (input) REGISTER_OFFSET_BAR_ADDR_0 :: u8 where "REGISTER_OFFSET_BAR_ADDR_0 \<equiv> 0x10"
abbreviation (input) REGISTER_OFFSET_BAR_ADDR_1 :: u8 where "REGISTER_OFFSET_BAR_ADDR_1 \<equiv> 0x14"
abbreviation (input) REGISTER_OFFSET_BAR_ADDR_2 :: u8 where "REGISTER_OFFSET_BAR_ADDR_2 \<equiv> 0x18"
abbreviation (input) REGISTER_OFFSET_BAR_ADDR_3 :: u8 where "REGISTER_OFFSET_BAR_ADDR_3 \<equiv> 0x1C"
abbreviation (input) REGISTER_OFFSET_BAR_ADDR_4 :: u8 where "REGISTER_OFFSET_BAR_ADDR_4 \<equiv> 0x20"
abbreviation (input) REGISTER_OFFSET_BAR_ADDR_5 :: u8 where "REGISTER_OFFSET_BAR_ADDR_5 \<equiv> 0x24"
abbreviation (input) REGISTER_OFFSET_CS_POINTER :: u8 where "REGISTER_OFFSET_CS_POINTER \<equiv> 0x28"
abbreviation (input) REGISTER_OFFSET_SUBSYSTEM :: u8 where "REGISTER_OFFSET_SUBSYSTEM \<equiv> 0x2C"
abbreviation (input) REGISTER_OFFSET_ROM_BASE_ADDR :: u8 where "REGISTER_OFFSET_ROM_BASE_ADDR \<equiv> 0x30"
abbreviation (input) REGISTER_OFFSET_RESERVED_0 :: u8 where "REGISTER_OFFSET_RESERVED_0 \<equiv> 0x34"
abbreviation (input) REGISTER_OFFSET_RESERVED_1 :: u8 where "REGISTER_OFFSET_RESERVED_1 \<equiv> 0x38"
abbreviation (input) REGISTER_OFFSET_INTERRUPT_FLAGS :: u8 where "REGISTER_OFFSET_INTERRUPT_FLAGS \<equiv> 0x3C"

section \<open>Configuration reads\<close>

definition config_address :: "u8 \<Rightarrow> u8 \<Rightarrow> u8 \<Rightarrow> u8 \<Rightarrow> u32" where
  "config_address bus slot func offset =
     push_bit 16 (ucast bus) OR push_bit 11 (ucast slot) OR push_bit 8 (ucast func)
       OR ucast (offset AND 0xfc) OR 0x80000000"

definition pciConfigReadWord ::
  "device \<Rightarrow> u8 \<Rightarrow> u8 \<Rightarrow> u8 \<Rightarrow> u8 \<Rightarrow> io_log \<Rightarrow> u32 \<times> io_log" where
  "pciConfigReadWord dev bus slot func offset log =
     (let address = config_address bus slot func offset;
          log = outportl PCI_CONFIG_ADDRESS address log;
          (tmp, log) = inportl dev PCI_CONFIG_DATA log
      in (tmp AND 0xffffffff, log))"

section \<open>One slot\<close>

definition pciCheckVendor :: "device \<Rightarrow> u8 \<Rightarrow> u8 \<Rightarrow> pci \<times> io_log \<Rightarrow> (u16 \<times> pci \<times> io_log) option" where
  "pciCheckVendor dev bus slot s =
     (case s of (p, log) \<Rightarrow>
        let rd = pciConfigReadWord dev bus slot 0;
            (word, log) = rd REGISTER_OFFSET_VENDOR log;
            vendor = ucast (word AND 0xFFFF);
            devid = ucast (drop_bit 16 word AND 0xFFFF)
        in if vendor \<noteq> 0xFFFF then
             if MAX_PCI_DEVICES \<le> devCount p then None
             else
               let (w_status, log) = rd REGISTER_OFFSET_STATUS log;
                   (w_class, log) = rd REGISTER_OFFSET_CLASS log;
                   (w_bist, log) = rd REGISTER_OFFSET_BIST log;
                   (w_bar0, log) = rd REGISTER_OFFSET_BAR_ADDR_0 log;
                   (w_bar1, log) = rd REGISTER_OFFSET_BAR_ADDR_1 log;
                   (w_bar2, log) = rd REGISTER_OFFSET_BAR_ADDR_2 log;
                   (w_bar3, log) = rd REGISTER_OFFSET_BAR_ADDR_3 log;
                   (w_bar4, log) = rd REGISTER_OFFSET_BAR_ADDR_4 log;
                   (w_bar5, log) = rd REGISTER_OFFSET_BAR_ADDR_5 log;
                   (w_cs, log) = rd REGISTER_OFFSET_CS_POINTER log;
                   (w_sub, log) = rd REGISTER_OFFSET_SUBSYSTEM log;
                   (w_rom, log) = rd REGISTER_OFFSET_ROM_BASE_ADDR log;
                   (w_res0, log) = rd REGISTER_OFFSET_RESERVED_0 log;
                   (w_res1, log) = rd REGISTER_OFFSET_RESERVED_1 log;
                   (w_int, log) = rd REGISTER_OFFSET_INTERRUPT_FLAGS log;
                   info =
                     \<lparr>deviceId = devid,
                      vendorId = vendor,
                      status = ucast (drop_bit 16 w_status AND 0xFFFF),
                      command = ucast (w_status AND 0xFFFF),
                      classCode = ucast (drop_bit 24 w_class AND 0xFF),
                      subClass = ucast (drop_bit 16 w_class AND 0xFF),
                      progIf = ucast (drop_bit 8 w_class AND 0xFF),
                      revisionId = ucast (w_class AND 0xFF),
                      bist = ucast (drop_bit 24 w_bist AND 0xFF),
                      headerType = ucast (drop_bit 16 w_bist AND 0xFF),
                      latencyTimer = ucast (drop_bit 8 w_bist AND 0xFF),
                      cacheLineSize = ucast (w_bist AND 0xFF),
                      bar0 = w_bar0 AND 0xFFFFFFFF,
                      bar1 = w_bar1 AND 0xFFFFFFFF,
                      bar2 = w_bar2 AND 0xFFFFFFFF,
                      bar3 = w_bar3 AND 0xFFFFFFFF,
                      bar4 = w_bar4 AND 0xFFFFFFFF,
                      bar5 = w_bar5 AND 0xFFFFFFFF,
                      cardBusCISPtr = w_cs AND 0xFFFFFFFF,
                      subsystemId = ucast (drop_bit 16 w_sub AND 0xFFFF),
                      subsystemVendorId = ucast (w_sub AND 0xFFFF),
                      expansionBaseROMAddr = w_rom AND 0xFFFFFFFF,
                      reserved0 = ucast (drop_bit 16 w_res0 AND 0xFFFF),
                      capabilitiesPtr = ucast (w_res0 AND 0xFFFF),
                      reserved1 = w_res1 AND 0xFFFFFFFF,
                      maxLatency = ucast (drop_bit 24 w_int AND 0xFF),
                      minGrant = ucast (drop_bit 16 w_int AND 0xFF),
                      interruptPin = ucast (drop_bit 8 w_int AND 0xFF),
                      interruptLine = ucast (w_int AND 0xFF)\<rparr>
               in Some (vendor, p\<lparr>devInfo := (devInfo p)[devCount p := info],
                                   devCount := devCount p + 1\<rparr>, log)
           else Some (vendor, p, log))"

section \<open>The scan\<close>

definition init_pci_devInfo :: "device \<Rightarrow> pci \<times> io_log \<Rightarrow> (pci \<times> io_log) option" where
  "init_pci_devInfo dev s =
     for_list (\<lambda>bus. for_list (\<lambda>device_id s.
         map_option snd (pciCheckVendor dev (of_nat bus) (of_nat device_id) s)) [0..<32])
       [0..<256] s"

section \<open>Addresses\<close>

lemma bit_small_word:
  assumes "unat w < 2 ^ k" and "bit (w :: u8) n"
  shows "n < k"
proof -
  have "take_bit k w = w"
  proof (rule unsigned_word_eqI)
    show "unat (take_bit k w) = unat w"
      using assms(1) by (simp add: unsigned_take_bit_eq take_bit_nat_eq_self)
  qed
  then show ?thesis using assms(2) by (metis bit_take_bit_iff)
qed

lemma bit_config_address:
  assumes "n < 32"
  shows "bit (config_address bus slot func offset) n =
     (n = 31 \<or> 16 \<le> n \<and> bit bus (n - 16) \<or> 11 \<le> n \<and> bit slot (n - 11)
       \<or> 8 \<le> n \<and> bit func (n - 8) \<or> bit (offset AND 0xfc) n)"
proof -
  have c: "bit (0x80000000 :: u32) n = (n = 31)"
    using bit_push_bit_iff [of 31 "1 :: u32" n, simplified] assms by (auto simp: bit_1_iff)
  show ?thesis
    unfolding config_address_def bit_or_iff bit_push_bit_iff c bit_ucast_iff
    using assms by (auto simp del: bit_and_iff)
qed

text \<open>For the slots and functions of the PCI bus the address written to 0xCF8 keeps the
  bus, slot, function and register number apart: each is read back from its own field, the
  two low bits are clear, and the enable bit 31 is set.\<close>

theorem config_address_fields:
  assumes "unat slot < 32" and "unat func < 8"
  shows "ucast (drop_bit 16 (config_address bus slot func offset)) = bus
    \<and> (\<forall>n. bit slot n = (n < 5 \<and> bit (config_address bus slot func offset) (11 + n)))
    \<and> (\<forall>n. bit func n = (n < 3 \<and> bit (config_address bus slot func offset) (8 + n)))
    \<and> ucast (config_address bus slot func offset) = offset AND 0xfc
    \<and> bit (config_address bus slot func offset) 31"
proof -
  have sl: "bit slot n \<Longrightarrow> n < 5" and fu: "bit func n \<Longrightarrow> n < 3" for n
    using bit_small_word [of _ 5 n] bit_small_word [of _ 3 n] assms by auto
  have big: "\<not> bit b n" if "8 \<le> n" for b :: u8 and n
    using that bit_imp_le_length [of b n] by auto
  let ?a = "config_address bus slot func offset"
  have "bit (ucast (drop_bit 16 ?a) :: u8) n = bit bus n" if "n < 8" for n
    using that bit_config_address [of "n + 16" bus slot func offset] sl [of "n + 5"] fu [of "n + 8"]
      big [of "n + 16"] by (auto simp: bit_simps add.commute simp del: bit_and_iff)
  moreover have "bit (ucast ?a :: u8) n = bit (offset AND 0xfc) n" if "n < 8" for n
    using that bit_config_address [of n bus slot func offset] by (auto simp: bit_ucast_iff)
  moreover have "bit slot n = (n < 5 \<and> bit ?a (11 + n))" for n
    using bit_config_address [of "11 + n" bus slot func offset] sl [of n] fu [of "3 + n"]
      big [of "11 + n"] by (auto simp del: bit_and_iff)
  moreover have "bit func n = (n < 3 \<and> bit ?a (8 + n))" for n
    using bit_config_address [of "8 + n" bus slot func offset] fu [of n] big [of "8 + n"]
    by (auto simp del: bit_and_iff)
  moreover have "bit ?a 31" by (simp add: bit_config_address)
  moreover have "ucast (drop_bit 16 ?a) = bus" by (rule bit_word_eqI) (simp add: calculation(1))
  moreover have "ucast ?a = offset AND 0xfc" by (rule bit_word_eqI) (simp only: calculation(2) len_of_numeral_defs)
  ultimately show ?thesis by blast
qed

section \<open>What the scan records\<close>

text \<open>Configuration mechanism 1 of the PCI specification, for a bus whose configuration
  space does not change during the scan: after an address has been written to 0xCF8, a
  read of 0xCFC returns the register \<open>cfg\<close> holds at that address.\<close>

definition config_mechanism :: "device \<Rightarrow> (u32 \<Rightarrow> u32) \<Rightarrow> bool" where
  "config_mechanism dev cfg \<longleftrightarrow>
     (\<forall>log a. read32 dev (log @ [Out32 PCI_CONFIG_ADDRESS a]) PCI_CONFIG_DATA = cfg a)"

text \<open>The type 0 header as the PCI specification lays it out: \<open>r off\<close> is the register at
  byte offset \<open>off\<close>, its fields are slices of it.\<close>

definition pci_header :: "(u8 \<Rightarrow> u32) \<Rightarrow> pci_dev_info" where
  "pci_header r =
     \<lparr>deviceId = ucast (drop_bit 16 (r 0x00)), vendorId = ucast (r 0x00),
      status = ucast (drop_bit 16 (r 0x04)), command = ucast (r 0x04),
      classCode = ucast (drop_bit 24 (r 0x08)), subClass = ucast (drop_bit 16 (r 0x08)),
      progIf = ucast (drop_bit 8 (r 0x08)), revisionId = ucast (r 0x08),
      bist = ucast (drop_bit 24 (r 0x0C)), headerType = ucast (drop_bit 16 (r 0x0C)),
      latencyTimer = ucast (drop_bit 8 (r 0x0C)), cacheLineSize = ucast (r 0x0C),
      bar0 = r 0x10, bar1 = r 0x14, bar2 = r 0x18, bar3 = r 0x1C, bar4 = r 0x20, bar5 = r 0x24,
      cardBusCISPtr = r 0x28,
      subsystemId = ucast (drop_bit 16 (r 0x2C)), subsystemVendorId = ucast (r 0x2C),
      expansionBaseROMAddr = r 0x30,
      reserved0 = ucast (drop_bit 16 (r 0x34)), capabilitiesPtr = ucast (r 0x34),
      reserved1 = r 0x38,
      maxLatency = ucast (drop_bit 24 (r 0x3C)), minGrant = ucast (drop_bit 16 (r 0x3C)),
      interruptPin = ucast (drop_bit 8 (r 0x3C)), interruptLine = ucast (r 0x3C)\<rparr>"

definition device_header :: "(u32 \<Rightarrow> u32) \<Rightarrow> nat \<times> nat \<Rightarrow> pci_dev_info" where
  "device_header cfg bs = pci_header (\<lambda>off. cfg (config_address (of_nat (fst bs)) (of_nat (snd bs)) 0 off))"

definition present :: "(u32 \<Rightarrow> u32) \<Rightarrow> nat \<times> nat \<Rightarrow> bool" where
  "present cfg bs \<longleftrightarrow> vendorId (device_header cfg bs) \<noteq> 0xFFFF"

definition pci_slots :: "(nat \<times> nat) list" where
  "pci_slots = List.product [0..<256] [0..<32]"

lemma and_all_ones: "(w :: u32) AND 0xffffffff = w"
  by (rule bit_word_eqI) (simp add: mask_numerals bit_simps)

lemma pciConfigReadWord_cfg:
  "config_mechanism dev cfg \<Longrightarrow> pciConfigReadWord dev bus slot func offset log =
     (cfg (config_address bus slot func offset),
      log @ [Out32 PCI_CONFIG_ADDRESS (config_address bus slot func offset),
             In32 PCI_CONFIG_DATA (cfg (config_address bus slot func offset))])"
  by (simp add: pciConfigReadWord_def outportl_def inportl_def config_mechanism_def Let_def and_all_ones)

lemma pciCheckVendor_cfg:
  assumes "config_mechanism dev cfg"
  shows "\<exists>log'. pciCheckVendor dev (of_nat b) (of_nat s) (p, log) =
    (if present cfg (b, s) then
       if devCount p < 8 then
         Some (vendorId (device_header cfg (b, s)),
           p\<lparr>devInfo := (devInfo p)[devCount p := device_header cfg (b, s)],
             devCount := devCount p + 1\<rparr>, log')
       else None
     else Some (vendorId (device_header cfg (b, s)), p, log'))"
  by (cases "present cfg (b, s)"; cases "devCount p < 8")
    (simp_all add: pciCheckVendor_def Let_def pciConfigReadWord_cfg [OF assms] present_def device_header_def
      pci_header_def layout and_all_ones)

definition pci_step :: "device \<Rightarrow> nat \<times> nat \<Rightarrow> pci \<times> io_log \<Rightarrow> (pci \<times> io_log) option" where
  "pci_step dev bs s = map_option snd (pciCheckVendor dev (of_nat (fst bs)) (of_nat (snd bs)) s)"

lemma for_list_product:
  "for_list (\<lambda>x. for_list (f x) ys) xs = for_list (\<lambda>(x, y). f x y) (List.product xs ys)"
proof (induction xs)
  case Nil
  show ?case by (rule ext) simp
next
  case (Cons x xs)
  have "for_list (f x) ys s = for_list (\<lambda>(x, y). f x y) (map (Pair x) ys) s" for s
    by (induction ys arbitrary: s) (auto split: Option.bind_split)
  then show ?case by (intro ext) (simp add: Cons.IH for_list_append)
qed

lemma init_pci_devInfo_slots: "init_pci_devInfo dev s = for_list (pci_step dev) pci_slots s"
  unfolding init_pci_devInfo_def for_list_product pci_slots_def
  by (intro arg_cong [where f = "\<lambda>f. for_list f _ _"]) (auto simp: pci_step_def fun_eq_iff)

text \<open>One slot: absent, present with room in the table, present without.\<close>

lemma pci_step_cfg:
  assumes "config_mechanism dev cfg"
  obtains log' where
    "\<not> present cfg bs \<Longrightarrow> pci_step dev bs (p, log) = Some (p, log')"
    "present cfg bs \<Longrightarrow> devCount p < 8 \<Longrightarrow> pci_step dev bs (p, log) =
       Some (p\<lparr>devInfo := (devInfo p)[devCount p := device_header cfg bs], devCount := Suc (devCount p)\<rparr>, log')"
    "present cfg bs \<Longrightarrow> 8 \<le> devCount p \<Longrightarrow> pci_step dev bs (p, log) = None"
  using pciCheckVendor_cfg [OF assms, of "fst bs" "snd bs" p log] by (auto simp: pci_step_def)

text \<open>What the scan of a list of slots does to the table.\<close>

definition recorded :: "pci_dev_info list \<Rightarrow> pci \<Rightarrow> pci" where
  "recorded hs p = p\<lparr>devInfo := take (devCount p) (devInfo p) @ hs @ drop (devCount p + length hs) (devInfo p),
                     devCount := devCount p + length hs\<rparr>"

lemma recorded_Nil [simp]: "recorded [] p = p"
  by (simp add: recorded_def)

lemma recorded_Cons:
  assumes "devCount p < length (devInfo p)"
  shows "recorded hs (p\<lparr>devInfo := (devInfo p)[devCount p := h], devCount := Suc (devCount p)\<rparr>)
    = recorded (h # hs) p"
  using assms by (simp add: recorded_def take_Suc_conv_app_nth drop_update_cancel)

lemma pci_scan:
  assumes cfg: "config_mechanism dev cfg" and "length (devInfo p) = 8" and "devCount p \<le> 8"
  shows "devCount p + length (filter (present cfg) L) \<le> 8 \<Longrightarrow>
      \<exists>log'. for_list (pci_step dev) L (p, log) =
        Some (recorded (map (device_header cfg) (filter (present cfg) L)) p, log')"
    and "8 < devCount p + length (filter (present cfg) L) \<Longrightarrow> for_list (pci_step dev) L (p, log) = None"
  using assms(2,3)
proof (induction L arbitrary: p log)
  case Nil
  case 1 then show ?case by simp
next
  case Nil
  case 2 then show ?case by simp
next
  case (Cons bs L)
  case 1
  obtain log1 where step:
    "\<not> present cfg bs \<Longrightarrow> pci_step dev bs (p, log) = Some (p, log1)"
    "present cfg bs \<Longrightarrow> devCount p < 8 \<Longrightarrow> pci_step dev bs (p, log) =
       Some (p\<lparr>devInfo := (devInfo p)[devCount p := device_header cfg bs], devCount := Suc (devCount p)\<rparr>, log1)"
    using pci_step_cfg [OF cfg] by metis
  with 1 show ?case
    using Cons.IH(1) [of p log1]
      Cons.IH(1) [of "p\<lparr>devInfo := (devInfo p)[devCount p := device_header cfg bs], devCount := Suc (devCount p)\<rparr>" log1]
    by (cases "present cfg bs") (simp_all add: step recorded_Cons)
next
  case (Cons bs L)
  case 2
  obtain log1 where step:
    "\<not> present cfg bs \<Longrightarrow> pci_step dev bs (p, log) = Some (p, log1)"
    "present cfg bs \<Longrightarrow> devCount p < 8 \<Longrightarrow> pci_step dev bs (p, log) =
       Some (p\<lparr>devInfo := (devInfo p)[devCount p := device_header cfg bs], devCount := Suc (devCount p)\<rparr>, log1)"
    "present cfg bs \<Longrightarrow> 8 \<le> devCount p \<Longrightarrow> pci_step dev bs (p, log) = None"
    using pci_step_cfg [OF cfg] by metis
  with 2 show ?case
    using Cons.IH(2) [of p log1]
      Cons.IH(2) [of "p\<lparr>devInfo := (devInfo p)[devCount p := device_header cfg bs], devCount := Suc (devCount p)\<rparr>" log1]
    by (cases "present cfg bs"; cases "devCount p < 8") (simp_all add: step)
qed

text \<open>The devices a configuration space holds, in the order of the scan.\<close>

definition devices :: "(u32 \<Rightarrow> u32) \<Rightarrow> pci_dev_info list" where
  "devices cfg = map (device_header cfg) (filter (present cfg) pci_slots)"

text \<open>C12: For a configuration space that does not change, the scan of 256 buses of 32 slots
  records exactly the slots whose vendor id is not 0xFFFF, in order, each with its header
  decoded, and counts them - as long as there are at most eight. With a ninth device the
  code writes past the end of \<open>devInfo\<close>.\<close>

theorem pci_scan_records_present_devices:
  assumes "config_mechanism dev cfg" and "length (devInfo p) = 8" and "devCount p = 0"
  shows "\<exists>log'. init_pci_devInfo dev (p, log) =
    (if length (devices cfg) \<le> 8 then
       Some (p\<lparr>devInfo := devices cfg @ drop (length (devices cfg)) (devInfo p),
               devCount := length (devices cfg)\<rparr>, log')
     else None)"
  using pci_scan [OF assms(1,2), of pci_slots log] assms(3)
  by (cases "length (devices cfg) \<le> 8")
    (auto simp: init_pci_devInfo_slots devices_def recorded_def)

section \<open>A bus with one device\<close>

text \<open>Slot 0 of bus 0 answers as vendor 0x8086, device 0x1237; every other slot reads all ones.\<close>

definition one_device :: "u32 \<Rightarrow> u32" where
  "one_device a = (if drop_bit 8 a = 0x800000 then 0x12378086 else 0xFFFFFFFF)"

definition one_device_bus :: device where
  "one_device_bus = \<lparr>read8 = \<lambda>_ _. 0,
     read32 = \<lambda>log p. case last log of Out32 _ a \<Rightarrow> one_device a | _ \<Rightarrow> 0xFFFFFFFF\<rparr>"

lemma one_device_bus_mechanism: "config_mechanism one_device_bus one_device"
  by (simp add: config_mechanism_def one_device_bus_def)

lemma first_slot_address:
  assumes "b < 256" and "s < 32"
  shows "drop_bit 8 (config_address (of_nat b) (of_nat s) 0 off) = 0x800000 \<longleftrightarrow> b = 0 \<and> s = 0"
proof
  assume a: "drop_bit 8 (config_address (of_nat b) (of_nat s) 0 off) = 0x800000"
  have bit: "bit (config_address (of_nat b) (of_nat s) 0 off) (8 + n) = bit (0x800000 :: u32) n" for n
    using arg_cong [OF a, of "\<lambda>w. bit w n"] by (simp add: bit_drop_bit_eq)
  have clear: "\<not> bit (0x800000 :: u32) n" if "n < 16" for n
    using bit_push_bit_iff [of 23 "1 :: u32" n, simplified] that by simp
  have "\<not> bit (of_nat b :: u8) n" if "n < 8" for n
    using bit [of "8 + n"] clear [of "8 + n"] that by (simp add: bit_config_address)
  then have "(of_nat b :: u8) = 0" by (intro bit_word_eqI) simp
  moreover have "\<not> bit (of_nat s :: u8) n" if "n < 8" for n
    using bit [of "3 + n"] clear [of "3 + n"] that by (simp add: bit_config_address)
  then have "(of_nat s :: u8) = 0" by (intro bit_word_eqI) simp
  ultimately show "b = 0 \<and> s = 0"
    using assms unat_of_nat_small [where 'a = 8, of b] unat_of_nat_small [where 'a = 8, of s] by simp
next
  assume "b = 0 \<and> s = 0"
  moreover have "drop_bit 8 (ucast (off AND 0xfc) :: u32) = 0"
    by (rule bit_word_eqI) (auto simp: bit_drop_bit_eq bit_ucast_iff simp del: bit_and_iff
        dest: bit_imp_le_length)
  then have "drop_bit 8 (config_address 0 0 0 off) = 0x800000"
    by (simp add: config_address_def)
  ultimately show "drop_bit 8 (config_address (of_nat b) (of_nat s) 0 off) = 0x800000" by simp
qed

lemma device_header_one:
  assumes "b < 256" and "s < 32"
  shows "present one_device (b, s) \<longleftrightarrow> b = 0 \<and> s = 0"
  using first_slot_address [OF assms]
  by (auto simp: present_def device_header_def pci_header_def one_device_def)

lemma first_of_product:
  assumes "0 < n" and "0 < m"
  shows "filter (\<lambda>bs. bs = (0, 0)) (List.product [0..<n] [0..<m]) = [(0, 0)]"
proof -
  have n: "[0..<n] = 0 # [1..<n]" and m: "[0..<m] = 0 # [1..<m]"
    using assms by (simp_all add: upt_conv_Cons)
  show ?thesis unfolding n m by (auto simp: filter_empty_conv)
qed

lemma devices_one: "devices one_device = [device_header one_device (0, 0)]"
proof -
  have "filter (present one_device) pci_slots = filter (\<lambda>bs. bs = (0, 0)) pci_slots"
    by (rule filter_cong) (auto simp only: pci_slots_def device_header_one set_product set_upt
        atLeastLessThan_iff mem_Times_iff fst_conv snd_conv split_paired_all prod.inject)
  also have "\<dots> = [(0, 0)]"
    unfolding pci_slots_def by (rule first_of_product) auto
  finally show ?thesis by (simp add: devices_def)
qed

theorem pci_scan_records_present_devices_witness:
  "\<exists>p log. init_pci_devInfo one_device_bus (\<lparr>devInfo = replicate 8 (pci_header (\<lambda>_. 0)), devCount = 0\<rparr>, [])
      = Some (p, log)
    \<and> devCount p = 1 \<and> vendorId (devInfo p ! 0) = 0x8086 \<and> deviceId (devInfo p ! 0) = 0x1237
    \<and> devInfo p ! 1 = pci_header (\<lambda>_. 0)"
proof -
  have h: "vendorId (device_header one_device (0, 0)) = 0x8086"
    "deviceId (device_header one_device (0, 0)) = 0x1237"
    using first_slot_address [of 0 0]
    by (simp_all add: device_header_def pci_header_def one_device_def)
  show ?thesis
    using pci_scan_records_present_devices [OF one_device_bus_mechanism,
        of "\<lparr>devInfo = replicate 8 (pci_header (\<lambda>_. 0)), devCount = 0\<rparr>" "[]"]
    by (auto simp: devices_one h numeral_eq_Suc)
qed

text \<open>The witness of the address theorem: bus 1, slot 3, function 2, register 0x3C.\<close>

theorem config_address_fields_witness:
  "ucast (drop_bit 16 (config_address 1 3 2 0x3C)) = (1 :: u8)
    \<and> ucast (config_address 1 3 2 0x3C) = (0x3C :: u8) \<and> bit (config_address 1 3 2 0x3C) 31"
  using config_address_fields [of 3 2 1 "0x3C"] by simp

end
