(* ===== verification/Gdt.thy ===== *)
theory Gdt
  imports Prelude
begin

text \<open>
  The global descriptor table of sys/gdt.c and the two routines of sys/gdt.s that load it.
  The table is a list of 64-bit words; the TSS descriptor is the 128-bit value of entries 5
  and 6, its bit fields written one by one in the order of the code. The instructions
  \<open>lgdt\<close>, \<open>lretq\<close>, \<open>mov\<close> to a segment register and \<open>ltr\<close> are given with the checks the
  processor makes; a fault is \<open>None\<close>. The address of the static \<open>tss\<close> is a parameter.
\<close>

section \<open>Data\<close>

record tss_t =
  reserved_0 :: u32
  rsp0 :: u64
  rsp1 :: u64
  rsp2 :: u64
  reserved_1 :: u64
  ist1 :: u64
  ist2 :: u64
  ist3 :: u64
  ist4 :: u64
  ist5 :: u64
  ist6 :: u64
  ist7 :: u64
  reserved_2 :: u64
  reserved_3 :: u16
  iomap_base :: u16

text \<open>The packed image of the TSS.\<close>

definition tss_bytes :: "tss_t \<Rightarrow> u8 list" where
  "tss_bytes t = le_bytes 4 (reserved_0 t) @ le_bytes 8 (rsp0 t) @ le_bytes 8 (rsp1 t)
     @ le_bytes 8 (rsp2 t) @ le_bytes 8 (reserved_1 t) @ le_bytes 8 (ist1 t) @ le_bytes 8 (ist2 t)
     @ le_bytes 8 (ist3 t) @ le_bytes 8 (ist4 t) @ le_bytes 8 (ist5 t) @ le_bytes 8 (ist6 t)
     @ le_bytes 8 (ist7 t) @ le_bytes 8 (reserved_2 t) @ le_bytes 2 (reserved_3 t)
     @ le_bytes 2 (iomap_base t)"

definition sizeof_tss :: nat where
  "sizeof_tss = 104"

record gdtr_t =
  gdtr_size :: u16
  gdtr_addr :: u64

record gdt_state =
  gdt :: "u64 list"
  gdtr :: gdtr_t
  tss :: tss_t
  cpu_gdtr :: "gdtr_t option"
  cpu_cs :: u16
  cpu_ds :: u16
  cpu_es :: u16
  cpu_fs :: u16
  cpu_gs :: u16
  cpu_ss :: u16
  cpu_tr :: u16

abbreviation (input) MAX_GDT :: nat where "MAX_GDT \<equiv> 32"
abbreviation (input) GDT_CS :: u64 where "GDT_CS \<equiv> 0x00180000000000"
abbreviation (input) GDT_DS :: u64 where "GDT_DS \<equiv> 0x00100000000000"
abbreviation (input) DPL0 :: u64 where "DPL0 \<equiv> 0x00000000000000"
abbreviation (input) DPL3 :: u64 where "DPL3 \<equiv> 0x00600000000000"
abbreviation (input) GDT_P :: u64 where "GDT_P \<equiv> 0x00800000000000"
abbreviation (input) GDT_L :: u64 where "GDT_L \<equiv> 0x20000000000000"
abbreviation (input) GDT_W :: u64 where "GDT_W \<equiv> 0x00020000000000"

definition initial_gdt :: "u64 list" where
  "initial_gdt =
     [0,
      GDT_CS OR GDT_P OR DPL0 OR GDT_L,
      GDT_DS OR GDT_P OR GDT_W OR DPL0,
      GDT_CS OR GDT_P OR DPL3 OR GDT_L,
      GDT_DS OR GDT_P OR GDT_W OR DPL3,
      0, 0] @ replicate (MAX_GDT - 7) 0"

definition initial_gdtr :: "u64 \<Rightarrow> gdtr_t" where
  "initial_gdtr gdt_addr = \<lparr>gdtr_size = of_nat (8 * MAX_GDT), gdtr_addr = gdt_addr\<rparr>"

section \<open>Bit fields of the system segment descriptor\<close>

text \<open>Writing the \<open>n\<close>-bit field that starts at bit \<open>lo\<close>.\<close>

definition set_field :: "nat \<Rightarrow> nat \<Rightarrow> u64 \<Rightarrow> 128 word \<Rightarrow> 128 word" where
  "set_field lo n v w = (w AND NOT (push_bit lo (mask n))) OR push_bit lo (ucast (take_bit n v))"

definition sd_lolimit :: "u64 \<Rightarrow> 128 word \<Rightarrow> 128 word" where "sd_lolimit = set_field 0 16"
definition sd_lobase :: "u64 \<Rightarrow> 128 word \<Rightarrow> 128 word" where "sd_lobase = set_field 16 24"
definition sd_type :: "u64 \<Rightarrow> 128 word \<Rightarrow> 128 word" where "sd_type = set_field 40 5"
definition sd_dpl :: "u64 \<Rightarrow> 128 word \<Rightarrow> 128 word" where "sd_dpl = set_field 45 2"
definition sd_p :: "u64 \<Rightarrow> 128 word \<Rightarrow> 128 word" where "sd_p = set_field 47 1"
definition sd_hilimit :: "u64 \<Rightarrow> 128 word \<Rightarrow> 128 word" where "sd_hilimit = set_field 48 4"
definition sd_gran :: "u64 \<Rightarrow> 128 word \<Rightarrow> 128 word" where "sd_gran = set_field 55 1"
definition sd_hibase :: "u64 \<Rightarrow> 128 word \<Rightarrow> 128 word" where "sd_hibase = set_field 56 40"

lemmas sd_fields = sd_lolimit_def sd_lobase_def sd_type_def sd_dpl_def sd_p_def sd_hilimit_def
  sd_gran_def sd_hibase_def

definition tss_descriptor :: "u64 \<Rightarrow> 128 word \<Rightarrow> 128 word" where
  "tss_descriptor tss_addr sd =
     (let sd = sd_lolimit (of_nat sizeof_tss - 1) sd;
          sd = sd_lobase tss_addr sd;
          sd = sd_type 9 sd;
          sd = sd_dpl 0 sd;
          sd = sd_p 1 sd;
          sd = sd_hilimit 0 sd;
          sd = sd_gran 0 sd
      in sd_hibase (drop_bit 24 tss_addr) sd)"

text \<open>The 128-bit value at entry \<open>i\<close> of the table.\<close>

definition entry128 :: "nat \<Rightarrow> u64 list \<Rightarrow> 128 word" where
  "entry128 i t = ucast (t ! i) OR push_bit 64 (ucast (t ! Suc i))"

definition put_entry128 :: "nat \<Rightarrow> 128 word \<Rightarrow> u64 list \<Rightarrow> u64 list" where
  "put_entry128 i w t = t[i := ucast w, Suc i := ucast (drop_bit 64 w)]"

section \<open>Loading the table\<close>

definition descriptor :: "u16 \<Rightarrow> gdt_state \<Rightarrow> u64" where
  "descriptor sel s = gdt s ! (unat sel div 8)"

text \<open>The eight bytes of the descriptor are inside the limit of the loaded GDT register.\<close>

definition in_limit :: "u16 \<Rightarrow> nat \<Rightarrow> gdt_state \<Rightarrow> bool" where
  "in_limit sel n s = (case cpu_gdtr s of None \<Rightarrow> False
     | Some r \<Rightarrow> 8 * (unat sel div 8) + n \<le> unat (gdtr_size r) + 1 \<and> unat sel div 8 < length (gdt s))"

text \<open>Present (bit 47), a code or data segment (bit 44).\<close>

definition usable :: "u64 \<Rightarrow> bool" where
  "usable d \<longleftrightarrow> bit d 47 \<and> bit d 44"

text \<open>The far return to a ring 0 code segment: executable (bit 43), 64-bit (L set, D clear).\<close>

definition load_cs :: "u16 \<Rightarrow> gdt_state \<Rightarrow> gdt_state option" where
  "load_cs sel s =
     (let d = descriptor sel s
      in if in_limit sel 8 s \<and> usable d \<and> bit d 43 \<and> bit d 53 \<and> \<not> bit d 54
            \<and> \<not> bit d 45 \<and> \<not> bit d 46
         then Some (s\<lparr>cpu_cs := sel\<rparr>) else None)"

text \<open>A data segment register takes a data segment or a readable code segment; the stack
  segment only a writable ring 0 data segment.\<close>

definition loadable_data :: "u16 \<Rightarrow> gdt_state \<Rightarrow> bool" where
  "loadable_data sel s =
     (let d = descriptor sel s
      in in_limit sel 8 s \<and> usable d \<and> (bit d 43 \<longrightarrow> bit d 41))"

definition loadable_stack :: "u16 \<Rightarrow> gdt_state \<Rightarrow> bool" where
  "loadable_stack sel s =
     (let d = descriptor sel s
      in in_limit sel 8 s \<and> usable d \<and> \<not> bit d 43 \<and> bit d 41 \<and> \<not> bit d 45 \<and> \<not> bit d 46)"

definition x86_64_asm_lgdt :: "gdtr_t \<Rightarrow> u64 \<Rightarrow> u64 \<Rightarrow> gdt_state \<Rightarrow> gdt_state option" where
  "x86_64_asm_lgdt r cs_idx ds_idx s = do {
     let s = s\<lparr>cpu_gdtr := Some r\<rparr>;
     s \<leftarrow> load_cs (ucast cs_idx) s;
     let sel = ucast ds_idx;
     if loadable_data sel s \<and> loadable_stack sel s
     then Some (s\<lparr>cpu_es := sel, cpu_fs := sel, cpu_gs := sel, cpu_ds := sel, cpu_ss := sel\<rparr>)
     else None
   }"

text \<open>\<open>ltr\<close> takes an available 64-bit TSS (type 9, system segment, present) and marks it busy.\<close>

definition x86_64_asm_ltr :: "u64 \<Rightarrow> gdt_state \<Rightarrow> gdt_state option" where
  "x86_64_asm_ltr tss_idx s =
     (let sel = ucast tss_idx :: u16; d = descriptor sel s; i = unat sel div 8
      in if in_limit sel 16 s \<and> Suc i < length (gdt s) \<and> take_bit 5 (drop_bit 40 d) = 9 \<and> bit d 47
         then Some (s\<lparr>gdt := (gdt s)[i := set_bit 41 d], cpu_tr := sel\<rparr>) else None)"

section \<open>Operations\<close>

definition init_gdt :: "u64 \<Rightarrow> gdt_state \<Rightarrow> gdt_state option" where
  "init_gdt tss_addr s = do {
     let s = s\<lparr>gdt := put_entry128 5 (tss_descriptor tss_addr (entry128 5 (gdt s))) (gdt s)\<rparr>;
     s \<leftarrow> x86_64_asm_lgdt (gdtr s) 8 16 s;
     x86_64_asm_ltr 0x28 s
   }"

definition set_tss_rsp :: "u64 \<Rightarrow> gdt_state \<Rightarrow> gdt_state" where
  "set_tss_rsp rsp s = s\<lparr>tss := (tss s)\<lparr>rsp0 := rsp\<rparr>\<rparr>"

section \<open>Fields\<close>

definition get_field :: "nat \<Rightarrow> nat \<Rightarrow> 128 word \<Rightarrow> u64" where
  "get_field lo n w = ucast (take_bit n (drop_bit lo w))"

lemma get_set_field_same [layout]:
  "lo + n \<le> 128 \<Longrightarrow> get_field lo n (set_field lo n v w) = take_bit n v"
  unfolding get_field_def set_field_def
  by (rule bit_word_eqI) (auto simp: bit_simps dest: bit_imp_le_length)

lemma get_set_field_other [layout]:
  "lo + n \<le> lo' \<or> lo' + n' \<le> lo \<Longrightarrow> get_field lo n (set_field lo' n' v w) = get_field lo n w"
  unfolding get_field_def set_field_def
  by (rule bit_word_eqI) (auto simp: bit_simps dest: bit_imp_le_length)

lemma get_field_busy [layout]:
  "\<not> (lo \<le> 41 \<and> 41 < lo + n) \<Longrightarrow> get_field lo n (set_bit 41 w) = get_field lo n w"
  unfolding get_field_def
  by (rule bit_word_eqI) (auto simp: bit_simps dest: bit_imp_le_length)

lemma get_field_type_busy [layout]:
  "get_field 40 5 w = 9 \<Longrightarrow> get_field 40 5 (set_bit 41 w) = 11"
proof -
  assume a: "get_field 40 5 w = 9"
  have "get_field 40 5 (set_bit 41 w) = set_bit 1 (get_field 40 5 w)"
    unfolding get_field_def
    by (intro bit_word_eqI) (auto simp: bit_simps dest: bit_imp_le_length)
  then show ?thesis by (simp add: a set_bit_eq_or)
qed

lemma entry128_put [layout]:
  "Suc i < length t \<Longrightarrow> entry128 i (put_entry128 i w t) = w"
  unfolding entry128_def put_entry128_def
  by (rule bit_word_eqI) (auto simp: bit_simps nth_list_update dest: bit_imp_le_length)

lemma entry128_busy [layout]:
  "Suc i < length t \<Longrightarrow> entry128 i (t[i := set_bit 41 (t ! i)]) = set_bit 41 (entry128 i t)"
  unfolding entry128_def
  by (rule bit_word_eqI) (auto simp: bit_simps nth_list_update dest: bit_imp_le_length)

text \<open>The low half of a 128-bit entry as the processor tests it.\<close>

lemma low_half_field: "lo + n \<le> 64 \<Longrightarrow> take_bit n (drop_bit lo (ucast w :: u64)) = get_field lo n w"
  unfolding get_field_def
  by (rule bit_word_eqI) (auto simp: bit_simps dest: bit_imp_le_length)

lemma low_half_bit: "lo < 64 \<Longrightarrow> bit (ucast w :: u64) lo \<longleftrightarrow> bit (get_field lo 1 w) 0"
  unfolding get_field_def by (auto simp: bit_simps bit_iff_odd_drop_bit [of w lo])

text \<open>The 64-bit base address, split over two fields, put together again.\<close>

definition descriptor_base :: "128 word \<Rightarrow> u64" where
  "descriptor_base w = get_field 16 24 w OR push_bit 24 (get_field 56 40 w)"

lemma split_address: "take_bit 24 a OR push_bit 24 (take_bit 40 (drop_bit 24 a)) = (a :: u64)"
  by (rule bit_word_eqI) (auto simp: bit_simps)

lemma tss_descriptor_fields [layout]:
  "get_field 0 16 (tss_descriptor a w) = 103"
  "get_field 16 24 (tss_descriptor a w) = take_bit 24 a"
  "get_field 40 5 (tss_descriptor a w) = 9"
  "get_field 45 2 (tss_descriptor a w) = 0"
  "get_field 47 1 (tss_descriptor a w) = 1"
  "get_field 48 4 (tss_descriptor a w) = 0"
  "get_field 55 1 (tss_descriptor a w) = 0"
  "get_field 56 40 (tss_descriptor a w) = take_bit 40 (drop_bit 24 a)"
  "get_field 104 5 (tss_descriptor a w) = get_field 104 5 w"
  by (simp_all add: tss_descriptor_def sd_fields sizeof_tss_def get_set_field_same get_set_field_other)

lemma length_tss_bytes: "length (tss_bytes t) = sizeof_tss"
  by (simp add: tss_bytes_def sizeof_tss_def)

section \<open>After initialisation\<close>

definition tss_loaded :: "u64 \<Rightarrow> u64 list \<Rightarrow> u64 list" where
  "tss_loaded tss_addr t =
     (let t = put_entry128 5 (tss_descriptor tss_addr (entry128 5 t)) t in t[5 := set_bit 41 (t ! 5)])"

lemma initial_gdt_entries:
  "length initial_gdt = 32"
  "initial_gdt ! Suc 0 = 0x20980000000000" "initial_gdt ! 2 = 0x00920000000000"
  "entry128 5 initial_gdt = 0"
  by (simp_all add: initial_gdt_def entry128_def nth_append)

lemma code_segment_bits:
  "bit (0x20980000000000 :: u64) 47" "bit (0x20980000000000 :: u64) 44"
  "bit (0x20980000000000 :: u64) 43" "bit (0x20980000000000 :: u64) 53"
  "\<not> bit (0x20980000000000 :: u64) 54" "\<not> bit (0x20980000000000 :: u64) 45"
  "\<not> bit (0x20980000000000 :: u64) 46"
  by (simp_all add: bit_iff_odd_drop_bit)

lemma data_segment_bits:
  "bit (0x00920000000000 :: u64) 47" "bit (0x00920000000000 :: u64) 44"
  "\<not> bit (0x00920000000000 :: u64) 43" "bit (0x00920000000000 :: u64) 41"
  "\<not> bit (0x00920000000000 :: u64) 45" "\<not> bit (0x00920000000000 :: u64) 46"
  by (simp_all add: bit_iff_odd_drop_bit)

lemma put_entry128_low: "Suc i < length t \<Longrightarrow> put_entry128 i w t ! i = ucast w"
  by (simp add: put_entry128_def nth_list_update)

lemma put_entry128_other: "k \<noteq> i \<Longrightarrow> k \<noteq> Suc i \<Longrightarrow> put_entry128 i w t ! k = t ! k"
  by (simp add: put_entry128_def)

lemma length_put_entry128 [simp]: "length (put_entry128 i w t) = length t"
  by (simp add: put_entry128_def)

lemma init_gdt_total:
  assumes "gdt s = initial_gdt" and "gdtr s = initial_gdtr a"
  shows "init_gdt tss_addr s = Some (s\<lparr>gdt := tss_loaded tss_addr initial_gdt,
    cpu_gdtr := Some (initial_gdtr a), cpu_cs := 8, cpu_es := 16, cpu_fs := 16, cpu_gs := 16,
    cpu_ds := 16, cpu_ss := 16, cpu_tr := 0x28\<rparr>)"
  using assms
  by (simp add: init_gdt_def x86_64_asm_lgdt_def load_cs_def loadable_data_def loadable_stack_def
      in_limit_def usable_def descriptor_def initial_gdtr_def x86_64_asm_ltr_def Let_def
      put_entry128_other put_entry128_low initial_gdt_entries code_segment_bits data_segment_bits
      low_half_field low_half_bit tss_descriptor_fields tss_descriptor_fields(5) [simplified] tss_loaded_def)

lemma tss_loaded_entry:
  "entry128 5 (tss_loaded a initial_gdt) = set_bit 41 (tss_descriptor a 0)"
  by (simp add: tss_loaded_def Let_def entry128_busy entry128_put initial_gdt_entries)

text \<open>C19: Initialising the GDT faults at no instruction. It leaves the kernel code segment in
  \<open>cs\<close>, the kernel data segment in the five data segment registers and the TSS selector in
  the task register; the descriptor in entries 5 and 6, whose base address is scattered over
  two bit fields, describes the static \<open>tss\<close>: its address, its size minus one, the type of a
  busy 64-bit TSS, ring 0, present, byte granular, reserved bits zero.\<close>

theorem init_gdt_describes_tss:
  assumes "gdt s = initial_gdt" and "gdtr s = initial_gdtr a"
  shows "\<exists>s'. init_gdt tss_addr s = Some s'
    \<and> cpu_gdtr s' = Some (gdtr s)
    \<and> cpu_cs s' = 8 \<and> cpu_tr s' = 0x28
    \<and> cpu_ds s' = 16 \<and> cpu_es s' = 16 \<and> cpu_fs s' = 16 \<and> cpu_gs s' = 16 \<and> cpu_ss s' = 16
    \<and> descriptor_base (entry128 5 (gdt s')) = tss_addr
    \<and> unat (get_field 0 16 (entry128 5 (gdt s'))) + 1 = length (tss_bytes (tss s'))
    \<and> get_field 40 5 (entry128 5 (gdt s')) = 11
    \<and> get_field 45 2 (entry128 5 (gdt s')) = 0
    \<and> get_field 47 1 (entry128 5 (gdt s')) = 1
    \<and> get_field 48 4 (entry128 5 (gdt s')) = 0
    \<and> get_field 55 1 (entry128 5 (gdt s')) = 0
    \<and> get_field 104 5 (entry128 5 (gdt s')) = 0"
proof -
  have zero: "get_field 104 5 0 = 0" by (simp add: get_field_def)
  show ?thesis
    using assms
    by (simp add: init_gdt_total tss_loaded_entry get_field_busy get_field_type_busy
        tss_descriptor_fields tss_descriptor_fields(5) [simplified] get_field_busy [of 47 "Suc 0"]
        descriptor_base_def split_address zero length_tss_bytes sizeof_tss_def tss_descriptor_fields(7) [simplified])
qed

definition boot_gdt :: gdt_state where
  "boot_gdt = \<lparr>gdt = initial_gdt, gdtr = initial_gdtr 0xffffffff80208000,
     tss = \<lparr>reserved_0 = 0, rsp0 = 0, rsp1 = 0, rsp2 = 0, reserved_1 = 0, ist1 = 0, ist2 = 0, ist3 = 0,
       ist4 = 0, ist5 = 0, ist6 = 0, ist7 = 0, reserved_2 = 0, reserved_3 = 0, iomap_base = 0\<rparr>,
     cpu_gdtr = None, cpu_cs = 0, cpu_ds = 0, cpu_es = 0, cpu_fs = 0, cpu_gs = 0, cpu_ss = 0, cpu_tr = 0\<rparr>"

theorem init_gdt_describes_tss_witness:
  "\<exists>s'. init_gdt 0xffffffff80209040 boot_gdt = Some s' \<and> cpu_cs s' = 8 \<and> cpu_tr s' = 0x28
    \<and> descriptor_base (entry128 5 (gdt s')) = 0xffffffff80209040"
  using init_gdt_describes_tss [of boot_gdt "0xffffffff80208000" "0xffffffff80209040"]
  by (auto simp: boot_gdt_def)

text \<open>The stack pointer stored by \<open>set_tss_rsp\<close> is where the processor looks for it when an
  interrupt enters ring 0: the eight bytes at offset 4 of the TSS image, little endian. The
  other 96 bytes keep their value.\<close>

theorem set_tss_rsp_ring0_stack:
  "of_le (take 8 (drop 4 (tss_bytes (tss (set_tss_rsp rsp s))))) = rsp
    \<and> take 4 (tss_bytes (tss (set_tss_rsp rsp s))) = take 4 (tss_bytes (tss s))
    \<and> drop 12 (tss_bytes (tss (set_tss_rsp rsp s))) = drop 12 (tss_bytes (tss s))
    \<and> gdt (set_tss_rsp rsp s) = gdt s"
  by (simp add: set_tss_rsp_def tss_bytes_def of_le_whole)

end
