(* ===== verification/IsrStubs.thy ===== *)
theory IsrStubs
  imports Prelude
begin

text \<open>
  The interrupt entry stubs of sys/idt.s, sys/pit.s and sys/ps2Controller.s, and the two
  inline assembly sequences of include/sys/asm_util.h, as programs of the five instructions
  they consist of. The C handler a stub calls is a function on the machine: one that returns
  is any function of the register file, the one of sys/idt.c executes \<open>iretq\<close> itself. The stack is a list with its top first; popping an empty stack is \<open>None\<close>.
\<close>

section \<open>Machine\<close>

datatype reg = RAX | RBX | RCX | RDX | RSI | RDI | RBP | R8 | R9 | R10 | R11 | R12 | R13 | R14 | R15

datatype instr = Push reg | Pop reg | CallHandler u64 | Iretq | AddRsp nat

record cpu =
  regs :: "reg \<Rightarrow> u64"
  stack :: "u64 list"
  running :: bool  \<comment> \<open>false once \<open>iretq\<close> has left the stub\<close>
  resume :: "u64 list"  \<comment> \<open>rip, cs, rflags, rsp, ss as \<open>iretq\<close> loaded them\<close>

text \<open>\<open>call\<close> of a handler: \<open>h\<close> runs with the return address on the stack.\<close>

definition iretq :: "cpu \<Rightarrow> cpu option" where
  "iretq m = (if length (stack m) < 5 then None
     else Some (m\<lparr>resume := take 5 (stack m), stack := drop 5 (stack m), running := False\<rparr>))"

fun exec :: "(cpu \<Rightarrow> cpu option) \<Rightarrow> instr \<Rightarrow> cpu \<Rightarrow> cpu option" where
  "exec h (Push r) m = Some (m\<lparr>stack := regs m r # stack m\<rparr>)"
| "exec h (Pop r) m = (case stack m of [] \<Rightarrow> None
     | v # st \<Rightarrow> Some (m\<lparr>regs := (regs m)(r := v), stack := st\<rparr>))"
| "exec h (CallHandler ret) m = h (m\<lparr>stack := ret # stack m\<rparr>)"
| "exec h Iretq m = iretq m"
| "exec h (AddRsp n) m = (if length (stack m) < n div 8 then None
     else Some (m\<lparr>stack := drop (n div 8) (stack m)\<rparr>))"

fun run :: "(cpu \<Rightarrow> cpu option) \<Rightarrow> instr list \<Rightarrow> cpu \<Rightarrow> cpu option" where
  "run h [] m = Some m"
| "run h (i # is) m = (if running m then Option.bind (exec h i m) (run h is) else Some m)"

text \<open>A C function that returns: it may change registers, and takes its return address off
  the stack. The default handler's body is the single instruction \<open>iretq\<close>, executed above
  its return address (the kernel is compiled with -O1, which gives it no frame).\<close>

definition returns :: "((reg \<Rightarrow> u64) \<Rightarrow> reg \<Rightarrow> u64) \<Rightarrow> cpu \<Rightarrow> cpu option" where
  "returns f m = Some (m\<lparr>regs := f (regs m), stack := tl (stack m)\<rparr>)"

definition helper_interrupt_service_routine :: "cpu \<Rightarrow> cpu option" where
  "helper_interrupt_service_routine m = iretq m"

section \<open>The stubs\<close>

definition default_interrupt_service_routine :: "u64 \<Rightarrow> instr list" where
  "default_interrupt_service_routine ret =
     [Push RAX, Push RCX, Push RDX, Push RBX, Push RSI, Push RDI, Push R10, Push R11, Push R12,
      Push R13, Push R14, Push R15, Push RBP,
      CallHandler ret,
      Pop RAX, Pop RCX, Pop RDX, Pop RBX, Pop RSI, Pop RDI, Pop R10, Pop R11, Pop R12,
      Pop R13, Pop R14, Pop R15, Pop RBP,
      Iretq,
      AddRsp 8]"

definition pit_interrupt_service_routine :: "u64 \<Rightarrow> instr list" where
  "pit_interrupt_service_routine ret =
     [Push RAX, Push RCX, Push RDX, Push RBX, Push RSI, Push RDI, Push R10, Push R11, Push R12,
      Push R13, Push R14, Push R15, Push RBP,
      CallHandler ret,
      Pop RAX, Pop RCX, Pop RDX, Pop RBX, Pop RSI, Pop RDI, Pop R10, Pop R11, Pop R12,
      Pop R13, Pop R14, Pop R15, Pop RBP,
      Iretq,
      AddRsp 8]"

definition keyboard_interrupt_service_routine :: "u64 \<Rightarrow> instr list" where
  "keyboard_interrupt_service_routine ret =
     [Push RAX, Push RCX, Push RDX, Push RBX, Push RSI, Push RDI, Push R10, Push R11, Push R12,
      Push R13, Push R14, Push R15, Push RBP,
      CallHandler ret,
      Pop RAX, Pop RCX, Pop RDX, Pop RBX, Pop RSI, Pop RDI, Pop R10, Pop R11, Pop R12,
      Pop R13, Pop R14, Pop R15, Pop RBP,
      Iretq,
      AddRsp 8]"

definition pushad :: "instr list" where
  "pushad = [Push RAX, Push RBX, Push RCX, Push RDX, Push RDI, Push RSI, Push R10, Push R11,
     Push R12, Push R13, Push R14, Push R15]"

definition popad :: "instr list" where
  "popad = [Pop RAX, Pop RBX, Pop RCX, Pop RDX, Pop RDI, Pop RSI, Pop R10, Pop R11,
     Pop R12, Pop R13, Pop R14, Pop R15, Pop RBP, Iretq]"

text \<open>What the processor has on the stack when a stub is entered: its five-word frame, above
  it an error code for the exceptions that have one.\<close>

definition entered :: "(reg \<Rightarrow> u64) \<Rightarrow> u64 list \<Rightarrow> u64 list \<Rightarrow> cpu" where
  "entered rf err frame = \<lparr>regs = rf, stack = err @ frame, running = True, resume = []\<rparr>"

text \<open>The registers a stub saves, in push order.\<close>

definition saved :: "reg list" where
  "saved = [RAX, RCX, RDX, RBX, RSI, RDI, R10, R11, R12, R13, R14, R15, RBP]"

section \<open>Pushes and pops\<close>

lemma run_append:
  "run h (xs @ ys) m = Option.bind (run h xs m) (run h ys)"
proof (induction xs arbitrary: m)
  case Nil
  then show ?case by simp
next
  case (Cons x xs)
  then show ?case
    by (cases "running m"; cases "exec h x m"; cases ys) auto
qed

lemma run_pushes:
  "running m \<Longrightarrow> run h (map Push rs) m = Some (m\<lparr>stack := rev (map (regs m) rs) @ stack m\<rparr>)"
  by (induction rs arbitrary: m) auto

fun load_regs :: "reg list \<Rightarrow> u64 list \<Rightarrow> (reg \<Rightarrow> u64) \<Rightarrow> reg \<Rightarrow> u64" where
  "load_regs (r # rs) (v # vs) f = load_regs rs vs (f(r := v))"
| "load_regs _ _ f = f"

text \<open>Pops load the registers in the order in which they are named.\<close>

lemma run_pops:
  "running m \<Longrightarrow> length vs = length rs \<Longrightarrow> stack m = vs @ st \<Longrightarrow>
     run h (map Pop rs) m = Some (m\<lparr>regs := load_regs rs vs (regs m), stack := st\<rparr>)"
proof (induction rs arbitrary: m vs)
  case Nil
  then show ?case by simp
next
  case (Cons r rs)
  then obtain v ws where "vs = v # ws" by (cases vs) auto
  then show ?case using Cons by (simp add: fun_upd_def)
qed

lemma load_regs_other: "r \<notin> set rs \<Longrightarrow> load_regs rs vs f r = f r"
  by (induction rs vs f rule: load_regs.induct) auto

lemma load_regs_map:
  "distinct rs \<Longrightarrow> length vs = length rs \<Longrightarrow> map (load_regs rs vs f) rs = vs"
proof (induction rs arbitrary: vs f)
  case Nil
  then show ?case by simp
next
  case (Cons q rs)
  then obtain v ws where "vs = v # ws" by (cases vs) auto
  then show ?case using Cons by (simp add: load_regs_other)
qed

definition save_call_restore :: "reg list \<Rightarrow> u64 \<Rightarrow> instr list" where
  "save_call_restore rs ret = map Push rs @ [CallHandler ret] @ map Pop rs @ [Iretq]"

text \<open>Saving and restoring in the same order reverses the values.\<close>

lemma save_call_restore_run:
  assumes "distinct rs" and "5 \<le> length st"
  shows "\<exists>m. run (returns f) (save_call_restore rs ret)
      \<lparr>regs = rf, stack = st, running = True, resume = []\<rparr> = Some m
    \<and> map (regs m) rs = rev (map rf rs) \<and> (\<forall>r. r \<notin> set rs \<longrightarrow> regs m r = f rf r)
    \<and> resume m = take 5 st \<and> stack m = drop 5 st \<and> \<not> running m"
  unfolding save_call_restore_def run_append
  using assms
  by (simp add: run_pushes run_append run_pops [where vs = "rev (map rf rs)" and st = st]
      load_regs_map load_regs_other returns_def iretq_def)

lemma run_end: "\<not> running m \<Longrightarrow> run h is m = Some m"
  by (cases "is") auto

lemma stub_bodies:
  "default_interrupt_service_routine ret = save_call_restore saved ret @ [AddRsp 8]"
  "pit_interrupt_service_routine ret = save_call_restore saved ret @ [AddRsp 8]"
  "keyboard_interrupt_service_routine ret = save_call_restore saved ret @ [AddRsp 8]"
  by (simp_all add: default_interrupt_service_routine_def pit_interrupt_service_routine_def
      keyboard_interrupt_service_routine_def save_call_restore_def saved_def)

lemma stub_run:
  "\<exists>m. run (returns f) (save_call_restore saved ret @ [AddRsp 8]) (entered rf [] [rip, cs, rflags, rsp, ss]) = Some m
     \<and> map (regs m) saved = rev (map rf saved)
     \<and> regs m R8 = f rf R8 \<and> regs m R9 = f rf R9 \<and> regs m R10 = rf R10
     \<and> resume m = [rip, cs, rflags, rsp, ss] \<and> stack m = []"
proof -
  have d: "distinct saved" and r: "R8 \<notin> set saved" "R9 \<notin> set saved"
    by (simp_all add: saved_def)
  have ten: "map g saved = rev (map rf saved) \<Longrightarrow> g R10 = rf R10" for g
    by (simp add: saved_def)
  obtain m where m: "run (returns f) (save_call_restore saved ret) (entered rf [] [rip, cs, rflags, rsp, ss]) = Some m"
    "map (regs m) saved = rev (map rf saved)" "\<forall>r. r \<notin> set saved \<longrightarrow> regs m r = f rf r"
    "resume m = [rip, cs, rflags, rsp, ss]" "stack m = []" "\<not> running m"
    using save_call_restore_run [OF d, of "[rip, cs, rflags, rsp, ss]" f ret rf]
    by (auto simp: entered_def)
  show ?thesis using m r ten [OF m(2)] by (simp add: run_append run_end)
qed

text \<open>C18: The timer and keyboard stubs return to the interrupted instruction, but not with
  the interrupted registers. They pop in the order in which they pushed, so the thirteen
  saved registers come back reversed - \<open>rax\<close> holds the old \<open>rbp\<close>, \<open>rcx\<close> the old \<open>r15\<close> and
  so on, only \<open>r10\<close> is right - and \<open>r8\<close> and \<open>r9\<close>, which they do not save, are what the C
  handler left in them.\<close>

theorem stub_reverses_registers:
  "\<exists>m m'. run (returns f) (pit_interrupt_service_routine ret) (entered rf [] [rip, cs, rflags, rsp, ss]) = Some m
    \<and> run (returns f) (keyboard_interrupt_service_routine ret) (entered rf [] [rip, cs, rflags, rsp, ss]) = Some m'
    \<and> m = m'
    \<and> map (regs m) saved = rev (map rf saved)
    \<and> regs m R8 = f rf R8 \<and> regs m R9 = f rf R9 \<and> regs m R10 = rf R10
    \<and> resume m = [rip, cs, rflags, rsp, ss] \<and> stack m = []"
  using stub_run [of f ret rf rip cs rflags rsp ss] unfolding stub_bodies by blast

text \<open>The default handler never gets back to the interrupted code. Its C function
  executes \<open>iretq\<close> on top of its own return address and the thirteen saved registers: the
  processor is sent to the return address with \<open>cs\<close> taken from the interrupted \<open>rbp\<close>,
  \<open>rflags\<close> from \<open>r15\<close>, \<open>rsp\<close> from \<open>r14\<close> and \<open>ss\<close> from \<open>r13\<close>; no register is restored, and
  the interrupt frame is still on the stack, whether or not the exception has an error code.\<close>

theorem default_handler_leaves_frame:
  "\<exists>m. run helper_interrupt_service_routine (default_interrupt_service_routine ret)
        (entered rf err [rip, cs, rflags, rsp, ss]) = Some m
    \<and> resume m = [ret, rf RBP, rf R15, rf R14, rf R13]
    \<and> stack m = map rf [R12, R11, R10, RDI, RSI, RBX, RDX, RCX, RAX] @ err @ [rip, cs, rflags, rsp, ss]
    \<and> regs m = rf"
  by (simp add: default_interrupt_service_routine_def helper_interrupt_service_routine_def
      iretq_def entered_def)

text \<open>The unused inline pair of asm_util.h has the stubs' flaw, and pops a thirteenth register:
  run one after the other, \<open>popad\<close> takes \<open>rbp\<close> from the word below, the frame's \<open>rip\<close>.\<close>

lemma pushad_popad_returns_wrong:
  "\<exists>m. run h (pushad @ popad) (entered rf [] [rip, cs, rflags, rsp, ss, w]) = Some m
     \<and> regs m RAX = rf R15 \<and> regs m R15 = rf RAX \<and> regs m RBP = rip
     \<and> resume m = [cs, rflags, rsp, ss, w]"
  by (simp add: pushad_def popad_def entered_def iretq_def)

end
