(* ===== verification/Kmain.thy ===== *)
theory Kmain
  imports Gdt Pit Ps2 Pci
begin

text \<open>
  The kernel's start-up of sys/main.c: the attribute loop and the initialisation sequence of
  \<open>boot\<close>, the walk over the boot loader's module records and the memory map of \<open>start\<close>, the
  status-row banners, and then the machine's life in the final \<open>while (1)\<close>: a step relation
  whose steps are the interrupts the installed handlers take. The stack switch of \<open>boot\<close> has
  no effect on the state modelled here; what is on the loader's stack, the linker's symbols
  and the addresses of the statics are parameters.
\<close>

section \<open>State\<close>

record kernel =
  con :: console
  gdts :: gdt_state
  idts :: idt_state
  timer :: pit
  kbd :: keyboard
  pcis :: pci
  io :: io_log

text \<open>The link-time addresses, and the loader's data: \<open>modules\<close> is memory, as 32-bit words,
  from the module list on; reading past its end is outside the model (\<open>None\<close>).\<close>

record image =
  tss_addr :: u64
  idt_addr :: u64
  default_stub :: u64
  pit_stub :: u64
  keyboard_stub :: u64
  tarfs_start :: u64
  tarfs_end :: u64
  physfree :: u64
  modules :: "u32 list"

section \<open>The banners\<close>

definition setUpWelcomeScreen :: "console \<Rightarrow> console" where
  "setUpWelcomeScreen c =
     (let m = snd (put_string (bytes ''Time :'' @ [0]) (TIME_ADDRESS - 16, vram c));
          m = snd (put_string (bytes ''Key Press :'' @ [0]) (KEYPRESS_BANNER, m))
      in c\<lparr>vram := m\<rparr>)"

text \<open>\<open>for (temp2 = 0xb8001; temp2 < 0xb8000 + 160 * 25; temp2 += 2) *temp2 = 7\<close>\<close>

definition white_screen :: "(nat \<Rightarrow> u8) \<Rightarrow> nat \<Rightarrow> u8" where
  "white_screen m = for_upto 0 (160 * 25 div 2) (\<lambda>i m. m(0xb8001 + 2 * i := 7)) m"

section \<open>The loader's module records\<close>

text \<open>\<open>while (modulep[0] != 0x9001) modulep += modulep[1] + 2\<close> on a \<open>uint32_t *\<close>: the step is
  in words and is computed in 32 bits. The walk may run for ever.\<close>

partial_function (option) find_smap :: "u32 list \<Rightarrow> nat \<Rightarrow> nat option" where
  "find_smap ml i =
     (if length ml \<le> i then None
      else if ml ! i = 0x9001 then Some i
      else if length ml \<le> Suc i then None
      else find_smap ml (i + unat (ml ! Suc i + 2)))"

record smap_t =
  smap_base :: u64
  smap_length :: u64
  smap_type :: u32

definition smap_at :: "u32 list \<Rightarrow> nat \<Rightarrow> smap_t option" where
  "smap_at ml j =
     (if length ml < j + 5 then None
      else Some \<lparr>smap_base = ucast (ml ! j) OR push_bit 32 (ucast (ml ! (j + 1))),
                 smap_length = ucast (ml ! (j + 2)) OR push_bit 32 (ucast (ml ! (j + 3))),
                 smap_type = ml ! (j + 4)\<rparr>)"

definition print_smap :: "u32 list \<Rightarrow> nat \<Rightarrow> console \<Rightarrow> console option" where
  "print_smap ml j c = do {
     s \<leftarrow> smap_at ml j;
     if smap_type s = 1 \<and> smap_length s \<noteq> 0
     then kprintf (bytes (''Available Physical Memory [%p-%p]'' @ [CHR 0x0A]))
            [ArgU64 (smap_base s), ArgU64 (smap_base s + smap_length s)] c
     else Some c
   }"

text \<open>The entries are 20 bytes (5 words) each, the first right after the record's header; the
  loop goes on while the entry starts below \<open>modulep[1]\<close> bytes.\<close>

definition print_smaps :: "u32 list \<Rightarrow> nat \<Rightarrow> console \<Rightarrow> console option" where
  "print_smaps ml i c =
     (if length ml \<le> Suc i then None
      else for_list (\<lambda>k. print_smap ml (i + 2 + 5 * k)) [0..<(unat (ml ! Suc i) + 19) div 20] c)"

section \<open>start and boot\<close>

text \<open>\<open>start\<close>, up to its idle loop.\<close>

definition start :: "device \<Rightarrow> image \<Rightarrow> kernel \<Rightarrow> kernel option" where
  "start dev img k = do {
     i \<leftarrow> find_smap (modules img) 0;
     c \<leftarrow> print_smaps (modules img) i (con k);
     c \<leftarrow> kprintf (bytes (''physfree %p'' @ [CHR 0x0A])) [ArgU64 (physfree img)] c;
     c \<leftarrow> kprintf (bytes (''tarfs in [%p:%p]'' @ [CHR 0x0A]))
            [ArgU64 (tarfs_start img), ArgU64 (tarfs_end img)] c;
     let c = setUpWelcomeScreen c;
     (p, log) \<leftarrow> init_pci_devInfo dev (pcis k, io k);
     Some (k\<lparr>con := c, pcis := p, io := log, idts := enable_Interrupts (idts k)\<rparr>)
   }"

abbreviation (input) PROT_MODE_MASTER_PIC_VECTOR_OFFSET :: u8 where
  "PROT_MODE_MASTER_PIC_VECTOR_OFFSET \<equiv> 0x20"
abbreviation (input) PROT_MODE_SLAVE_PIC_VECTOR_OFFSET :: u8 where
  "PROT_MODE_SLAVE_PIC_VECTOR_OFFSET \<equiv> 0x28"

definition boot :: "device \<Rightarrow> image \<Rightarrow> kernel \<Rightarrow> kernel option" where
  "boot dev img k = do {
     let c = (con k)\<lparr>vram := white_screen (vram (con k))\<rparr>;
     let idt = disable_Interrupts (idts k);
     g \<leftarrow> init_gdt (tss_addr img) (gdts k);
     (idt, c) \<leftarrow> init_Idt (idt_addr img) (default_stub img) idt c;
     let log = init_pic dev PROT_MODE_MASTER_PIC_VECTOR_OFFSET PROT_MODE_SLAVE_PIC_VECTOR_OFFSET (io k);
     (t, p, log) \<leftarrow> init_pit (pit_stub img) (s_Idtd idt) (timer k) log;
     t \<leftarrow> init_ps2_controller (keyboard_stub img) t;
     start dev img (k\<lparr>con := c, gdts := g, idts := idt\<lparr>s_Idtd := t\<rparr>, timer := p, io := log\<rparr>)
   }"

section \<open>The idle loop\<close>

text \<open>In the idle loop only interrupts act. A line's interrupt is taken when interrupts are
  enabled, and goes where the gate of its vector points; the two stubs call the handlers of
  the timer and the keyboard. (What the stubs do to the interrupted registers is the subject
  of IsrStubs; the idle loop does not use them.)\<close>

definition timer_interrupt :: "kernel \<Rightarrow> kernel" where
  "timer_interrupt k =
     (let (p, c, log) = helper_calculate_timer (timer k, con k, io k)
      in k\<lparr>timer := p, con := c, io := log\<rparr>)"

definition keyboard_interrupt :: "device \<Rightarrow> kernel \<Rightarrow> kernel" where
  "keyboard_interrupt dev k =
     (let (s, c, log) = helper_keyboard_handler dev (kbd k, con k, io k)
      in k\<lparr>kbd := s, con := c, io := log\<rparr>)"

text \<open>Entering the gate of a vector, and a line's interrupt, which needs the interrupt flag.\<close>

definition enter_gate :: "device \<Rightarrow> image \<Rightarrow> u16 \<Rightarrow> kernel \<Rightarrow> kernel option" where
  "enter_gate dev img v k =
     (let h = get_ir_from_idt v (s_Idtd (idts k))
      in if h = pit_stub img then Some (timer_interrupt k)
         else if h = keyboard_stub img then Some (keyboard_interrupt dev k)
         else None)"

definition take_interrupt :: "device \<Rightarrow> image \<Rightarrow> u16 \<Rightarrow> kernel \<Rightarrow> kernel option" where
  "take_interrupt dev img v k = (if interrupt_flag (idts k) then enter_gate dev img v k else None)"

text \<open>\<open>int $32\<close>, which does not look at the flag.\<close>

definition test_interrupt_zero :: "device \<Rightarrow> image \<Rightarrow> kernel \<Rightarrow> kernel option" where
  "test_interrupt_zero dev img k = enter_gate dev img 32 k"

inductive idle :: "device \<Rightarrow> image \<Rightarrow> kernel \<Rightarrow> u16 list \<Rightarrow> kernel \<Rightarrow> bool"
  for dev img k where
  idle_start: "idle dev img k [] k"
| idle_interrupt: "idle dev img k vs k1 \<Longrightarrow> v = 32 \<or> v = 33 \<Longrightarrow> take_interrupt dev img v k1 = Some k2 \<Longrightarrow>
    idle dev img k (vs @ [v]) k2"

inductive_cases idle_snocE: "idle dev img k (vs @ [v]) k2"

section \<open>The screen\<close>

text \<open>The cells the two interrupt handlers write: the key display and the clock.\<close>

definition display_cell :: "nat \<Rightarrow> bool" where
  "display_cell x \<longleftrightarrow> TIME_ADDRESS \<le> x \<and> x < TIME_ADDRESS + 22
     \<or> x \<in> {CTRL_KEYPRESS_ADDRESS + 1, CTRL_KEYPRESS_ADDRESS + 2, KEYPRESS_ADDRESS + 1, KEYPRESS_ADDRESS + 2}"

definition banners :: "(nat \<Rightarrow> u8) \<Rightarrow> bool" where
  "banners m \<longleftrightarrow> screen_text m KEYPRESS_BANNER 11 = bytes ''Key Press :''
     \<and> screen_text m (TIME_ADDRESS - 16) 6 = bytes ''Time :''"

lemma screen_text_cong:
  "(\<And>i. i < n \<Longrightarrow> m (a + 2 * i) = m' (a + 2 * i)) \<Longrightarrow> screen_text m a n = screen_text m' a n"
  by (simp add: screen_text_def)

lemmas screen_addresses = TIME_ADDRESS_def KEYPRESS_BANNER_def CTRL_KEYPRESS_ADDRESS_def
  KEYPRESS_ADDRESS_def BASE_ADDR_def

lemma banners_frame:
  assumes "banners m" and "\<And>x. \<not> display_cell x \<Longrightarrow> m' x = m x"
  shows "banners m'"
proof -
  have "screen_text m' KEYPRESS_BANNER 11 = screen_text m KEYPRESS_BANNER 11"
    by (rule screen_text_cong, rule assms(2)) (simp add: display_cell_def screen_addresses)
  moreover have "screen_text m' (TIME_ADDRESS - 16) 6 = screen_text m (TIME_ADDRESS - 16) 6"
    by (rule screen_text_cong, rule assms(2)) (simp add: display_cell_def screen_addresses)
  ultimately show ?thesis using assms(1) by (simp add: banners_def)
qed

lemma welcome_vram:
  "vram (setUpWelcomeScreen c) =
     snd (put_cells (bytes ''Key Press :'') (KEYPRESS_BANNER,
       snd (put_cells (bytes ''Time :'') (TIME_ADDRESS - 16, vram c))))"
  by (simp add: setUpWelcomeScreen_def put_string_cells del: put_cells.simps)

lemma welcome_banners: "banners (vram (setUpWelcomeScreen c))"
proof -
  let ?t = "snd (put_cells (bytes ''Time :'') (TIME_ADDRESS - 16, vram c))"
  have "screen_text (vram (setUpWelcomeScreen c)) KEYPRESS_BANNER (length (bytes ''Key Press :'')) = bytes ''Key Press :''"
    unfolding welcome_vram by (rule screen_text_put_cells)
  moreover have "screen_text (vram (setUpWelcomeScreen c)) (TIME_ADDRESS - 16) 6 = screen_text ?t (TIME_ADDRESS - 16) 6"
    unfolding welcome_vram
    by (rule screen_text_cong, rule put_cells_frame) (simp add: screen_addresses)
  moreover have "screen_text ?t (TIME_ADDRESS - 16) (length (bytes ''Time :'')) = bytes ''Time :''"
    by (rule screen_text_put_cells)
  moreover have "length (bytes ''Key Press :'') = 11" "length (bytes ''Time :'') = 6" by simp_all
  ultimately show ?thesis by (simp only: banners_def)
qed

lemma welcome_cursor [simp]:
  "current_height (setUpWelcomeScreen c) = current_height c"
  "current_width (setUpWelcomeScreen c) = current_width c"
  by (simp_all add: setUpWelcomeScreen_def Let_def)

section \<open>Interrupts in the idle loop\<close>

lemma printTime_cursor [simp]:
  "current_height (printTime t c) = current_height c" "current_width (printTime t c) = current_width c"
  by (simp_all add: printTime_def Let_def case_prod_unfold)

lemma timer_interrupt_frame [frame]:
  "\<not> display_cell x \<Longrightarrow> vram (con (timer_interrupt k)) x = vram (con k) x"
  "current_height (con (timer_interrupt k)) = current_height (con k)"
  "current_width (con (timer_interrupt k)) = current_width (con k)"
  "idts (timer_interrupt k) = idts k" "gdts (timer_interrupt k) = gdts k"
  "pcis (timer_interrupt k) = pcis k" "kbd (timer_interrupt k) = kbd k"
  by (auto simp: timer_interrupt_def helper_calculate_timer_def Let_def printTime_frame display_cell_def)

lemma timer_interrupt_io:
  "io (timer_interrupt k) = io k @ [Out8 0x20 0x20]"
  "g_pit_count (timer (timer_interrupt k)) = g_pit_count (timer k) + 1"
  by (simp_all add: timer_interrupt_def helper_calculate_timer_def Let_def outportb_def)

lemma keyboard_interrupt_frame [frame]:
  "\<not> display_cell x \<Longrightarrow> vram (con (keyboard_interrupt dev k)) x = vram (con k) x"
  "current_height (con (keyboard_interrupt dev k)) = current_height (con k)"
  "current_width (con (keyboard_interrupt dev k)) = current_width (con k)"
  "idts (keyboard_interrupt dev k) = idts k" "gdts (keyboard_interrupt dev k) = gdts k"
  "pcis (keyboard_interrupt dev k) = pcis k" "timer (keyboard_interrupt dev k) = timer k"
  by (auto simp: keyboard_interrupt_def keyboard_handler_eq Let_def switch_key_console
      display_key_frame display_cell_def)

lemma keyboard_interrupt_io:
  "\<exists>key. io (keyboard_interrupt dev k) = io k @ [In8 0x60 key, Out8 0x20 0x20]"
  by (simp add: keyboard_interrupt_def keyboard_handler_eq Let_def)

text \<open>The two handlers are in place and interrupts are on.\<close>

definition ready :: "image \<Rightarrow> kernel \<Rightarrow> bool" where
  "ready img k \<longleftrightarrow> interrupt_flag (idts k)
     \<and> get_ir_from_idt 32 (s_Idtd (idts k)) = pit_stub img
     \<and> get_ir_from_idt 33 (s_Idtd (idts k)) = keyboard_stub img
     \<and> keyboard_stub img \<noteq> pit_stub img"

lemma ready_take:
  assumes "ready img k"
  shows "take_interrupt dev img 32 k = Some (timer_interrupt k)"
    and "take_interrupt dev img 33 k = Some (keyboard_interrupt dev k)"
  using assms by (simp_all add: take_interrupt_def enter_gate_def ready_def Let_def)

text \<open>The test instruction raises the vector of the timer, not vector 0: where it is executed a
  tick is counted.\<close>

lemma test_interrupt_is_a_tick:
  "ready img k \<Longrightarrow> test_interrupt_zero dev img k = Some (timer_interrupt k)"
  by (simp add: test_interrupt_zero_def enter_gate_def ready_def Let_def)

lemma ready_kept:
  "ready img k \<Longrightarrow> ready img (timer_interrupt k)"
  "ready img k \<Longrightarrow> ready img (keyboard_interrupt dev k)"
  by (simp_all add: ready_def frame)

text \<open>What the idle loop keeps, from its first state \<open>k\<close>.\<close>

definition idle_inv :: "image \<Rightarrow> kernel \<Rightarrow> u16 list \<Rightarrow> kernel \<Rightarrow> bool" where
  "idle_inv img k vs k' \<longleftrightarrow> ready img k'
     \<and> (\<forall>x. \<not> display_cell x \<longrightarrow> vram (con k') x = vram (con k) x)
     \<and> current_height (con k') = current_height (con k) \<and> current_width (con k') = current_width (con k)
     \<and> idts k' = idts k \<and> gdts k' = gdts k \<and> pcis k' = pcis k
     \<and> g_pit_count (timer k') = g_pit_count (timer k) + of_nat (length (filter (\<lambda>v. v = 32) vs))
     \<and> written 0x20 (io k') = written 0x20 (io k) @ replicate (length vs) 0x20"

lemma idle_keeps:
  assumes "idle dev img k vs k'" and "ready img k"
  shows "idle_inv img k vs k'"
  using assms
proof (induction rule: idle.induct)
  case idle_start
  then show ?case by (simp add: idle_inv_def)
next
  case (idle_interrupt vs k1 v k2)
  then have inv: "idle_inv img k vs k1" and r: "ready img k1" by (simp_all add: idle_inv_def)
  from idle_interrupt(2) show ?case
  proof
    assume v: "v = 32"
    then have "k2 = timer_interrupt k1" using idle_interrupt(3) ready_take [OF r] by simp
    then show ?thesis using inv v r ready_kept(1) [OF r]
      by (simp add: idle_inv_def frame timer_interrupt_io replicate_append_same)
  next
    assume v: "v = 33"
    obtain key where io: "io (keyboard_interrupt dev k1) = io k1 @ [In8 0x60 key, Out8 0x20 0x20]"
      using keyboard_interrupt_io by blast
    have "k2 = keyboard_interrupt dev k1" using v idle_interrupt(3) ready_take [OF r] by simp
    then show ?thesis using inv v r ready_kept(2) [OF r] io
      by (simp add: idle_inv_def frame replicate_append_same)
  qed
qed

section \<open>The initialisation sequence\<close>

lemma available_format_ok:
  "format_ok (bytes (''Available Physical Memory [%p-%p]'' @ [CHR 0x0A])) [ArgU64 a, ArgU64 b]"
  "format_ok (bytes (''physfree %p'' @ [CHR 0x0A])) [ArgU64 a]"
  "format_ok (bytes (''tarfs in [%p:%p]'' @ [CHR 0x0A])) [ArgU64 a, ArgU64 b]"
  by (simp_all add: conv_args_def)

text \<open>A module list that is a memory map of \<open>n\<close> complete entries.\<close>

definition memory_map :: "u32 list \<Rightarrow> nat \<Rightarrow> bool" where
  "memory_map ml n \<longleftrightarrow> length ml = 2 + 5 * n \<and> ml ! 0 = 0x9001 \<and> unat (ml ! 1) = 20 * n"

lemma find_smap_first: "0 < length ml \<Longrightarrow> ml ! 0 = 0x9001 \<Longrightarrow> find_smap ml 0 = Some 0"
  by (subst find_smap.simps) simp

lemma print_smaps_total:
  assumes "memory_map ml n"
  shows "\<exists>c'. print_smaps ml 0 c = Some c'"
proof -
  have n: "(unat (ml ! Suc 0) + 19) div 20 = n" and l: "length ml = 2 + 5 * n"
    using assms by (simp_all add: memory_map_def)
  have "\<exists>c'. print_smap ml (2 + 5 * k) d = Some c'" if "k < n" for k d
  proof -
    have "\<exists>s. smap_at ml (2 + 5 * k) = Some s"
      using that l by (simp add: smap_at_def)
    then obtain s where s: "smap_at ml (2 + 5 * k) = Some s" by blast
    show ?thesis
      using kprintf_total [OF available_format_ok(1), of "smap_base s" "smap_base s + smap_length s" d] s
      by (simp add: print_smap_def del: kprintf.simps)
  qed
  then have "\<exists>c'. for_list (\<lambda>k. print_smap ml (0 + 2 + 5 * k)) [0..<n] c = Some c' \<and> True"
    by (intro for_list_total [where I = "\<lambda>_. True"]) simp_all
  then show ?thesis using l by (auto simp: print_smaps_def n)
qed

lemma start_runs:
  assumes "memory_map (modules img) n"
    and pci: "init_pci_devInfo dev (pcis k, io k) = Some (p, log)"
  shows "\<exists>c. start dev img k = Some (k\<lparr>con := setUpWelcomeScreen c, pcis := p, io := log,
      idts := enable_Interrupts (idts k)\<rparr>)"
proof -
  have "find_smap (modules img) 0 = Some 0"
    using assms(1) by (intro find_smap_first) (auto simp: memory_map_def)
  moreover obtain c1 where "print_smaps (modules img) 0 (con k) = Some c1"
    using print_smaps_total [OF assms(1)] by blast
  moreover obtain c2 where "kprintf (bytes (''physfree %p'' @ [CHR 0x0A])) [ArgU64 (physfree img)] c1 = Some c2"
    using kprintf_total [OF available_format_ok(2)] by blast
  moreover obtain c3 where "kprintf (bytes (''tarfs in [%p:%p]'' @ [CHR 0x0A]))
      [ArgU64 (tarfs_start img), ArgU64 (tarfs_end img)] c2 = Some c3"
    using kprintf_total [OF available_format_ok(3)] by blast
  ultimately show ?thesis
    using pci by (auto simp: start_def simp del: kprintf.simps bytes_Cons)
qed

text \<open>The kernel as it is loaded: its statics hold their initial values, the stubs and the
  default handler are code, and the loader's list is a memory map.\<close>

definition loaded :: "image \<Rightarrow> kernel \<Rightarrow> bool" where
  "loaded img k \<longleftrightarrow> gdt (gdts k) = initial_gdt \<and> (\<exists>a. gdtr (gdts k) = initial_gdtr a)
     \<and> idt_inv (s_Idtd (idts k))
     \<and> length (devInfo (pcis k)) = 8 \<and> devCount (pcis k) = 0
     \<and> default_stub img \<noteq> 0 \<and> pit_stub img \<noteq> 0 \<and> keyboard_stub img \<noteq> 0
     \<and> keyboard_stub img \<noteq> pit_stub img
     \<and> (\<exists>n. memory_map (modules img) n)"

text \<open>The table after both drivers are in place.\<close>

lemma drivers_installed:
  assumes "idt_inv t" and "p \<noteq> 0" and "q \<noteq> 0"
  obtains t1 t2 where "set_ir_in_idt 32 p t = Some t1" "set_ir_in_idt 33 q t1 = Some t2" "idt_inv t2"
    "get_ir_from_idt 32 t2 = p" "get_ir_from_idt 33 t2 = q"
    "\<forall>w < 256. w \<noteq> 32 \<longrightarrow> w \<noteq> 33 \<longrightarrow> get_ir_from_idt w t2 = get_ir_from_idt w t"
proof -
  have v: "(32 :: u16) < 256" "(33 :: u16) < 256" by simp_all
  obtain t1 where t1: "set_ir_in_idt 32 p t = Some t1"
    using idt_handlers.install_defined [OF assms(1) v(1) assms(2)] by blast
  have i1: "idt_inv t1" using idt_handlers.install_wf [OF assms(1) v(1) assms(2) t1] .
  obtain t2 where t2: "set_ir_in_idt 33 q t1 = Some t2"
    using idt_handlers.install_defined [OF i1 v(2) assms(3)] by blast
  show ?thesis
  proof (rule that [OF t1 t2])
    show "idt_inv t2" using idt_handlers.install_wf [OF i1 v(2) assms(3) t2] .
    show "get_ir_from_idt 33 t2 = q" using idt_handlers.install_same [OF i1 v(2) assms(3) t2] .
    show "get_ir_from_idt 32 t2 = p"
      using idt_handlers.install_other [OF i1 v(2) assms(3) t2 v(1)]
        idt_handlers.install_same [OF assms(1) v(1) assms(2) t1] by simp
    show "\<forall>w < 256. w \<noteq> 32 \<longrightarrow> w \<noteq> 33 \<longrightarrow> get_ir_from_idt w t2 = get_ir_from_idt w t"
      using idt_handlers.install_other [OF i1 v(2) assms(3) t2]
        idt_handlers.install_other [OF assms(1) v(1) assms(2) t1] by simp
  qed
qed

lemma default_gates:
  assumes "w < 256"
  shows "get_ir_from_idt w (replicate 256 (gate_for 0x8E h)) = h"
proof -
  have "replicate 256 (gate_for 0x8E h) ! unat w = gate_for 0x8E h"
    using assms by (intro nth_replicate) (simp add: vector_less)
  then show ?thesis by (simp only: get_ir_from_idt_eq [OF assms] get_ir_gate_for)
qed

lemma boot_runs_all:
  assumes l: "loaded img k" and cfg: "config_mechanism dev cfg" and few: "length (devices cfg) \<le> 8"
  obtains k' c where "boot dev img k = Some k'" "ready img k'"
    "\<forall>w < 256. w \<noteq> 32 \<longrightarrow> w \<noteq> 33 \<longrightarrow> get_ir_from_idt w (s_Idtd (idts k')) = default_stub img"
    "gdt (gdts k') = tss_loaded (tss_addr img) initial_gdt" "cpu_cs (gdts k') = 8"
    "con k' = setUpWelcomeScreen c"
    "take (devCount (pcis k')) (devInfo (pcis k')) = devices cfg" "g_pit_count (timer k') = 0"
    "time_in_sec (timer k') = time_in_sec (timer k)" "kbd k' = kbd k"
proof -
  let ?c = "(con k)\<lparr>vram := white_screen (vram (con k))\<rparr>"
  let ?i = "disable_Interrupts (idts k)"
  obtain a where g: "gdt (gdts k) = initial_gdt" "gdtr (gdts k) = initial_gdtr a"
    using l by (auto simp: loaded_def)
  obtain n where mm: "memory_map (modules img) n" using l by (auto simp: loaded_def)
  have nz: "pit_stub img \<noteq> 0" "keyboard_stub img \<noteq> 0" "default_stub img \<noteq> 0"
    using l by (simp_all add: loaded_def)
  have "idt_inv (s_Idtd ?i)" using l by (simp add: loaded_def disable_Interrupts_def)
  then obtain c1 where idt: "init_Idt (idt_addr img) (default_stub img) ?i ?c =
      Some (?i\<lparr>s_Idtr := \<lparr>limit = 4095, base = idt_addr img\<rparr>,
        s_Idtd := replicate 256 (gate_for 0x8E (default_stub img)),
        loaded_idtr := Some \<lparr>limit = 4095, base = idt_addr img\<rparr>\<rparr>, c1)"
    using init_Idt_eq nz(3) by blast
  let ?t = "replicate 256 (gate_for 0x8E (default_stub img))"
  have "idt_inv ?t" by (simp only: idt_inv_def length_replicate)
  then obtain t1 t2 where t: "set_ir_in_idt 32 (pit_stub img) ?t = Some t1"
      "set_ir_in_idt 33 (keyboard_stub img) t1 = Some t2" "get_ir_from_idt 32 t2 = pit_stub img"
      "get_ir_from_idt 33 t2 = keyboard_stub img"
      "\<forall>w < 256. w \<noteq> 32 \<longrightarrow> w \<noteq> 33 \<longrightarrow> get_ir_from_idt w t2 = get_ir_from_idt w ?t"
    by (rule drivers_installed [OF _ nz(1,2)])
  define p where "p = (timer k)\<lparr>g_pit_count := 0\<rparr>"
  obtain log where pit: "init_pit (pit_stub img) ?t (timer k) (init_pic dev 0x20 0x28 (io k)) = Some (t1, p, log)"
    using t(1) by (simp add: init_pit_def Let_def p_def)
  have p0: "g_pit_count p = 0" "time_in_sec p = time_in_sec (timer k)" by (simp_all add: p_def)
  have kb: "init_ps2_controller (keyboard_stub img) t1 = Some t2"
    using t(2) by (simp add: init_ps2_controller_def)
  obtain log' where scan: "init_pci_devInfo dev (pcis k, log) =
      Some (recorded (devices cfg) (pcis k), log')"
    using pci_scan(1) [OF cfg, of "pcis k" pci_slots log] l few
    by (auto simp: init_pci_devInfo_slots devices_def loaded_def)
  define k1 where "k1 = k\<lparr>con := c1, gdts := (gdts k)\<lparr>gdt := tss_loaded (tss_addr img) initial_gdt,
    cpu_gdtr := Some (initial_gdtr a), cpu_cs := 8, cpu_es := 16, cpu_fs := 16, cpu_gs := 16,
    cpu_ds := 16, cpu_ss := 16, cpu_tr := 0x28\<rparr>,
    idts := ?i\<lparr>s_Idtr := \<lparr>limit = 4095, base = idt_addr img\<rparr>,
        loaded_idtr := Some \<lparr>limit = 4095, base = idt_addr img\<rparr>, s_Idtd := t2\<rparr>, timer := p, io := log\<rparr>"
  have "init_pci_devInfo dev (pcis k1, io k1) = Some (recorded (devices cfg) (pcis k), log')"
    using scan by (simp add: k1_def)
  from start_runs [OF mm this] obtain c2 where st: "start dev img k1 =
      Some (k1\<lparr>con := setUpWelcomeScreen c2, pcis := recorded (devices cfg) (pcis k), io := log',
        idts := enable_Interrupts (idts k1)\<rparr>)" by blast
  have b: "boot dev img k = start dev img k1"
    using init_gdt_total [OF g] idt pit kb
    by (simp add: boot_def k1_def)
  show ?thesis
    by (rule that [where c = c2], subst b, rule st)
      (use t l p0 in \<open>simp_all add: ready_def k1_def enable_Interrupts_def loaded_def default_gates recorded_def\<close>)
qed

lemma boot_runs:
  assumes "loaded img k" and "config_mechanism dev cfg" and "length (devices cfg) \<le> 8"
  obtains k' c where "boot dev img k = Some k'" "ready img k'"
    "\<forall>w < 256. w \<noteq> 32 \<longrightarrow> w \<noteq> 33 \<longrightarrow> get_ir_from_idt w (s_Idtd (idts k')) = default_stub img"
    "gdt (gdts k') = tss_loaded (tss_addr img) initial_gdt" "cpu_cs (gdts k') = 8"
    "con k' = setUpWelcomeScreen c"
    "take (devCount (pcis k')) (devInfo (pcis k')) = devices cfg" "g_pit_count (timer k') = 0"
  by (rule boot_runs_all [OF assms]) blast

section \<open>The module walk\<close>

definition next_module :: "u32 list \<Rightarrow> nat \<Rightarrow> nat" where
  "next_module ml i = i + unat (ml ! Suc i + 2)"

text \<open>The walk passes \<open>n\<close> records, all inside the list and none of them a memory map.\<close>

definition passes :: "u32 list \<Rightarrow> nat \<Rightarrow> nat \<Rightarrow> bool" where
  "passes ml i n \<longleftrightarrow> (\<forall>m < n. Suc ((next_module ml ^^ m) i) < length ml \<and> ml ! ((next_module ml ^^ m) i) \<noteq> 0x9001)"

lemma passes_Suc:
  "passes ml i (Suc n) \<longleftrightarrow> Suc i < length ml \<and> ml ! i \<noteq> 0x9001 \<and> passes ml (next_module ml i) n"
  unfolding passes_def by (auto simp: less_Suc_eq_0_disj funpow_Suc_right simp del: funpow.simps(2))

lemma find_smap_sound:
  "find_smap ml i = Some j \<Longrightarrow>
     j < length ml \<and> ml ! j = 0x9001 \<and> (\<exists>n. j = (next_module ml ^^ n) i \<and> passes ml i n)"
proof (induction ml i j rule: find_smap.raw_induct [rotated, consumes 1])
  case (1 find ml i j)
  show ?case
  proof (cases "ml ! i = 0x9001")
    case True
    then have "j = i" "i < length ml" using 1(2) by (auto split: if_splits)
    then show ?thesis using True by (intro conjI exI [of _ 0]) (auto simp: passes_def)
  next
    case False
    then have i: "Suc i < length ml" and f: "find ml (next_module ml i) = Some j"
      using 1(2) by (auto simp: next_module_def split: if_splits)
    obtain n where "j = (next_module ml ^^ n) (next_module ml i)" "passes ml (next_module ml i) n"
      and j: "j < length ml" "ml ! j = 0x9001"
      using 1(1) [OF f] by auto
    then have "j = (next_module ml ^^ Suc n) i \<and> passes ml i (Suc n)"
      using i False by (simp add: passes_Suc funpow_Suc_right del: funpow.simps(2))
    then show ?thesis using j by blast
  qed
qed

lemma find_smap_complete:
  assumes "passes ml i n" and "(next_module ml ^^ n) i < length ml" and "ml ! ((next_module ml ^^ n) i) = 0x9001"
  shows "find_smap ml i = Some ((next_module ml ^^ n) i)"
  using assms
proof (induction n arbitrary: i)
  case 0
  then show ?case by (subst find_smap.simps) simp
next
  case (Suc n)
  then have "find_smap ml (next_module ml i) = Some ((next_module ml ^^ n) (next_module ml i))"
    by (simp add: passes_Suc funpow_Suc_right del: funpow.simps(2))
  then show ?case
    using Suc.prems(1)
    by (subst find_smap.simps) (simp add: passes_Suc next_module_def funpow_Suc_right del: funpow.simps(2))
qed

section \<open>Properties\<close>

text \<open>When the walk over the module records ends. It returns \<open>j\<close> exactly when some number
  of steps from the first record - each to the position \<open>modulep[1] + 2\<close> words further on -
  reaches a word 0x9001 at \<open>j\<close> inside the list, after passing only complete records of
  another type; in every other case it leaves the list or never ends.\<close>

theorem module_walk_result:
  "find_smap ml i = Some j \<longleftrightarrow>
     (\<exists>n. j = (next_module ml ^^ n) i \<and> passes ml i n \<and> j < length ml \<and> ml ! j = 0x9001)"
  using find_smap_sound [of ml i j] find_smap_complete [of ml i] by blast

text \<open>The walk takes sizes in bytes for sizes in words. After a record of another type with
  \<open>m\<close> words of data (size field \<open>4 * m\<close>, as the loop over the memory map counts it), a memory
  map that follows directly and has at most \<open>3 * m\<close> words is jumped over: the walk leaves
  the list.\<close>

theorem module_walk_skips_memory_map:
  assumes "t \<noteq> 0x9001" and "length payload = m" and "length rest \<le> 3 * m" and "4 * m + 2 < 2 ^ 32"
  shows "find_smap (t # of_nat (4 * m) # payload @ rest) 0 = None"
proof -
  have "unat (of_nat (4 * m) + 2 :: u32) = 4 * m + 2"
  proof -
    have "of_nat (4 * m) + 2 = (of_nat (4 * m + 2) :: u32)" by (simp only: of_nat_add of_nat_numeral)
    moreover have "unat (of_nat (4 * m + 2) :: u32) = 4 * m + 2"
      using assms(4) by (intro unat_of_nat_small) simp
    ultimately show ?thesis by (simp only:)
  qed
  then have "length (t # of_nat (4 * m) # payload @ rest) \<le> 0 + unat (of_nat (4 * m) + 2 :: u32)"
    using assms(2,3) by simp
  then have "find_smap (t # of_nat (4 * m) # payload @ rest) (0 + unat (of_nat (4 * m) + 2 :: u32)) = None"
    by (subst find_smap.simps) simp
  then show ?thesis using assms(1) by (subst find_smap.simps) simp
qed

theorem module_walk_skips_memory_map_witness:
  "find_smap ([0x9002, 8, 7, 7] @ [0x9001, 20, 0, 0]) 0 = None"
  using module_walk_skips_memory_map [of "0x9002" "[7, 7]" 2 "[0x9001, 20, 0, 0]"] by simp

text \<open>C1: The boot sequence. On a kernel as it is loaded, with a memory map from the loader and
  at most eight PCI devices on an unchanging bus, \<open>boot\<close> reaches the idle loop without
  undefined behaviour or fault: interrupts are on; vector 32 leads to the timer stub, 33 to
  the keyboard stub and every other vector to the default one; the descriptor of entries 5
  and 6 describes the TSS; the banners are on the screen; \<open>devInfo\<close> starts with the headers
  of exactly the devices present.\<close>

theorem boot_sets_up_machine:
  assumes "loaded img k" and "config_mechanism dev cfg" and "length (devices cfg) \<le> 8"
  shows "\<exists>k'. boot dev img k = Some k' \<and> interrupt_flag (idts k')
    \<and> (\<forall>w < 256. get_ir_from_idt w (s_Idtd (idts k')) =
          (if w = 32 then pit_stub img else if w = 33 then keyboard_stub img else default_stub img))
    \<and> cpu_cs (gdts k') = 8 \<and> descriptor_base (entry128 5 (gdt (gdts k'))) = tss_addr img
    \<and> banners (vram (con k'))
    \<and> take (devCount (pcis k')) (devInfo (pcis k')) = devices cfg"
proof -
  obtain k' c where "boot dev img k = Some k'" "ready img k'"
    "\<forall>w < 256. w \<noteq> 32 \<longrightarrow> w \<noteq> 33 \<longrightarrow> get_ir_from_idt w (s_Idtd (idts k')) = default_stub img"
    "gdt (gdts k') = tss_loaded (tss_addr img) initial_gdt" "cpu_cs (gdts k') = 8"
    "con k' = setUpWelcomeScreen c" "take (devCount (pcis k')) (devInfo (pcis k')) = devices cfg"
    using boot_runs [OF assms] by metis
  then show ?thesis
    by (simp add: ready_def welcome_banners tss_loaded_entry descriptor_base_def get_field_busy
        tss_descriptor_fields split_address)
qed

definition demo_image :: image where
  "demo_image = \<lparr>tss_addr = 0xffffffff80209040, idt_addr = 0xffffffff80208000,
     default_stub = 0xffffffff80201000, pit_stub = 0xffffffff80201100,
     keyboard_stub = 0xffffffff80201200, tarfs_start = 0xffffffff80210000,
     tarfs_end = 0xffffffff80220000, physfree = 0x230000,
     modules = [0x9001, 20, 0x100000, 0, 0x7ee0000, 0, 1]\<rparr>"

definition demo_kernel :: kernel where
  "demo_kernel = \<lparr>con = start_console, gdts = boot_gdt, idts = empty_idt, timer = pit_start,
     kbd = keyboard_start, pcis = \<lparr>devInfo = replicate 8 (pci_header (\<lambda>_. 0)), devCount = 0\<rparr>, io = []\<rparr>"

lemma demo_loaded: "loaded demo_image demo_kernel"
proof -
  have "memory_map (modules demo_image) 1" by (simp add: memory_map_def demo_image_def)
  then show ?thesis
    by (auto simp: loaded_def demo_kernel_def boot_gdt_def empty_idt_def idt_inv_def demo_image_def)
qed

theorem boot_sets_up_machine_witness:
  "\<exists>k'. boot one_device_bus demo_image demo_kernel = Some k' \<and> interrupt_flag (idts k')
    \<and> get_ir_from_idt 32 (s_Idtd (idts k')) = 0xffffffff80201100
    \<and> get_ir_from_idt 33 (s_Idtd (idts k')) = 0xffffffff80201200
    \<and> take (devCount (pcis k')) (devInfo (pcis k')) = [device_header one_device (0, 0)]"
  using boot_sets_up_machine [OF demo_loaded one_device_bus_mechanism]
  by (fastforce simp: devices_one demo_image_def)

text \<open>C2: The idle loop. After booting, whatever timer and keyboard interrupts arrive and in
  whatever order, the machine can take the next one of either kind; the banners stay on the
  screen, no text row and no other byte outside the clock and key cells changes, and the
  cursor stays; the handler table, the GDT and the device list keep their values; the tick
  counter holds the number of timer interrupts so far (modulo \<open>2^32\<close>); and exactly one
  end-of-interrupt command has been sent per interrupt.\<close>

theorem idle_loop_invariant:
  assumes "loaded img k" and "config_mechanism dev cfg" and "length (devices cfg) \<le> 8"
    and "boot dev img k = Some k0" and "idle dev img k0 vs k'"
  shows "(\<forall>v \<in> {32, 33}. \<exists>k''. take_interrupt dev img v k' = Some k'')
    \<and> banners (vram (con k'))
    \<and> (\<forall>x. \<not> display_cell x \<longrightarrow> vram (con k') x = vram (con k0) x)
    \<and> current_height (con k') = current_height (con k0) \<and> current_width (con k') = current_width (con k0)
    \<and> idts k' = idts k0 \<and> gdts k' = gdts k0 \<and> pcis k' = pcis k0
    \<and> get_pit_count (timer k') = of_nat (length (filter (\<lambda>v. v = 32) vs))
    \<and> written 0x20 (io k') = written 0x20 (io k0) @ replicate (length vs) 0x20"
proof -
  obtain c where k0: "ready img k0" "con k0 = setUpWelcomeScreen c" "g_pit_count (timer k0) = 0"
    using boot_runs [OF assms(1-3)] assms(4) by (metis option.inject)
  have inv: "idle_inv img k0 vs k'" using idle_keeps [OF assms(5) k0(1)] .
  then have "ready img k'" by (simp add: idle_inv_def)
  then have "\<forall>v \<in> {32, 33}. \<exists>k''. take_interrupt dev img v k' = Some k''"
    using ready_take by simp
  moreover have "banners (vram (con k'))"
    using banners_frame [of "vram (con k0)" "vram (con k')"] inv welcome_banners k0(2)
    by (simp add: idle_inv_def)
  ultimately show ?thesis using inv k0(3) by (simp add: idle_inv_def get_pit_count_def)
qed

theorem idle_loop_invariant_witness:
  "\<exists>k0 k'. boot one_device_bus demo_image demo_kernel = Some k0
     \<and> idle one_device_bus demo_image k0 [32] k' \<and> get_pit_count (timer k') = 1 \<and> banners (vram (con k'))"
proof -
  have few: "length (devices one_device) \<le> 8" by (simp add: devices_one)
  obtain k0 where k0: "boot one_device_bus demo_image demo_kernel = Some k0" "ready demo_image k0"
    using boot_runs [OF demo_loaded one_device_bus_mechanism few] by metis
  have "idle one_device_bus demo_image k0 ([] @ [32]) (timer_interrupt k0)"
    using idle_interrupt [OF idle_start _ ready_take(1) [OF k0(2)]] by simp
  then have i: "idle one_device_bus demo_image k0 [32] (timer_interrupt k0)" by simp
  show ?thesis
    using idle_loop_invariant [OF demo_loaded one_device_bus_mechanism few k0(1) i] k0(1) i by auto
qed

end
