(* ===== verification/Allocator.thy ===== *)
theory Allocator
  imports Prelude
begin

text \<open>
  The interface between a memory allocator and its clients: an allocated area consists of
  places that were not addressable before and are now, and nothing that was addressable
  changes. The lemmas show what a client gets from that alone: however its allocations and
  stores are interleaved, its areas are separate arrays, each byte holding what was last
  stored in it through its own area.
\<close>

text \<open>What a client does: allocate \<open>n\<close> bytes, or store a byte at an offset of its \<open>k\<close>-th area.\<close>

datatype access = Alloc nat | Write nat nat u8

text \<open>One access. The areas allocated so far are pairs of a pointer and a size.\<close>

fun access_step ::
  "(nat \<Rightarrow> 's \<Rightarrow> ('p \<times> 's) option) \<Rightarrow> ('a \<Rightarrow> u8 \<Rightarrow> 's \<Rightarrow> 's option) \<Rightarrow> ('p \<Rightarrow> nat \<Rightarrow> 'a) \<Rightarrow>
     access \<Rightarrow> ('p \<times> nat) list \<times> 's \<Rightarrow> (('p \<times> nat) list \<times> 's) option" where
  "access_step alloc store_at place (Alloc n) (areas, s) =
     (case alloc n s of None \<Rightarrow> None | Some (p, s') \<Rightarrow> Some (areas @ [(p, n)], s'))"
| "access_step alloc store_at place (Write k i v) (areas, s) =
     (if k < length areas \<and> i < snd (areas ! k)
      then map_option (\<lambda>s'. (areas, s')) (store_at (place (fst (areas ! k)) i) v s) else None)"

text \<open>The value last stored at an offset of an area.\<close>

fun last_written :: "access list \<Rightarrow> nat \<Rightarrow> nat \<Rightarrow> u8 option" where
  "last_written [] k i = None"
| "last_written (a # as) k i = (case last_written as k i of Some v \<Rightarrow> Some v
     | None \<Rightarrow> (case a of Write k' i' v \<Rightarrow> if k' = k \<and> i' = i then Some v else None | Alloc n \<Rightarrow> None))"

lemma last_written_snoc:
  "last_written (as @ [a]) k i = (case a of Write k' i' v \<Rightarrow> if k' = k \<and> i' = i then Some v else last_written as k i
     | Alloc n \<Rightarrow> last_written as k i)"
  by (induction as) (auto split: option.splits access.splits)

locale allocator =
  fixes alloc :: "nat \<Rightarrow> 's \<Rightarrow> ('p \<times> 's) option"
    and store_at :: "'a \<Rightarrow> u8 \<Rightarrow> 's \<Rightarrow> 's option"
    and content :: "'s \<Rightarrow> 'a \<Rightarrow> u8 option"
    and place :: "'p \<Rightarrow> nat \<Rightarrow> 'a"
    and ok :: "'s \<Rightarrow> bool"
  assumes alloc_ok: "ok s \<Longrightarrow> alloc n s = Some (p, s') \<Longrightarrow> ok s'"
    and alloc_fresh: "ok s \<Longrightarrow> alloc n s = Some (p, s') \<Longrightarrow> i < n \<Longrightarrow> content s (place p i) = None"
    and alloc_room: "ok s \<Longrightarrow> alloc n s = Some (p, s') \<Longrightarrow> i < n \<Longrightarrow> content s' (place p i) \<noteq> None"
    and alloc_keeps: "ok s \<Longrightarrow> alloc n s = Some (p, s') \<Longrightarrow> content s a \<noteq> None \<Longrightarrow> content s' a = content s a"
    and alloc_inj: "ok s \<Longrightarrow> alloc n s = Some (p, s') \<Longrightarrow> place p i = place p j \<Longrightarrow> i = j"
    and store_ok: "ok s \<Longrightarrow> store_at a v s = Some s' \<Longrightarrow> ok s'"
    and store_defined: "ok s \<Longrightarrow> store_at a v s \<noteq> None \<longleftrightarrow> content s a \<noteq> None"
    and store_content: "ok s \<Longrightarrow> store_at a v s = Some s' \<Longrightarrow> content s' b = (if b = a then Some v else content s b)"
begin

text \<open>The areas are addressable and separate, and hold what was stored in them.\<close>

definition separate :: "('p \<times> nat) list \<Rightarrow> 's \<Rightarrow> access list \<Rightarrow> bool" where
  "separate areas s as \<longleftrightarrow> ok s
     \<and> (\<forall>k < length areas. \<forall>i < snd (areas ! k). content s (place (fst (areas ! k)) i) \<noteq> None)
     \<and> (\<forall>k < length areas. \<forall>i < snd (areas ! k). \<forall>l < length areas. \<forall>j < snd (areas ! l).
          place (fst (areas ! k)) i = place (fst (areas ! l)) j \<longrightarrow> k = l \<and> i = j)
     \<and> (\<forall>k i v. last_written as k i = Some v \<longrightarrow>
          k < length areas \<and> i < snd (areas ! k) \<and> content s (place (fst (areas ! k)) i) = Some v)"

lemma separateD:
  assumes "separate areas s as"
  shows separate_ok: "ok s"
    and separate_room: "k < length areas \<Longrightarrow> i < snd (areas ! k) \<Longrightarrow> content s (place (fst (areas ! k)) i) \<noteq> None"
    and separate_apart: "k < length areas \<Longrightarrow> i < snd (areas ! k) \<Longrightarrow> l < length areas \<Longrightarrow> j < snd (areas ! l) \<Longrightarrow>
      place (fst (areas ! k)) i = place (fst (areas ! l)) j \<Longrightarrow> k = l \<and> i = j"
    and separate_last: "last_written as k i = Some v \<Longrightarrow>
      k < length areas \<and> i < snd (areas ! k) \<and> content s (place (fst (areas ! k)) i) = Some v"
  using assms unfolding separate_def by blast+

lemma separate_alloc:
  assumes inv: "separate areas s as" and al: "alloc n s = Some (p, s')"
  shows "separate (areas @ [(p, n)]) s' (as @ [Alloc n])"
proof -
  let ?areas = "areas @ [(p, n)]"
  note ok = separate_ok [OF inv] and old = separate_room [OF inv]
  have split: "k < length ?areas \<Longrightarrow> (k < length areas \<and> ?areas ! k = areas ! k) \<or> (k = length areas \<and> ?areas ! k = (p, n))" for k
    by (auto simp: nth_append)
  have apart: "place (fst (areas ! k)) i \<noteq> place p j" if "k < length areas" "i < snd (areas ! k)" "j < n" for k i j
    using old [OF that(1,2)] alloc_fresh [OF ok al that(3)] by metis
  have kept: "content s' (place (fst (areas ! k)) i) = content s (place (fst (areas ! k)) i)"
    if "k < length areas" "i < snd (areas ! k)" for k i
    by (rule alloc_keeps [OF ok al old [OF that]])
  have room: "content s' (place (fst (?areas ! k)) i) \<noteq> None" if "k < length ?areas" "i < snd (?areas ! k)" for k i
    using split [OF that(1)] that(2) old [of k i] kept [of k i] alloc_room [OF ok al, of i] by auto
  have sep: "k = l \<and> i = j"
    if "k < length ?areas" "i < snd (?areas ! k)" "l < length ?areas" "j < snd (?areas ! l)"
      "place (fst (?areas ! k)) i = place (fst (?areas ! l)) j" for k l i j
    using split [OF that(1)] split [OF that(3)]
  proof (elim disjE conjE)
    assume "k < length areas" "?areas ! k = areas ! k" "l < length areas" "?areas ! l = areas ! l"
    then show ?thesis using separate_apart [OF inv] that(2,4,5) by simp
  next
    assume "k < length areas" "?areas ! k = areas ! k" "l = length areas" "?areas ! l = (p, n)"
    then show ?thesis using apart [of k i j] that(2,4,5) by simp
  next
    assume "k = length areas" "?areas ! k = (p, n)" "l < length areas" "?areas ! l = areas ! l"
    then show ?thesis using apart [of l j i] that(2,4,5) by simp
  next
    assume "k = length areas" "?areas ! k = (p, n)" "l = length areas" "?areas ! l = (p, n)"
    then show ?thesis using alloc_inj [OF ok al] that(5) by simp
  qed
  have lst: "k < length ?areas \<and> i < snd (?areas ! k) \<and> content s' (place (fst (?areas ! k)) i) = Some v"
    if "last_written (as @ [Alloc n]) k i = Some v" for k i v
  proof -
    have l: "last_written as k i = Some v" using that by (simp add: last_written_snoc)
    from separate_last [OF inv l] kept [of k i] show ?thesis by (simp add: nth_append)
  qed
  show ?thesis unfolding separate_def using alloc_ok [OF ok al] room sep lst by blast
qed

lemma separate_write:
  assumes inv: "separate areas s as" and k: "k < length areas" "i < snd (areas ! k)"
    and st: "store_at (place (fst (areas ! k)) i) v s = Some s'"
  shows "separate areas s' (as @ [Write k i v])"
proof -
  note ok = separate_ok [OF inv] and apart = separate_apart [OF inv]
  note now = store_content [OF ok st]
  have room: "content s' (place (fst (areas ! l)) j) \<noteq> None" if "l < length areas" "j < snd (areas ! l)" for l j
    using separate_room [OF inv that] now by simp
  have lst: "l < length areas \<and> j < snd (areas ! l) \<and> content s' (place (fst (areas ! l)) j) = Some w"
    if w: "last_written (as @ [Write k i v]) l j = Some w" for l j w
  proof (cases "k = l \<and> i = j")
    case True
    then show ?thesis using w k now by (simp add: last_written_snoc)
  next
    case False
    then have l: "last_written as l j = Some w" using w by (auto simp: last_written_snoc split: if_splits)
    from separate_last [OF inv l] have at: "l < length areas" "j < snd (areas ! l)"
      "content s (place (fst (areas ! l)) j) = Some w" by auto
    then show ?thesis using now apart [OF at(1,2) k] False by auto
  qed
  show ?thesis unfolding separate_def using store_ok [OF ok st] room apart lst by blast
qed

lemma store_in_area:
  "separate areas s as \<Longrightarrow> k < length areas \<Longrightarrow> i < snd (areas ! k) \<Longrightarrow>
    \<exists>s'. access_step alloc store_at place (Write k i v) (areas, s) = Some (areas, s')"
  using store_defined [OF separate_ok, of areas s as "place (fst (areas ! k)) i" v] separate_room [of areas s as k i] by auto

lemma accesses_separate:
  "ok s \<Longrightarrow> for_list (access_step alloc store_at place) as ([], s) = Some (areas, s') \<Longrightarrow> separate areas s' as"
proof (induction as arbitrary: areas s' rule: rev_induct)
  case Nil
  then show ?case by (simp add: separate_def)
next
  case (snoc a as)
  obtain areas1 s1 where 1: "for_list (access_step alloc store_at place) as ([], s) = Some (areas1, s1)"
    and step: "access_step alloc store_at place a (areas1, s1) = Some (areas, s')"
    using snoc.prems(2) by (auto simp: for_list_append bind_eq_Some_conv)
  note inv = snoc.IH [OF snoc.prems(1) 1]
  show ?case
  proof (cases a)
    case (Alloc n)
    then show ?thesis using step separate_alloc [OF inv] by (auto split: option.splits)
  next
    case (Write k i v)
    then show ?thesis using step separate_write [OF inv] by (auto split: if_splits)
  qed
qed

end

end
