(* ===== verification/CMem.thy ===== *)
theory CMem
  imports Allocator
begin

text \<open>
  The memory of a user program: a list of blocks of bytes, a freed block being \<open>None\<close>.
  A pointer is null or a block and a byte offset; reading or writing outside the block, in a
  freed block or through the null pointer is undefined behaviour, the result \<open>None\<close>. Static
  arrays and string literals are blocks like any other; a new block has arbitrary contents,
  given by the parameter \<open>junk\<close>.
\<close>

datatype ptr = NULL | Ptr nat int

type_synonym mem = "u8 list option list"

primrec padd :: "ptr \<Rightarrow> int \<Rightarrow> ptr" where
  "padd NULL k = NULL"
| "padd (Ptr b off) k = Ptr b (off + k)"

definition block :: "mem \<Rightarrow> nat \<Rightarrow> u8 list option" where
  "block m b = (if b < length m then m ! b else None)"

fun load :: "mem \<Rightarrow> ptr \<Rightarrow> u8 option" where
  "load m NULL = None"
| "load m (Ptr b off) =
     (case block m b of None \<Rightarrow> None
      | Some bs \<Rightarrow> if 0 \<le> off \<and> off < int (length bs) then Some (bs ! nat off) else None)"

fun store :: "ptr \<Rightarrow> u8 \<Rightarrow> mem \<Rightarrow> mem option" where
  "store NULL v m = None"
| "store (Ptr b off) v m =
     (case block m b of None \<Rightarrow> None
      | Some bs \<Rightarrow> if 0 \<le> off \<and> off < int (length bs) then Some (m[b := Some (bs[nat off := v])]) else None)"

definition new_block :: "(nat \<Rightarrow> nat \<Rightarrow> u8) \<Rightarrow> nat \<Rightarrow> mem \<Rightarrow> ptr \<times> mem" where
  "new_block junk n m = (Ptr (length m) 0, m @ [Some (map (junk (length m)) [0..<n])])"

lemma padd_padd [simp]: "padd (padd p i) j = padd p (i + j)"
  by (cases p) auto

lemma padd_0 [simp]: "padd p 0 = p"
  by (cases p) auto

section \<open>Runs of bytes\<close>

text \<open>The bytes \<open>xs\<close> are stored from \<open>p\<close> on.\<close>

definition bytes_at :: "mem \<Rightarrow> ptr \<Rightarrow> u8 list \<Rightarrow> bool" where
  "bytes_at m p xs \<longleftrightarrow> (\<forall>i < length xs. load m (padd p (int i)) = Some (xs ! i))"

text \<open>A C string: its bytes, none of them NUL, and the terminator.\<close>

definition cstring :: "mem \<Rightarrow> ptr \<Rightarrow> u8 list \<Rightarrow> bool" where
  "cstring m p xs \<longleftrightarrow> 0 \<notin> set xs \<and> bytes_at m p (xs @ [0])"

lemma bytes_at_Nil [simp]: "bytes_at m p []"
  by (simp add: bytes_at_def)

lemma bytes_at_Cons: "bytes_at m p (x # xs) \<longleftrightarrow> load m p = Some x \<and> bytes_at m (padd p 1) xs"
proof -
  have "(\<forall>i < Suc n. P i) \<longleftrightarrow> P 0 \<and> (\<forall>i < n. P (Suc i))" for P :: "nat \<Rightarrow> bool" and n
    by (auto simp: less_Suc_eq_0_disj)
  then show ?thesis by (simp add: bytes_at_def add.commute)
qed

lemma cstring_Nil: "cstring m p [] \<longleftrightarrow> load m p = Some 0"
  by (simp add: cstring_def bytes_at_Cons)

lemma cstring_Cons: "cstring m p (x # xs) \<longleftrightarrow> x \<noteq> 0 \<and> load m p = Some x \<and> cstring m (padd p 1) xs"
  by (auto simp: cstring_def bytes_at_Cons)

lemma cstring_head: "cstring m p xs \<Longrightarrow> load m p = Some (case xs of [] \<Rightarrow> 0 | x # _ \<Rightarrow> x)"
  by (cases xs) (simp_all add: cstring_Nil cstring_Cons)

lemma cstring_not_null: "cstring m p xs \<Longrightarrow> p \<noteq> NULL"
  by (drule cstring_head) auto

lemma cstring_unique: "cstring m p xs \<Longrightarrow> cstring m p ys \<Longrightarrow> xs = ys"
proof (induction xs arbitrary: p ys)
  case Nil
  then show ?case by (cases ys) (auto simp: cstring_Nil cstring_Cons)
next
  case (Cons x xs)
  then show ?case by (cases ys) (auto simp: cstring_Nil cstring_Cons)
qed

section \<open>Stores\<close>

lemma store_Some:
  "store (Ptr b off) v m = Some m' \<longleftrightarrow>
     (\<exists>bs. block m b = Some bs \<and> 0 \<le> off \<and> off < int (length bs) \<and> m' = m[b := Some (bs[nat off := v])])"
  by (auto split: option.splits)

text \<open>The addressable places, and what a store changes.\<close>

definition valid :: "mem \<Rightarrow> ptr \<Rightarrow> bool" where
  "valid m p \<longleftrightarrow> load m p \<noteq> None"

lemma valid_store: "valid m p \<Longrightarrow> \<exists>m'. store p v m = Some m'"
  by (cases p) (auto simp: valid_def split: option.splits if_splits)

lemma block_update: "block (m[b := x]) c = (if b = c \<and> b < length m then x else block m c)"
  by (simp add: block_def nth_list_update)

lemma block_Some_less: "block m b = Some bs \<Longrightarrow> b < length m"
  by (simp add: block_def split: if_splits)

lemma load_store: "store p v m = Some m' \<Longrightarrow> load m' q = (if q = p then Some v else load m q)"
  by (cases p; cases q)
    (auto simp: block_update nth_list_update nat_eq_iff2 block_Some_less split: option.splits if_splits)

lemma valid_after_store: "store p v m = Some m' \<Longrightarrow> valid m' q = valid m q"
  using load_store [of p v m m' q]
  by (cases p) (auto simp: valid_def split: option.splits if_splits)

text \<open>A run of addressable places.\<close>

definition room :: "mem \<Rightarrow> ptr \<Rightarrow> nat \<Rightarrow> bool" where
  "room m p n \<longleftrightarrow> (\<forall>i < n. valid m (padd p (int i)))"

lemma room_store: "store q v m = Some m' \<Longrightarrow> room m' p n = room m p n"
  by (simp add: room_def valid_after_store)

lemma room_0 [simp]: "room m p 0"
  by (simp add: room_def)

lemma room_Suc: "room m p (Suc n) \<longleftrightarrow> valid m p \<and> room m (padd p 1) n"
proof -
  have "(\<forall>i < Suc n. P i) \<longleftrightarrow> P 0 \<and> (\<forall>i < n. P (Suc i))" for P :: "nat \<Rightarrow> bool" and n
    by (auto simp: less_Suc_eq_0_disj)
  then show ?thesis by (simp add: room_def add.commute)
qed

lemma room_mono: "room m p n \<Longrightarrow> k \<le> n \<Longrightarrow> room m p k"
  by (auto simp: room_def)

lemma room_offset: "room m p n \<Longrightarrow> k + j \<le> n \<Longrightarrow> room m (padd p (int k)) j"
proof -
  assume r: "room m p n" and k: "k + j \<le> n"
  have "valid m (padd p (int (k + i)))" if "i < j" for i
    using r k that by (simp only: room_def)
  then show ?thesis by (simp add: room_def)
qed

text \<open>Places that differ from every place of a run.\<close>

definition outside :: "ptr \<Rightarrow> ptr \<Rightarrow> nat \<Rightarrow> bool" where
  "outside q p n \<longleftrightarrow> (\<forall>i < n. q \<noteq> padd p (int i))"

lemma new_block_load:
  assumes "new_block junk n m = (p, m')"
  shows "load m' q = (case q of Ptr b off \<Rightarrow>
      if b = length m then (if 0 \<le> off \<and> off < int n then Some (junk b (nat off)) else None) else load m q
    | NULL \<Rightarrow> None)"
  using assms
  by (cases q) (auto simp: new_block_def block_def nth_append split: option.splits)

text \<open>New blocks are areas of their own.\<close>

lemma new_block_old: "load m q \<noteq> None \<Longrightarrow> load (snd (new_block junk n m)) q = load m q"
  using new_block_load [of junk n m "fst (new_block junk n m)" "snd (new_block junk n m)" q]
  by (cases q) (auto simp: block_def split: option.splits)

interpretation blocks: allocator "\<lambda>n m. Some (new_block junk n m)" store load "\<lambda>p i. padd p (int i)" "\<lambda>_. True"
  for junk
proof unfold_locales
  fix n m p m' i j a v b
  show "store a v m \<noteq> None \<longleftrightarrow> load m a \<noteq> None"
    by (cases a) (auto split: option.splits)
  {
    assume al: "Some (new_block junk n m) = Some (p, m')"
    then have nb: "new_block junk n m = (p, m')" and p: "p = Ptr (length m) 0" by (auto simp: new_block_def)
    show "i < n \<Longrightarrow> load m (padd p (int i)) = None" by (simp add: p block_def)
    show "i < n \<Longrightarrow> load m' (padd p (int i)) \<noteq> None" using new_block_load [OF nb, of "padd p (int i)"] by (simp add: p del: load.simps)
    show "load m a \<noteq> None \<Longrightarrow> load m' a = load m a" using new_block_old [of m a junk n] nb by simp
    show "padd p (int i) = padd p (int j) \<Longrightarrow> i = j" by (simp add: p)
  }
  show "store a v m = Some m' \<Longrightarrow> load m' b = (if b = a then Some v else load m b)"
    by (rule load_store)
qed simp_all

end
