(* ===== verification/CString.thy ===== *)
theory CString
  imports CMem
begin

text \<open>
  The string routines of libc: strlen.c, strcmp.c, strchr.c, memset.c and memcpy.c, each
  loop as it is written, over the block memory of CMem. An \<open>int\<close> counter that would pass
  \<open>INT_MAX\<close> is undefined behaviour. A loop that leaves its object is \<open>None\<close>.
\<close>

section \<open>The routines\<close>

partial_function (option) strlen_loop :: "mem \<Rightarrow> ptr \<Rightarrow> nat \<Rightarrow> nat option" where
  "strlen_loop m str len = do {
     c \<leftarrow> load m str;
     if c = 0 then Some len
     else if len = 2 ^ 31 - 1 then None
     else strlen_loop m (padd str 1) (len + 1)
   }"

definition strlen :: "mem \<Rightarrow> ptr \<Rightarrow> nat option" where
  "strlen m str = (if str = NULL then Some 0 else strlen_loop m str 0)"

text \<open>The bytes are compared as \<open>char\<close>s for equality and subtracted as \<open>unsigned char\<close>s.\<close>

partial_function (option) strcmp_loop :: "mem \<Rightarrow> ptr \<Rightarrow> ptr \<Rightarrow> i32 option" where
  "strcmp_loop m s1 s2 = do {
     c1 \<leftarrow> load m s1;
     c2 \<leftarrow> load m s2;
     if c1 \<noteq> 0 \<and> c2 \<noteq> 0 \<and> c1 = c2 then strcmp_loop m (padd s1 1) (padd s2 1)
     else Some (ucast c1 - ucast c2)
   }"

definition strcmp :: "mem \<Rightarrow> ptr \<Rightarrow> ptr \<Rightarrow> i32 option" where
  "strcmp m s1 s2 = (if s1 = NULL \<or> s2 = NULL then Some (-1) else strcmp_loop m s1 s2)"

partial_function (option) strchr :: "mem \<Rightarrow> ptr \<Rightarrow> u8 \<Rightarrow> ptr option" where
  "strchr m ch c = do {
     x \<leftarrow> load m ch;
     if x \<noteq> 0 \<and> x \<noteq> 0x0A then
       if x = c then Some ch else strchr m (padd ch 1) c
     else Some NULL
   }"

definition memset :: "ptr \<Rightarrow> i32 \<Rightarrow> u64 \<Rightarrow> mem \<Rightarrow> (ptr \<times> mem) option" where
  "memset s c n m =
     (if s = NULL then Some (s, m)
      else do {
        (ch, m) \<leftarrow> for_list (\<lambda>i (ch, m). do {
            m \<leftarrow> store ch (ucast c) m;
            Some (padd ch 1, m)
          }) [0..<nat (sint (ucast n :: i32))] (s, m);
        Some (s, m)
      })"

definition memcpy :: "ptr \<Rightarrow> ptr \<Rightarrow> u64 \<Rightarrow> mem \<Rightarrow> (ptr \<times> mem) option" where
  "memcpy dest src n m =
     (if src = NULL then Some (dest, m)
      else do {
        (destination, source, m) \<leftarrow> for_list (\<lambda>i (destination, source, m). do {
            x \<leftarrow> load m source;
            m \<leftarrow> store destination x m;
            Some (padd destination 1, padd source 1, m)
          }) [0..<nat (sint (ucast n :: i32))] (dest, src, m);
        Some (destination, m)
      })"

section \<open>strlen\<close>

lemma strlen_loop_cstring:
  "cstring m p s \<Longrightarrow> n + length s < 2 ^ 31 \<Longrightarrow> strlen_loop m p n = Some (n + length s)"
proof (induction s arbitrary: p n)
  case Nil
  then show ?case by (subst strlen_loop.simps) (simp add: cstring_Nil)
next
  case (Cons x s)
  then have "strlen_loop m (padd p 1) (n + 1) = Some (n + 1 + length s)"
    by (intro Cons.IH) (simp_all add: cstring_Cons)
  then show ?case using Cons.prems by (subst strlen_loop.simps) (simp add: cstring_Cons)
qed

lemma strlen_cstring: "cstring m p s \<Longrightarrow> length s < 2 ^ 31 \<Longrightarrow> strlen m p = Some (length s)"
  using strlen_loop_cstring [of m p s 0] cstring_not_null by (auto simp: strlen_def)

text \<open>Conversely, a result is only returned for a string.\<close>

lemma strlen_loop_Some:
  "strlen_loop m p n = Some k \<Longrightarrow> n < 2 ^ 31 \<Longrightarrow> \<exists>s. cstring m p s \<and> k = n + length s \<and> k < 2 ^ 31"
proof (induction m p n k rule: strlen_loop.raw_induct [rotated, consumes 1])
  case (1 loop m p n k)
  then obtain c where c: "load m p = Some c" by (auto simp: bind_eq_Some_conv)
  show ?case
  proof (cases "c = 0")
    case True
    then show ?thesis using 1(2,3) c by (intro exI [of _ "[]"]) (simp add: cstring_Nil)
  next
    case False
    then have "loop m (padd p 1) (n + 1) = Some k" and "n \<noteq> 2 ^ 31 - 1"
      using 1(2) c by (auto split: if_splits)
    then obtain s where "cstring m (padd p 1) s" "k = n + 1 + length s" "k < 2 ^ 31"
      using 1(1) [of m "padd p 1" "n + 1" k] 1(3) by auto
    then show ?thesis using False c by (intro exI [of _ "c # s"]) (simp add: cstring_Cons)
  qed
qed

section \<open>strcmp\<close>

text \<open>The order of byte strings: the first difference decides, a prefix comes first.\<close>

fun compare :: "u8 list \<Rightarrow> u8 list \<Rightarrow> int" where
  "compare [] [] = 0"
| "compare [] (y # ys) = - uint y"
| "compare (x # xs) [] = uint x"
| "compare (x # xs) (y # ys) = (if x = y then compare xs ys else uint x - uint y)"

lemma small_difference:
  "0 \<le> a \<Longrightarrow> a < 256 \<Longrightarrow> 0 \<le> b \<Longrightarrow> b < 256 \<Longrightarrow> signed_take_bit 31 (a - b) = (a - b :: int)"
  by (rule signed_take_bit_int_eq_self) simp_all

lemma byte_difference: "sint (ucast (x :: u8) - ucast (y :: u8) :: i32) = uint x - uint y"
proof -
  have "uint x < 256" "uint y < 256" using uint_bounded [of x] uint_bounded [of y] by simp_all
  moreover have "sint (ucast z :: i32) = uint z" for z :: u8
  proof -
    have u: "uint z < 256" "0 \<le> uint z" using uint_bounded [of z] by simp_all
    then have "uint (ucast z :: i32) = uint z"
      by (simp add: unsigned_ucast_eq take_bit_int_eq_self)
    moreover have "signed_take_bit 31 (uint z) = uint z"
      using u(1) by (intro signed_take_bit_int_eq_self order_trans [OF _ u(2)]) simp_all
    ultimately show ?thesis by (simp add: sint_uint)
  qed
  moreover have "signed_take_bit 31 (uint x - uint y) = uint x - uint y"
    using calculation(1,2) by (intro small_difference) simp_all
  ultimately show ?thesis
    by (simp add: sint_word_diff)
qed

lemma strcmp_loop_cstring:
  "cstring m p s \<Longrightarrow> cstring m q t \<Longrightarrow> \<exists>r. strcmp_loop m p q = Some r \<and> sint r = compare s t"
proof (induction s arbitrary: p q t)
  case Nil
  have "\<exists>r. strcmp_loop m p q = Some r \<and> sint r = - uint (case t of [] \<Rightarrow> 0 | y # _ \<Rightarrow> y)"
    using Nil cstring_head [OF Nil(2)] byte_difference [of 0]
    by (subst strcmp_loop.simps) (simp add: cstring_Nil)
  then show ?case by (cases t) simp_all
next
  case (Cons x s)
  show ?case
  proof (cases t)
    case Nil
    then show ?thesis using Cons.prems byte_difference [of x 0]
      by (subst strcmp_loop.simps) (simp add: cstring_Nil cstring_Cons)
  next
    case (Cons y t')
    then show ?thesis using Cons.prems Cons.IH [of "padd p 1" "padd q 1" t'] byte_difference [of x y]
      by (subst strcmp_loop.simps) (simp add: cstring_Cons)
  qed
qed

lemma compare_0: "0 \<notin> set s \<Longrightarrow> 0 \<notin> set t \<Longrightarrow> compare s t = 0 \<longleftrightarrow> s = t"
  by (induction s t rule: compare.induct) (auto simp: uint_0_iff dest: unsigned_word_eqI)

lemma compare_less:
  "0 \<notin> set s \<Longrightarrow> 0 \<notin> set t \<Longrightarrow> compare s t < 0 \<longleftrightarrow> (s, t) \<in> lexord {(x, y). x < y}"
proof (induction s t rule: compare.induct)
  case (2 y ys)
  then have "0 < uint y" using uint_0_iff [of y] by (simp add: order_less_le)
  then show ?case by simp
qed (auto simp: word_less_def)

lemma strcmp_cstring:
  "cstring m p s \<Longrightarrow> cstring m q t \<Longrightarrow> \<exists>r. strcmp m p q = Some r \<and> sint r = compare s t"
  using strcmp_loop_cstring [of m p s q t] by (auto simp: strcmp_def dest: cstring_not_null)

lemma strcmp_eq_0:
  assumes "cstring m p s" and "cstring m q t"
  shows "\<exists>r. strcmp m p q = Some r \<and> (r = 0 \<longleftrightarrow> s = t)"
proof -
  obtain r where r: "strcmp m p q = Some r" "sint r = compare s t"
    using strcmp_cstring [OF assms] by blast
  moreover have "r = 0 \<longleftrightarrow> sint r = 0"
    using signed_word_eqI [of r 0] by auto
  ultimately show ?thesis using compare_0 assms by (auto simp: cstring_def)
qed

section \<open>strchr\<close>

lemma strchr_cstring:
  "cstring m p s \<Longrightarrow> c \<noteq> 0 \<Longrightarrow> c \<noteq> 0x0A \<Longrightarrow>
     strchr m p c = Some (let l = takeWhile (\<lambda>x. x \<noteq> 0x0A) s
       in if c \<in> set l then padd p (int (length (takeWhile (\<lambda>x. x \<noteq> c) l))) else NULL)"
proof (induction s arbitrary: p)
  case Nil
  then show ?case by (subst strchr.simps) (simp add: cstring_Nil)
next
  case (Cons x s)
  then show ?case
    by (subst strchr.simps) (auto simp: cstring_Cons Let_def)
qed

lemma strchr_terminator: "cstring m p s \<Longrightarrow> c = 0 \<or> c = 0x0A \<Longrightarrow> strchr m p c = Some NULL"
proof (induction s arbitrary: p)
  case Nil
  then show ?case by (subst strchr.simps) (simp add: cstring_Nil)
next
  case (Cons x s)
  then show ?case by (subst strchr.simps) (auto simp: cstring_Cons)
qed

section \<open>memset\<close>

text \<open>The memory after writing the bytes \<open>xs\<close> from \<open>p\<close> on: those bytes, and nothing else
  changed.\<close>

definition written_at :: "mem \<Rightarrow> ptr \<Rightarrow> u8 list \<Rightarrow> mem \<Rightarrow> bool" where
  "written_at m p xs m' \<longleftrightarrow> bytes_at m' p xs
     \<and> (\<forall>q. outside q p (length xs) \<longrightarrow> load m' q = load m q) \<and> (\<forall>q. valid m' q = valid m q)"

lemma written_at_Nil: "written_at m p [] m"
  by (simp add: written_at_def)

lemma padd_inject: "p \<noteq> NULL \<Longrightarrow> padd p i = padd p j \<longleftrightarrow> i = j"
  by (cases p) auto

lemma room_not_null: "room m p (Suc n) \<Longrightarrow> p \<noteq> NULL"
  by (auto simp: room_def valid_def)

lemma written_at_snoc:
  assumes "written_at m p xs m1" and "p \<noteq> NULL" and "store (padd p (int (length xs))) x m1 = Some m2"
  shows "written_at m p (xs @ [x]) m2"
proof -
  have ld: "load m2 q = (if q = padd p (int (length xs)) then Some x else load m1 q)" for q
    using load_store [OF assms(3)] .
  have "bytes_at m2 p (xs @ [x])"
    using assms(1,2) by (auto simp: written_at_def bytes_at_def ld nth_append padd_inject less_Suc_eq)
  moreover have "load m2 q = load m q" if "outside q p (length (xs @ [x]))" for q
    using assms(1) that by (auto simp: written_at_def outside_def ld less_Suc_eq)
  moreover have "valid m2 q = valid m q" for q
    using assms(1) valid_after_store [OF assms(3)] by (simp add: written_at_def)
  ultimately show ?thesis by (simp add: written_at_def)
qed

lemma memset_loop:
  assumes "room m p n"
  shows "\<exists>m'. for_list (\<lambda>i (ch, m). do { m \<leftarrow> store ch x m; Some (padd ch 1, m) }) [0..<n] (p, m)
     = Some (padd p (int n), m') \<and> written_at m p (replicate n x) m'"
  using assms
proof (induction n)
  case 0
  then show ?case by (simp add: written_at_Nil)
next
  case (Suc n)
  then obtain m1 where l: "for_list (\<lambda>i (ch, m). do { m \<leftarrow> store ch x m; Some (padd ch 1, m) }) [0..<n] (p, m)
      = Some (padd p (int n), m1)" and w: "written_at m p (replicate n x) m1"
    using room_mono [of m p "Suc n" n] by auto
  have "valid m1 (padd p (int n))" using Suc.prems w by (simp add: room_def written_at_def)
  then obtain m2 where st: "store (padd p (int n)) x m1 = Some m2" using valid_store by blast
  have "written_at m p (replicate n x @ [x]) m2"
    using written_at_snoc [OF w room_not_null [OF Suc.prems]] st by simp
  then show ?case using l st by (simp add: for_list_append replicate_append_same add.commute)
qed

lemma signed_size: "n < 2 ^ 31 \<Longrightarrow> nat (sint (ucast (of_nat n :: u64) :: i32)) = n"
proof -
  assume n: "n < 2 ^ 31"
  then have "take_bit 64 n = n" by (intro take_bit_nat_eq_self) simp
  then have "uint (of_nat n :: u64) = int n" by (simp add: unsigned_of_nat)
  then have "uint (ucast (of_nat n :: u64) :: i32) = int n"
    using n by (simp add: unsigned_ucast_eq take_bit_int_eq_self)
  then show ?thesis using n signed_take_bit_int_eq_self [of 31 "int n"] by (simp add: sint_uint)
qed

lemma memset_room:
  assumes "room m p n" and "n < 2 ^ 31"
  shows "\<exists>m'. memset p c (of_nat n) m = Some (p, m') \<and> written_at m p (replicate n (ucast c)) m'"
proof (cases "p = NULL")
  case True
  then have "n = 0" using assms(1) by (cases n) (auto dest: room_not_null)
  then show ?thesis using True by (simp add: memset_def written_at_Nil)
next
  case False
  then show ?thesis
    using memset_loop [OF assms(1), of "ucast c"] by (auto simp: memset_def signed_size [OF assms(2)])
qed

section \<open>memcpy\<close>

text \<open>The source and the destination have no place in common.\<close>

definition disjoint_runs :: "ptr \<Rightarrow> ptr \<Rightarrow> nat \<Rightarrow> bool" where
  "disjoint_runs p q n \<longleftrightarrow> (\<forall>i < n. outside (padd p (int i)) q n)"

lemma memcpy_loop:
  assumes "bytes_at m src xs" and "room m dest (length xs)" and "disjoint_runs src dest (length xs)"
    and "n \<le> length xs"
  shows "\<exists>m'. for_list (\<lambda>i (destination, source, m). do {
            x \<leftarrow> load m source; m \<leftarrow> store destination x m; Some (padd destination 1, padd source 1, m)
          }) [0..<n] (dest, src, m)
     = Some (padd dest (int n), padd src (int n), m') \<and> written_at m dest (take n xs) m'"
  using assms(4)
proof (induction n)
  case 0
  then show ?case by (simp add: written_at_Nil)
next
  case (Suc n)
  then obtain m1 where l: "for_list (\<lambda>i (destination, source, m). do {
            x \<leftarrow> load m source; m \<leftarrow> store destination x m; Some (padd destination 1, padd source 1, m)
          }) [0..<n] (dest, src, m) = Some (padd dest (int n), padd src (int n), m1)"
    and w: "written_at m dest (take n xs) m1" by auto
  have n: "n < length xs" and tk: "length (take n xs) = n" using Suc.prems by simp_all
  have "outside (padd src (int n)) dest (length (take n xs))"
    using assms(3) n unfolding tk by (auto simp: disjoint_runs_def outside_def)
  then have ld: "load m1 (padd src (int n)) = Some (xs ! n)"
    using w assms(1) n by (simp add: written_at_def bytes_at_def)
  have "valid m1 (padd dest (int n))" using assms(2) n w by (simp add: room_def written_at_def)
  then obtain m2 where st: "store (padd dest (int n)) (xs ! n) m1 = Some m2" using valid_store by blast
  have "dest \<noteq> NULL" using assms(2) n by (cases dest) (auto simp: room_def valid_def)
  then have "written_at m dest (take (Suc n) xs) m2"
    using written_at_snoc [OF w] st n by (simp add: take_Suc_conv_app_nth)
  then show ?case using l ld st by (simp add: for_list_append add.commute)
qed

lemma memcpy_room:
  assumes "bytes_at m src xs" and "src \<noteq> NULL" and "room m dest (length xs)"
    and "disjoint_runs src dest (length xs)" and "length xs < 2 ^ 31"
  shows "\<exists>m'. memcpy dest src (of_nat (length xs)) m = Some (padd dest (int (length xs)), m')
     \<and> written_at m dest xs m'"
  using memcpy_loop [OF assms(1,3,4) order_refl] assms(2)
  by (auto simp: memcpy_def signed_size [OF assms(5)])

section \<open>New memory\<close>

text \<open>\<open>m'\<close> has everything \<open>m\<close> has.\<close>

definition extends :: "mem \<Rightarrow> mem \<Rightarrow> bool" where
  "extends m m' \<longleftrightarrow> (\<forall>q x. load m q = Some x \<longrightarrow> load m' q = Some x)"

lemma extends_refl [simp]: "extends m m"
  by (simp add: extends_def)

lemma bytes_at_extends: "extends m m' \<Longrightarrow> bytes_at m p xs \<Longrightarrow> bytes_at m' p xs"
  by (simp add: extends_def bytes_at_def)

lemma cstring_extends: "extends m m' \<Longrightarrow> cstring m p s \<Longrightarrow> cstring m' p s"
  using bytes_at_extends by (auto simp: cstring_def)

lemma new_block_facts:
  assumes "new_block junk n m = (p, m')"
  shows "extends m m'" "room m' p n" "p \<noteq> NULL" "\<And>q x i. load m q = Some x \<Longrightarrow> q \<noteq> padd p i"
proof -
  have p: "p = Ptr (length m) 0" using assms by (simp add: new_block_def)
  have old: "load m (Ptr b off) = Some x \<Longrightarrow> b < length m" for b off x
    by (auto simp: block_def split: option.splits if_splits)
  note ld = new_block_load [OF assms]
  show "extends m m'" unfolding extends_def ld
    using old by (fastforce split: ptr.splits simp del: load.simps(2))
  show "room m' p n" unfolding room_def valid_def ld p by simp
  show "p \<noteq> NULL" using p by simp
  show "\<And>q x i. load m q = Some x \<Longrightarrow> q \<noteq> padd p i" using old by (auto simp: p simp del: load.simps)
qed

lemma cstring_bytes: "cstring m p s \<Longrightarrow> bytes_at m p s"
  by (auto simp: cstring_def bytes_at_def nth_append)

section \<open>Properties\<close>

text \<open>\<open>strlen\<close>, exactly. It returns \<open>n\<close> if and only if its argument is the null pointer and
  \<open>n\<close> is 0, or a string of \<open>n\<close> bytes (fewer than \<open>2^31\<close>) with its terminator is stored
  there; on anything else it runs into undefined behaviour.\<close>

theorem strlen_exact:
  "strlen m p = Some n \<longleftrightarrow> p = NULL \<and> n = 0 \<or> (\<exists>s. cstring m p s \<and> length s = n \<and> n < 2 ^ 31)"
proof -
  have "strlen_loop m p 0 = Some n \<longleftrightarrow> (\<exists>s. cstring m p s \<and> length s = n \<and> n < 2 ^ 31)"
    using strlen_loop_Some [of m p 0 n] strlen_loop_cstring [of m p _ 0] by auto
  then show ?thesis by (auto simp: strlen_def dest: cstring_not_null)
qed

text \<open>C37: \<open>strcmp\<close> on two strings compares them as unsigned bytes: the result is 0 exactly for
  equal strings and negative exactly when the first is smaller in lexicographic order.\<close>

theorem strcmp_orders_strings:
  assumes "cstring m p s" and "cstring m q t"
  shows "\<exists>r. strcmp m p q = Some r \<and> (r = 0 \<longleftrightarrow> s = t) \<and> (sint r < 0 \<longleftrightarrow> (s, t) \<in> lexord {(x, y). x < y})"
  using strcmp_cstring [OF assms] strcmp_eq_0 [OF assms] compare_less assms
  by (fastforce simp: cstring_def)

definition two_strings :: mem where
  "two_strings = [Some (bytes ''pwd'' @ [0]), Some (bytes ''pipe'' @ [0])]"

lemma two_strings:
  "cstring two_strings (Ptr 0 0) (bytes ''pwd'')" "cstring two_strings (Ptr 1 0) (bytes ''pipe'')"
  by (simp_all add: two_strings_def cstring_Cons cstring_Nil block_def)

theorem strcmp_orders_strings_witness:
  "\<exists>r. strcmp two_strings (Ptr 1 0) (Ptr 0 0) = Some r \<and> r \<noteq> 0 \<and> sint r < 0"
  using strcmp_orders_strings [OF two_strings(2,1)] by (auto simp: lexord_cons_cons)

text \<open>\<open>strchr\<close> stops at a line's end. For a character other than NUL and newline it returns
  the first occurrence before the first newline of the string, and null if there is none
  before it; for NUL, which the C library finds at the terminator, and for a newline it
  always returns null.\<close>

theorem strchr_first_in_line:
  assumes "cstring m p s"
  shows "strchr m p c =
    (let l = takeWhile (\<lambda>x. x \<noteq> 0x0A) s
     in if c \<noteq> 0 \<and> c \<in> set l
        then Some (padd p (int (length (takeWhile (\<lambda>x. x \<noteq> c) l)))) else Some NULL)"
proof (cases "c = 0 \<or> c = 0x0A")
  case True
  then show ?thesis using strchr_terminator [OF assms True] by (auto simp: Let_def dest: set_takeWhileD)
next
  case False
  then show ?thesis using strchr_cstring [OF assms, of c] by (simp add: Let_def)
qed

theorem strchr_first_in_line_witness:
  "strchr two_strings (Ptr 1 0) (of_char (CHR ''p'')) = Some (Ptr 1 0)
    \<and> strchr two_strings (Ptr 1 0) (of_char (CHR ''e'')) = Some (Ptr 1 3)
    \<and> strchr two_strings (Ptr 1 0) 0 = Some NULL"
  using strchr_first_in_line [OF two_strings(2)] by simp

text \<open>\<open>memcpy\<close> copies the bytes of a source disjoint from its destination and changes
  nothing else; what it returns is the end of the copy, not, as the C library's, its start.\<close>

theorem memcpy_copies:
  assumes "bytes_at m src xs" and "src \<noteq> NULL" and "room m dest (length xs)"
    and "disjoint_runs src dest (length xs)" and "length xs < 2 ^ 31"
  shows "\<exists>m'. memcpy dest src (of_nat (length xs)) m = Some (padd dest (int (length xs)), m')
    \<and> bytes_at m' dest xs \<and> (\<forall>q. outside q dest (length xs) \<longrightarrow> load m' q = load m q)"
  using memcpy_room [OF assms] by (auto simp: written_at_def)

theorem memcpy_copies_witness:
  "\<exists>m'. memcpy (Ptr 1 1) (Ptr 0 0) 2 two_strings = Some (Ptr 1 3, m') \<and> load m' (Ptr 1 2) = Some (of_char (CHR ''w''))"
proof -
  have b: "bytes_at two_strings (Ptr 0 0) (bytes ''pw'')"
    and r: "room two_strings (Ptr 1 1) (length (bytes ''pw''))"
    and d: "disjoint_runs (Ptr 0 0) (Ptr 1 1) (length (bytes ''pw''))"
    by (auto simp: bytes_at_Cons two_strings_def block_def room_def valid_def disjoint_runs_def outside_def)
  have "\<exists>m'. memcpy (Ptr 1 1) (Ptr 0 0) (of_nat (length (bytes ''pw''))) two_strings
      = Some (padd (Ptr 1 1) (int (length (bytes ''pw''))), m') \<and> bytes_at m' (Ptr 1 1) (bytes ''pw'')"
    using memcpy_copies [OF b _ r d] by auto
  then show ?thesis by (auto simp: bytes_at_Cons simp del: load.simps)
qed

end
