(* ===== verification/Stdio.thy ===== *)
theory Stdio
  imports CString
begin

text \<open>
  The stream routines of libc over the block memory: fgetc.c, fgets.c, getchar.c, gets.c,
  putchar.c, puts.c, print.c, fputs.c and readline.c. The system calls they make are
  parameters: \<open>sys_read fd n\<close> answers with at most \<open>n\<close> bytes, none at the end of the file,
  or an error, \<open>sys_write fd bs\<close> with a count. A \<open>FILE *\<close> is its descriptor. Using a
  character variable that a failed or empty read has left uninitialised is \<open>None\<close>.
\<close>

record 'os sys =
  sys_read :: "i32 \<Rightarrow> nat \<Rightarrow> 'os \<Rightarrow> u8 list option \<times> 'os"
  sys_write :: "i32 \<Rightarrow> u8 list \<Rightarrow> 'os \<Rightarrow> i32 \<times> 'os"

abbreviation (input) EOF :: i32 where "EOF \<equiv> -1"
abbreviation (input) LINE_LENGTH :: nat where "LINE_LENGTH \<equiv> 1024"
abbreviation (input) MAX_BUF_SIZE :: nat where "MAX_BUF_SIZE \<equiv> 4"

section \<open>Reading\<close>

text \<open>A byte is a signed \<open>char\<close>, so the byte 0xFF reads as \<open>EOF\<close>.\<close>

definition fgetc :: "'os sys \<Rightarrow> i32 \<Rightarrow> 'os \<Rightarrow> (i32 \<times> 'os) option" where
  "fgetc sys fd os =
     (case sys_read sys fd 1 os of
        (None, os) \<Rightarrow> None
      | (Some [], os) \<Rightarrow> Some (EOF, os)
      | (Some (c # _), os) \<Rightarrow> Some (scast c, os))"

text \<open>The loop of \<open>fgets\<close> runs \<open>size - 1\<close> times at most; \<open>c\<close> is its last character, if any.\<close>

fun fgets_loop ::
  "'os sys \<Rightarrow> i32 \<Rightarrow> nat \<Rightarrow> ptr \<times> i32 option \<times> mem \<times> 'os \<Rightarrow> (ptr \<times> i32 option \<times> mem \<times> 'os) option" where
  "fgets_loop sys fd 0 st = Some st"
| "fgets_loop sys fd (Suc n) (ch, c0, m, os) = do {
     (c, os) \<leftarrow> fgetc sys fd os;
     if c = EOF then Some (ch, Some c, m, os)
     else do {
       m \<leftarrow> store ch (ucast c) m;
       let ch = padd ch 1;
       if c = 0x0A then Some (ch, Some c, m, os)
       else fgets_loop sys fd n (ch, Some c, m, os)
     }
   }"

definition fgets :: "'os sys \<Rightarrow> ptr \<Rightarrow> i32 \<Rightarrow> i32 \<Rightarrow> mem \<Rightarrow> 'os \<Rightarrow> (ptr \<times> mem \<times> 'os) option" where
  "fgets sys s sz stream m os = do {
     sz \<leftarrow> (if sint sz = - (2 ^ 31) then None else Some (sint sz - 1));
     (ch, c, m, os) \<leftarrow> fgets_loop sys stream (nat sz) (s, None, m, os);
     m \<leftarrow> store ch 0 m;
     if ch = s then Some (NULL, m, os)
     else case c of None \<Rightarrow> None | Some c \<Rightarrow> Some (if c = EOF then NULL else s, m, os)
   }"

definition getchar :: "'os sys \<Rightarrow> 'os \<Rightarrow> (i32 \<times> 'os) option" where
  "getchar sys os =
     (case sys_read sys 0 1 os of
        (None, os) \<Rightarrow> Some (-1, os)
      | (Some [], os) \<Rightarrow> None
      | (Some (ch # _), os) \<Rightarrow> Some (scast ch, os))"

text \<open>\<open>gets\<close>: skip blanks, then store until a newline, an error or 1024 characters.\<close>

partial_function (option) gets_blanks :: "'os sys \<Rightarrow> 'os \<Rightarrow> (i32 \<times> 'os) option" where
  "gets_blanks sys os = do {
     (rd, os) \<leftarrow> getchar sys os;
     if rd = 0x20 \<or> rd = 0x09 then gets_blanks sys os else Some (rd, os)
   }"

partial_function (option) gets_loop ::
  "'os sys \<Rightarrow> ptr \<Rightarrow> i32 \<Rightarrow> nat \<Rightarrow> mem \<Rightarrow> 'os \<Rightarrow> (ptr \<times> mem \<times> 'os) option" where
  "gets_loop sys s rd count m os = do {
     m \<leftarrow> store s (ucast rd) m;
     (rd, os) \<leftarrow> getchar sys os;
     if rd \<noteq> 0x0A \<and> rd \<noteq> -1 \<and> count + 1 \<le> LINE_LENGTH
     then gets_loop sys (padd s 1) rd (count + 1) m os
     else Some (padd s 1, m, os)
   }"

definition gets :: "'os sys \<Rightarrow> ptr \<Rightarrow> mem \<Rightarrow> 'os \<Rightarrow> (ptr \<times> mem \<times> 'os) option" where
  "gets sys s m os = do {
     (rd, os) \<leftarrow> gets_blanks sys os;
     if rd = 0x0A then do {
       m \<leftarrow> store s 0 m;
       Some (NULL, m, os)
     }
     else do {
       (s, m, os) \<leftarrow> gets_loop sys s rd 1 m os;
       m \<leftarrow> store s 0 m;
       Some (s, m, os)
     }
   }"

section \<open>Writing\<close>

text \<open>\<open>putchar\<close> writes the first byte of its \<open>int\<close>, the low one.\<close>

definition putchar :: "'os sys \<Rightarrow> i32 \<Rightarrow> 'os \<Rightarrow> i32 \<times> 'os" where
  "putchar sys c os = (c, snd (sys_write sys 1 [ucast c] os))"

partial_function (option) puts :: "'os sys \<Rightarrow> mem \<Rightarrow> ptr \<Rightarrow> 'os \<Rightarrow> (i32 \<times> 'os) option" where
  "puts sys m s os = do {
     x \<leftarrow> load m s;
     if x \<noteq> 0 then
       let (r, os) = putchar sys (scast x) os
       in if r \<noteq> scast x then Some (EOF, os) else puts sys m (padd s 1) os
     else
       let (r, os) = putchar sys 0x0A os
       in Some (if r = 0x0A then 0 else EOF, os)
   }"

partial_function (option) print_loop :: "'os sys \<Rightarrow> mem \<Rightarrow> ptr \<Rightarrow> 'os \<Rightarrow> 'os option" where
  "print_loop sys m s os = do {
     x \<leftarrow> load m s;
     if x \<noteq> 0x0A \<and> x \<noteq> 0 then print_loop sys m (padd s 1) (snd (putchar sys (scast x) os))
     else Some os
   }"

definition print :: "'os sys \<Rightarrow> mem \<Rightarrow> ptr \<Rightarrow> 'os \<Rightarrow> 'os option" where
  "print sys m s os = (if s = NULL then Some os else print_loop sys m s os)"

text \<open>The bytes \<open>write\<close> takes from memory.\<close>

fun load_bytes :: "mem \<Rightarrow> ptr \<Rightarrow> nat \<Rightarrow> u8 list option" where
  "load_bytes m p 0 = Some []"
| "load_bytes m p (Suc n) = do {
     x \<leftarrow> load m p;
     xs \<leftarrow> load_bytes m (padd p 1) n;
     Some (x # xs)
   }"

definition fputs :: "'os sys \<Rightarrow> mem \<Rightarrow> ptr \<Rightarrow> i32 \<Rightarrow> 'os \<Rightarrow> (i32 \<times> 'os) option" where
  "fputs sys m str stream os = do {
     n \<leftarrow> strlen m str;
     bs \<leftarrow> load_bytes m str n;
     Some (0, snd (sys_write sys stream bs os))
   }"

section \<open>readline\<close>

fun store_bytes :: "ptr \<Rightarrow> u8 list \<Rightarrow> mem \<Rightarrow> mem option" where
  "store_bytes p [] m = Some m"
| "store_bytes p (x # xs) m = do { m \<leftarrow> store p x m; store_bytes (padd p 1) xs m }"

definition free_block :: "ptr \<Rightarrow> mem \<Rightarrow> mem option" where
  "free_block p m = (case p of Ptr b off \<Rightarrow> if off = 0 \<and> block m b \<noteq> None then Some (m[b := None]) else None
     | NULL \<Rightarrow> Some m)"

text \<open>The loop, with \<open>data\<close>, \<open>currentBufPtr\<close>, \<open>readCount\<close>, \<open>totalReadBytes\<close> and
  \<open>remainingSpaceInBuf\<close> as its state. Its condition is evaluated after the body: with the
  read neither failed nor short it holds.\<close>

partial_function (option) readline_loop ::
  "(nat \<Rightarrow> nat \<Rightarrow> u8) \<Rightarrow> 'os sys \<Rightarrow> ptr \<times> ptr \<times> nat \<times> nat \<times> nat \<Rightarrow> mem \<Rightarrow> 'os \<Rightarrow> (ptr \<times> mem \<times> 'os) option" where
  "readline_loop junk sys st m os =
     (case st of (dat, currentBufPtr, readCount, totalReadBytes, remainingSpaceInBuf) \<Rightarrow>
        case sys_read sys 0 remainingSpaceInBuf os of
          (None, os) \<Rightarrow> Some (dat, m, os)
        | (Some bs, os) \<Rightarrow> do {
            m \<leftarrow> store_bytes currentBufPtr bs m;
            let readCount = readCount + 1;
            if length bs < MAX_BUF_SIZE then Some (dat, m, os)
            else do {
              let totalReadBytes = totalReadBytes + length bs;
              let remainingSpaceInBuf = remainingSpaceInBuf - length bs;
              x \<leftarrow> load m (padd dat (int totalReadBytes - 1));
              if x = 0x0A then Some (dat, m, os)
              else if remainingSpaceInBuf = 0 then do {
                let (newData, m) = new_block junk (MAX_BUF_SIZE * readCount) m;
                (e, m) \<leftarrow> memcpy newData dat (of_nat totalReadBytes) m;
                m \<leftarrow> free_block dat m;
                readline_loop junk sys (newData, padd newData (int totalReadBytes), readCount, totalReadBytes,
                  MAX_BUF_SIZE * readCount - totalReadBytes) m os
              }
              else readline_loop junk sys (dat, currentBufPtr, readCount, totalReadBytes, remainingSpaceInBuf) m os
            }
          })"

definition readline :: "(nat \<Rightarrow> nat \<Rightarrow> u8) \<Rightarrow> 'os sys \<Rightarrow> mem \<Rightarrow> 'os \<Rightarrow> (ptr \<times> mem \<times> 'os) option" where
  "readline junk sys m os =
     (let (dat, m) = new_block junk MAX_BUF_SIZE m
      in readline_loop junk sys (dat, dat, 1, 0, MAX_BUF_SIZE) m os)"

section \<open>Characters as ints\<close>

lemma ucast_scast_char [simp]: "ucast (scast (c :: u8) :: i32) = c"
  by (rule bit_word_eqI) (auto simp: bit_simps dest: bit_imp_le_length)

lemma scast_char_eq: "scast (c :: u8) = (scast d :: i32) \<longleftrightarrow> c = d"
  by (metis ucast_scast_char)

lemma scast_char_values:
  "scast (c :: u8) = (-1 :: i32) \<longleftrightarrow> c = 0xFF" "scast c = (0x0A :: i32) \<longleftrightarrow> c = 0x0A"
  "scast c = (0x20 :: i32) \<longleftrightarrow> c = 0x20" "scast c = (0x09 :: i32) \<longleftrightarrow> c = 0x09"
  using scast_char_eq [of c "0xFF"] scast_char_eq [of c "0x0A"] scast_char_eq [of c "0x20"]
    scast_char_eq [of c "0x09"] by simp_all

section \<open>Streams\<close>

text \<open>What \<open>read\<close> promises of a file read byte by byte: the next byte, or nothing at the end.
  \<open>rest os\<close> is what has not been read yet.\<close>

definition byte_stream :: "'os sys \<Rightarrow> i32 \<Rightarrow> ('os \<Rightarrow> u8 list) \<Rightarrow> bool" where
  "byte_stream sys fd rest \<longleftrightarrow>
     (\<forall>os. \<exists>os'. sys_read sys fd 1 os = (Some (take 1 (rest os)), os') \<and> rest os' = tl (rest os))"

lemma byte_streamE:
  assumes "byte_stream sys fd rest"
  obtains os' where "sys_read sys fd 1 os = (Some (take 1 (rest os)), os')" "rest os' = tl (rest os)"
  using assms unfolding byte_stream_def by blast

text \<open>The characters \<open>fgets\<close> takes in \<open>n\<close> rounds, and whether it stopped at an \<open>EOF\<close>.\<close>

fun take_line :: "nat \<Rightarrow> u8 list \<Rightarrow> u8 list \<times> bool" where
  "take_line 0 bs = ([], False)"
| "take_line (Suc n) [] = ([], True)"
| "take_line (Suc n) (b # bs) =
     (if b = 0xFF then ([], True)
      else if b = 0x0A then ([b], False)
      else (b # fst (take_line n bs), snd (take_line n bs)))"

definition line_rest :: "nat \<Rightarrow> u8 list \<Rightarrow> u8 list" where
  "line_rest n bs = (let (l, eof) = take_line n bs in (if eof then tl else id) (drop (length l) bs))"

lemma line_rest_simps [simp]:
  "line_rest 0 bs = bs" "line_rest (Suc n) [] = []"
  "line_rest (Suc n) (b # bs) = (if b = 0xFF \<or> b = 0x0A then bs else line_rest n bs)"
  by (auto simp: line_rest_def Let_def case_prod_unfold)

lemma length_take_line: "length (fst (take_line n bs)) \<le> n"
  by (induction n bs rule: take_line.induct) auto

lemma take_line_full: "\<not> snd (take_line n bs) \<Longrightarrow> 0 < n \<Longrightarrow> fst (take_line n bs) \<noteq> []"
  by (cases bs; cases n) (auto split: if_splits)

lemma written_at_trans:
  assumes "written_at m p xs m1" and "written_at m1 (padd p (int (length xs))) ys m2" and "p \<noteq> NULL"
  shows "written_at m p (xs @ ys) m2"
proof -
  have out: "outside (padd p (int i)) (padd p (int (length xs))) (length ys)" if "i < length xs" for i
    using that assms(3) by (auto simp: outside_def padd_inject)
  have "load m2 (padd p (int i)) = Some ((xs @ ys) ! i)" if "i < length (xs @ ys)" for i
  proof (cases "i < length xs")
    case True
    then show ?thesis using assms(1,2) out by (simp add: written_at_def bytes_at_def nth_append)
  next
    case False
    then obtain j where j: "i = length xs + j" using le_Suc_ex by (metis not_less)
    then have "load m2 (padd (padd p (int (length xs))) (int j)) = Some (ys ! j)"
      using assms(2) that by (simp only: written_at_def bytes_at_def length_append nat_add_left_cancel_less)
    then show ?thesis using j by (simp add: nth_append)
  qed
  moreover have "load m2 q = load m q" if "outside q p (length (xs @ ys))" for q
  proof -
    have "outside q p (length xs)" using that by (simp add: outside_def)
    moreover have "outside q (padd p (int (length xs))) (length ys)"
      unfolding outside_def
    proof (intro allI impI)
      fix i assume "i < length ys"
      then have "q \<noteq> padd p (int (length xs + i))"
        using that [unfolded outside_def, rule_format, of "length xs + i"] by simp
      then show "q \<noteq> padd (padd p (int (length xs))) (int i)" by simp
    qed
    ultimately show ?thesis using assms(1,2) by (simp add: written_at_def)
  qed
  moreover have "valid m2 q = valid m q" for q using assms(1,2) by (simp add: written_at_def)
  ultimately show ?thesis by (simp add: written_at_def bytes_at_def)
qed

lemma written_at_store:
  "store p x m = Some m' \<Longrightarrow> p \<noteq> NULL \<Longrightarrow> written_at m p [x] m'"
  using written_at_snoc [OF written_at_Nil, of p x m m'] by simp

lemma fgets_loop_stream:
  assumes "byte_stream sys fd rest"
  shows "room m p n \<Longrightarrow> p \<noteq> NULL \<Longrightarrow> \<exists>c' m' os'. fgets_loop sys fd n (p, c, m, os) =
      Some (padd p (int (length (fst (take_line n (rest os))))), c', m', os')
    \<and> written_at m p (fst (take_line n (rest os))) m'
    \<and> (0 < n \<longrightarrow> c' \<noteq> None) \<and> (0 < n \<longrightarrow> (c' = Some EOF \<longleftrightarrow> snd (take_line n (rest os))))
    \<and> rest os' = line_rest n (rest os)"
proof (induction n arbitrary: p c m os)
  case 0
  then show ?case by (simp add: written_at_Nil)
next
  case (Suc n)
  obtain os1 where rd: "sys_read sys fd 1 os = (Some (take 1 (rest os)), os1)" and r1: "rest os1 = tl (rest os)"
    by (rule byte_streamE [OF assms])
  show ?case
  proof (cases "rest os")
    case Nil
    then show ?thesis using rd r1 by (simp add: fgetc_def written_at_Nil)
  next
    case (Cons b bs)
    have get: "fgetc sys fd os = Some (scast b, os1)" using rd Cons by (simp add: fgetc_def)
    show ?thesis
    proof (cases "b = 0xFF")
      case True
      then show ?thesis using get Cons r1 by (simp add: written_at_Nil)
    next
      case False
      have "valid m p" using Suc.prems(1) by (simp add: room_Suc)
      then obtain m1 where st: "store p b m = Some m1" using valid_store by blast
      have w1: "written_at m p [b] m1" using written_at_store [OF st Suc.prems(2)] .
      show ?thesis
      proof (cases "b = 0x0A")
        case True
        then show ?thesis using get Cons st w1 r1 by (simp add: scast_char_values)
      next
        case nl: False
        have room: "room m1 (padd p 1) n"
          using Suc.prems(1) room_store [OF st] by (simp add: room_Suc)
        have pn: "padd p 1 \<noteq> NULL" using Suc.prems(2) by (cases p) auto
        obtain c' m' os' where rec: "fgets_loop sys fd n (padd p 1, Some (scast b), m1, os1) =
            Some (padd (padd p 1) (int (length (fst (take_line n bs)))), c', m', os')"
          and w: "written_at m1 (padd p 1) (fst (take_line n bs)) m'"
          and c': "0 < n \<longrightarrow> c' \<noteq> None" "0 < n \<longrightarrow> (c' = Some EOF \<longleftrightarrow> snd (take_line n bs))"
            "rest os' = line_rest n bs"
          using Suc.IH [OF room pn, of "Some (scast b)" os1] r1 Cons by auto
        have w': "written_at m p (b # fst (take_line n bs)) m'"
          using written_at_trans [OF w1, of "fst (take_line n bs)" m'] w Suc.prems(2) by simp
        have "c' = Some (scast b) \<and> take_line n bs = ([], False)" if "n = 0"
          using rec that by simp
        then show ?thesis
          using get Cons st False nl rec w' c' by (cases "n = 0") (simp_all add: scast_char_values)
      qed
    qed
  qed
qed

lemma fgets_stream:
  assumes str: "byte_stream sys fd rest" and "2 \<le> n" and "n < 2 ^ 31" and room: "room m s n"
  shows "\<exists>m' os'. fgets sys s (of_nat n) fd m os =
      Some (if snd (take_line (n - 1) (rest os)) then NULL else s, m', os')
    \<and> written_at m s (fst (take_line (n - 1) (rest os)) @ [0]) m' \<and> rest os' = line_rest (n - 1) (rest os)"
proof -
  let ?l = "fst (take_line (n - 1) (rest os))"
  obtain k where k: "n = Suc k" "0 < k" using assms(2) by (cases n) auto
  have s: "s \<noteq> NULL" using room k by (auto simp: room_Suc valid_def)
  have sz: "sint (of_nat n :: i32) = int n"
    using assms(3) signed_take_bit_int_eq_self [of 31 "int n"] by (simp add: signed_of_nat)
  obtain c' m1 os' where loop: "fgets_loop sys fd k (s, None, m, os) = Some (padd s (int (length ?l)), c', m1, os')"
    and w: "written_at m s ?l m1" and c': "c' \<noteq> None" "c' = Some EOF \<longleftrightarrow> snd (take_line k (rest os))"
    and r: "rest os' = line_rest k (rest os)"
    using fgets_loop_stream [OF str room_mono [OF room, of k] s, of None os] k by auto
  have "length ?l < n" using length_take_line [of "n - 1" "rest os"] k by simp
  then have "valid m1 (padd s (int (length ?l)))" using room w by (simp add: room_def written_at_def)
  then obtain m2 where st: "store (padd s (int (length ?l))) 0 m1 = Some m2" using valid_store by blast
  have w2: "written_at m s (?l @ [0]) m2" using written_at_snoc [OF w s st] .
  have "?l = [] \<Longrightarrow> snd (take_line k (rest os))" using take_line_full [of k "rest os"] k by auto
  moreover have "padd s (int (length ?l)) = s \<longleftrightarrow> ?l = []" using padd_inject [OF s, of "int (length ?l)" 0] by simp
  ultimately show ?thesis
    using loop st w2 c' r k sz by (auto simp: fgets_def)
qed

text \<open>What has been written, as a list of (descriptor, bytes).\<close>

definition write_log :: "'os sys \<Rightarrow> ('os \<Rightarrow> (i32 \<times> u8 list) list) \<Rightarrow> bool" where
  "write_log sys out \<longleftrightarrow> (\<forall>fd bs os. out (snd (sys_write sys fd bs os)) = out os @ [(fd, bs)])"

lemma putchar_log: "write_log sys out \<Longrightarrow> out (snd (putchar sys (scast x) os)) = out os @ [(1, [x])]"
  by (simp add: putchar_def write_log_def)

lemma puts_log:
  assumes "write_log sys out"
  shows "cstring m p s \<Longrightarrow> \<exists>os'. puts sys m p os = Some (0, os') \<and> out os' = out os @ map (\<lambda>b. (1, [b])) (s @ [0x0A])"
proof (induction s arbitrary: p os)
  case Nil
  have "out (snd (sys_write sys 1 [0x0A] os)) = out os @ [(1, [0x0A])]"
    using assms by (simp add: write_log_def)
  then show ?case using Nil by (subst puts.simps) (simp add: cstring_Nil putchar_def)
next
  case (Cons x s)
  obtain os1 where p: "putchar sys (scast x) os = (scast x, os1)" by (simp add: putchar_def)
  have "out os1 = out os @ [(1, [x])]" using putchar_log [OF assms, of x os] p by simp
  then show ?case
    using Cons.IH [of "padd p 1" os1] Cons.prems p by (subst puts.simps) (auto simp: cstring_Cons)
qed

lemma print_loop_log:
  assumes "write_log sys out"
  shows "cstring m p s \<Longrightarrow> \<exists>os'. print_loop sys m p os = Some os'
    \<and> out os' = out os @ map (\<lambda>b. (1, [b])) (takeWhile (\<lambda>x. x \<noteq> 0x0A) s)"
proof (induction s arbitrary: p os)
  case Nil
  then show ?case by (subst print_loop.simps) (simp add: cstring_Nil)
next
  case (Cons x s)
  show ?case
    using Cons.IH [of "padd p 1" "snd (putchar sys (scast x) os)"] Cons.prems putchar_log [OF assms, of x os]
    by (subst print_loop.simps) (auto simp: cstring_Cons)
qed

lemma load_bytes_at: "bytes_at m p xs \<Longrightarrow> load_bytes m p (length xs) = Some xs"
  by (induction xs arbitrary: p) (simp_all add: bytes_at_Cons)

lemma bytes_at_append: "bytes_at m p (xs @ ys) \<longleftrightarrow> bytes_at m p xs \<and> bytes_at m (padd p (int (length xs))) ys"
  by (induction xs arbitrary: p) (simp_all add: bytes_at_Cons add.commute)

lemma fputs_log:
  assumes "write_log sys out" and "cstring m p s" and "length s < 2 ^ 31"
  shows "\<exists>os'. fputs sys m p fd os = Some (0, os') \<and> out os' = out os @ [(fd, s)]"
proof -
  have "load_bytes m p (length s) = Some s"
    using assms(2) by (intro load_bytes_at) (simp add: cstring_def bytes_at_append)
  then show ?thesis using strlen_cstring [OF assms(2,3)] assms(1) by (simp add: fputs_def write_log_def)
qed

section \<open>gets\<close>

lemma getchar_stream:
  assumes "byte_stream sys 0 rest" and "rest os = b # bs"
  obtains os' where "getchar sys os = Some (scast b, os')" "rest os' = bs"
proof -
  obtain os' where "sys_read sys 0 1 os = (Some (take 1 (rest os)), os')" "rest os' = tl (rest os)"
    by (rule byte_streamE [OF assms(1)])
  then show ?thesis using assms(2) by (intro that [of os']) (simp_all add: getchar_def)
qed

lemma gets_blanks_stream:
  assumes str: "byte_stream sys 0 rest"
  shows "rest os = blanks @ b # bs \<Longrightarrow> set blanks \<subseteq> {0x20, 0x09} \<Longrightarrow> b \<notin> {0x20, 0x09} \<Longrightarrow>
    \<exists>os'. gets_blanks sys os = Some (scast b, os') \<and> rest os' = bs"
proof (induction blanks arbitrary: os)
  case Nil
  obtain os' where "getchar sys os = Some (scast b, os')" "rest os' = bs"
    using getchar_stream [OF str] Nil(1) by (metis append_Nil)
  then show ?case using Nil(3) by (subst gets_blanks.simps) (simp add: scast_char_values)
next
  case (Cons x blanks)
  obtain os1 where g: "getchar sys os = Some (scast x, os1)" "rest os1 = blanks @ b # bs"
    using getchar_stream [OF str] Cons.prems(1) by (metis append_Cons)
  have "x = 0x20 \<or> x = 0x09" using Cons.prems(2) by simp
  then show ?case using Cons.IH [OF g(2)] Cons.prems g(1)
    by (subst gets_blanks.simps) (auto simp: scast_char_values)
qed

lemma gets_loop_stream:
  assumes str: "byte_stream sys 0 rest"
  shows "rest os = line @ 0x0A # bs \<Longrightarrow> 0x0A \<notin> set line \<Longrightarrow> 0xFF \<notin> set line \<Longrightarrow>
    n + length line \<le> 1024 \<Longrightarrow> s \<noteq> NULL \<Longrightarrow> room m s (Suc (length line)) \<Longrightarrow>
    \<exists>m' os'. gets_loop sys s (scast b) n m os = Some (padd s (int (Suc (length line))), m', os')
      \<and> written_at m s (b # line) m' \<and> rest os' = bs"
proof (induction line arbitrary: s b n m os)
  case Nil
  obtain m1 where st: "store s b m = Some m1"
    using Nil valid_store [of m s b] by (auto simp: room_Suc)
  obtain os' where g: "getchar sys os = Some (0x0A, os')" "rest os' = bs"
    using getchar_stream [OF str, of os "0x0A" bs] Nil(1) by auto
  have "written_at m s [b] m1" using written_at_store [OF st Nil(5)] .
  moreover have "gets_loop sys s (scast b) n m os = Some (padd s 1, m1, os')"
    using st g(1) by (subst gets_loop.simps) simp
  ultimately show ?case using g(2) by auto
next
  case (Cons x line)
  obtain m1 where st: "store s b m = Some m1"
    using Cons.prems valid_store [of m s b] by (auto simp: room_Suc)
  obtain os1 where g: "getchar sys os = Some (scast x, os1)" "rest os1 = line @ 0x0A # bs"
    using getchar_stream [OF str] Cons.prems(1) by (metis append_Cons)
  have pn: "padd s 1 \<noteq> NULL" using Cons.prems(5) by (cases s) auto
  have room: "room m1 (padd s 1) (Suc (length line))"
    using Cons.prems(6) room_store [OF st] room_Suc [of m s "Suc (length line)"] by simp
  obtain m' os' where rec: "gets_loop sys (padd s 1) (scast x) (n + 1) m1 os1 =
      Some (padd (padd s 1) (int (Suc (length line))), m', os')"
    and w: "written_at m1 (padd s 1) (x # line) m'" and r: "rest os' = bs"
    using Cons.IH [OF g(2) _ _ _ pn room, of "n + 1" x] Cons.prems by auto
  have "written_at m s ([b] @ x # line) m'"
    using written_at_trans [OF written_at_store [OF st Cons.prems(5)], of "x # line" m'] w Cons.prems(5) by simp
  moreover have "x \<noteq> 0x0A" "x \<noteq> 0xFF" "n + 1 \<le> 1024" using Cons.prems by auto
  ultimately show ?case using st g(1) rec r
    by (subst gets_loop.simps) (simp add: scast_char_values)
qed

section \<open>Blocks of bytes\<close>

lemma store_bytes_room:
  "room m p (length xs) \<Longrightarrow> \<exists>m'. store_bytes p xs m = Some m' \<and> written_at m p xs m'"
proof (induction xs arbitrary: p m)
  case Nil
  then show ?case by (simp add: written_at_Nil)
next
  case (Cons x xs)
  have pn: "p \<noteq> NULL" using Cons.prems room_not_null by (metis length_Cons)
  obtain m1 where st: "store p x m = Some m1" using Cons.prems valid_store [of m p x] by (auto simp: room_Suc)
  have "room m1 (padd p 1) (length xs)" using Cons.prems room_store [OF st] by (simp add: room_Suc)
  then obtain m' where "store_bytes (padd p 1) xs m1 = Some m'" "written_at m1 (padd p 1) xs m'"
    using Cons.IH by blast
  then show ?case using st written_at_trans [OF written_at_store [OF st pn], of xs m'] pn by simp
qed

lemma load_bytes_written: "written_at m p xs m' \<Longrightarrow> load_bytes m' p (length xs) = Some xs"
  by (rule load_bytes_at) (simp add: written_at_def)

section \<open>Properties\<close>

text \<open>C36: \<open>fgets\<close>. On a byte stream and a buffer of \<open>n\<close> bytes (2 or more) it stores the
  characters up to and including the first newline, at most \<open>n - 1\<close> of them, and a
  terminator, and touches no other byte. It returns its buffer only if it saw no end of
  file, and a byte 0xFF counts as one: so the last line of a file without a final newline
  is consumed and the null pointer returned, and a line is cut at a byte 0xFF.\<close>

theorem fgets_reads_line:
  assumes "byte_stream sys fd rest" and "2 \<le> n" and "n < 2 ^ 31" and "room m s n"
  shows "\<exists>m' os'. fgets sys s (of_nat n) fd m os =
      Some (if snd (take_line (n - 1) (rest os)) then NULL else s, m', os')
    \<and> bytes_at m' s (fst (take_line (n - 1) (rest os)) @ [0])
    \<and> (\<forall>q. outside q s n \<longrightarrow> load m' q = load m q)
    \<and> rest os' = line_rest (n - 1) (rest os)"
proof -
  obtain m' os' where f: "fgets sys s (of_nat n) fd m os =
      Some (if snd (take_line (n - 1) (rest os)) then NULL else s, m', os')"
    "written_at m s (fst (take_line (n - 1) (rest os)) @ [0]) m'" "rest os' = line_rest (n - 1) (rest os)"
    using fgets_stream [OF assms] by blast
  have "length (fst (take_line (n - 1) (rest os)) @ [0]) \<le> n"
    using length_take_line [of "n - 1" "rest os"] assms(2) by simp
  then have "outside q s n \<Longrightarrow> outside q s (length (fst (take_line (n - 1) (rest os)) @ [0]))" for q
    by (auto simp: outside_def)
  then show ?thesis using f unfolding written_at_def by blast
qed

text \<open>A file system with one open file, and the log of what is written.\<close>

type_synonym open_file = "u8 list \<times> (i32 \<times> u8 list) list"

definition file_sys :: "open_file sys" where
  "file_sys = \<lparr>sys_read = \<lambda>fd n f. (Some (take n (fst f)), (drop n (fst f), snd f)),
     sys_write = \<lambda>fd bs f. (of_nat (length bs), (fst f, snd f @ [(fd, bs)]))\<rparr>"

lemma file_sys: "byte_stream file_sys fd fst" "write_log file_sys snd"
  by (auto simp: byte_stream_def write_log_def file_sys_def drop_Suc)

theorem fgets_reads_line_witness:
  "\<exists>m' os'. fgets file_sys (Ptr 0 0) 8 0 [Some (replicate 8 7)] (bytes ''ls'' @ [0x0A] @ bytes ''x'', []) = Some (Ptr 0 0, m', os')
     \<and> fst os' = bytes ''x''"
proof -
  have "room [Some (replicate 8 7)] (Ptr 0 0) 8" by (auto simp: room_def valid_def block_def)
  from fgets_reads_line [OF file_sys(1) _ _ this, of 0 "(bytes ''ls'' @ [0x0A] @ bytes ''x'', [])"]
  have "\<exists>m' os'. fgets file_sys (Ptr 0 0) (of_nat 8) 0 [Some (replicate 8 7)] (bytes ''ls'' @ [0x0A] @ bytes ''x'', [])
        = Some (if snd (take_line 7 (bytes ''ls'' @ [0x0A] @ bytes ''x'')) then NULL else Ptr 0 0, m', os')
      \<and> fst os' = line_rest 7 (bytes ''ls'' @ [0x0A] @ bytes ''x'')" by auto
  moreover have "snd (take_line 7 (bytes ''ls'' @ [0x0A] @ bytes ''x'')) = False"
    "line_rest 7 (bytes ''ls'' @ [0x0A] @ bytes ''x'') = bytes ''x''"
    by code_simp+
  ultimately show ?thesis by (simp only: if_False of_nat_numeral)
qed

text \<open>\<open>gets\<close> skips leading blanks and stores the line (up to 1024 characters) and a
  terminator, but what it returns is the pointer to that terminator: read as a string the
  result is empty, whatever was typed.\<close>

theorem gets_returns_end:
  assumes "byte_stream sys 0 rest" and "rest os = blanks @ line @ 0x0A # bs"
    and "set blanks \<subseteq> {0x20, 0x09}" and "line \<noteq> []" and "hd line \<notin> {0x20, 0x09}"
    and "0x0A \<notin> set line" and "0xFF \<notin> set line" and "length line \<le> 1024"
    and "room m s (Suc (length line))"
  shows "\<exists>m' os'. gets sys s m os = Some (padd s (int (length line)), m', os')
    \<and> bytes_at m' s (line @ [0]) \<and> cstring m' (padd s (int (length line))) [] \<and> rest os' = bs"
proof -
  obtain b line' where l: "line = b # line'" using assms(4) by (cases line) auto
  have s: "s \<noteq> NULL" using assms(9) by (auto simp: room_Suc valid_def)
  obtain os1 where g: "gets_blanks sys os = Some (scast b, os1)" "rest os1 = line' @ 0x0A # bs"
    using gets_blanks_stream [OF assms(1), of os blanks b "line' @ 0x0A # bs"] assms(2,3,5) l by auto
  have rm: "room m s (Suc (length line'))" using room_mono [OF assms(9), of "Suc (length line')"] l by simp
  obtain m1 os2 where lp: "gets_loop sys s (scast b) 1 m os1 = Some (padd s (int (length line)), m1, os2)"
    and w: "written_at m s line m1" and r: "rest os2 = bs"
    using gets_loop_stream [OF assms(1) g(2) _ _ _ s rm, of 1 b] assms(6-8) l by auto
  have "valid m1 (padd s (int (length line)))" using assms(9) w by (simp add: room_def written_at_def)
  then obtain m2 where st: "store (padd s (int (length line))) 0 m1 = Some m2" using valid_store by blast
  have w2: "written_at m s (line @ [0]) m2" using written_at_snoc [OF w s st] .
  have "load m2 (padd s (int (length line))) = Some 0" using load_store [OF st] by simp
  moreover have "scast b \<noteq> (0x0A :: i32)" using assms(6) l by (simp add: scast_char_values)
  ultimately show ?thesis
    using g(1) lp st w2 r by (simp add: gets_def written_at_def cstring_Nil)
qed

theorem gets_returns_end_witness:
  "\<exists>m' os'. gets file_sys (Ptr 0 0) [Some (replicate 8 7)] ([0x20] @ bytes ''ls'' @ 0x0A # [], []) = Some (Ptr 0 2, m', os')
     \<and> cstring m' (Ptr 0 2) []"
proof -
  have "room [Some (replicate 8 7)] (Ptr 0 0) (Suc (length (bytes ''ls'')))"
    by (auto simp: room_def valid_def block_def)
  from gets_returns_end [OF file_sys(1) _ _ _ _ _ _ _ this, of "([0x20] @ bytes ''ls'' @ 0x0A # [], [])" "[0x20]" "[]"]
  show ?thesis by auto
qed

text \<open>The output routines. For a string argument \<open>puts\<close> writes its bytes one at a time and
  then a newline to descriptor 1 and returns 0; \<open>print\<close> writes its bytes up to the first
  newline; \<open>fputs\<close> writes the whole string in one call to the stream's descriptor.\<close>

theorem output_routines_write:
  assumes "write_log sys out" and "cstring m p s" and "length s < 2 ^ 31"
  shows "(\<exists>os'. puts sys m p os = Some (0, os') \<and> out os' = out os @ map (\<lambda>b. (1, [b])) (s @ [0x0A]))
    \<and> (\<exists>os'. print sys m p os = Some os' \<and> out os' = out os @ map (\<lambda>b. (1, [b])) (takeWhile (\<lambda>x. x \<noteq> 0x0A) s))
    \<and> (\<exists>os'. fputs sys m p fd os = Some (0, os') \<and> out os' = out os @ [(fd, s)])"
  using puts_log [OF assms(1,2)] print_loop_log [OF assms(1,2)] fputs_log [OF assms] cstring_not_null [OF assms(2)]
  by (simp add: print_def)

theorem output_routines_write_witness:
  "\<exists>os'. puts file_sys two_strings (Ptr 0 0) ([], []) = Some (0, os')
     \<and> snd os' = map (\<lambda>b. (1, [b])) (bytes ''pwd'' @ [0x0A])"
  using output_routines_write [OF file_sys(2) two_strings(1), of "([], [])"] by simp

end
