(* ===== verification/Syscall.thy ===== *)
theory Syscall
  imports IsrStubs Stdio
begin

text \<open>
  The system call wrappers of include/sys/syscall.h: each puts the call's number and its
  arguments into the registers its inline assembly names and executes \<open>syscall\<close>. The kernel
  that answers is a parameter, a function of the registers it is entered with; registers the
  assembly does not name hold whatever the surrounding code has left in them. An \<open>int\<close> sets
  the lower half of its register only.
\<close>

section \<open>The instruction\<close>

type_synonym registers = "reg \<Rightarrow> u64"
type_synonym 'k kernel = "registers \<Rightarrow> 'k \<Rightarrow> u64 \<times> 'k"

definition set32 :: "reg \<Rightarrow> i32 \<Rightarrow> registers \<Rightarrow> registers" where
  "set32 x v r = r(x := push_bit 32 (drop_bit 32 (r x)) OR ucast v)"

text \<open>\<open>syscall\<close> saves the return address in \<open>rcx\<close> and the flags in \<open>r11\<close> before the kernel
  runs; the pair \<open>at\<close> is these two values.\<close>

definition syscall :: "'k kernel \<Rightarrow> u64 \<times> u64 \<Rightarrow> i32 \<Rightarrow> registers \<Rightarrow> 'k \<Rightarrow> u64 \<times> 'k" where
  "syscall os at nr r k = os ((set32 RAX nr r)(RCX := fst at, R11 := snd at)) k"

text \<open>The result of a wrapper that returns an \<open>int\<close>.\<close>

definition int_result :: "u64 \<times> 'k \<Rightarrow> i32 \<times> 'k" where
  "int_result = apfst ucast"

section \<open>The numbers\<close>

abbreviation (input) NR_read_64 :: i32 where "NR_read_64 \<equiv> 0"
abbreviation (input) NR_write_64 :: i32 where "NR_write_64 \<equiv> 1"
abbreviation (input) NR_getpid_64 :: i32 where "NR_getpid_64 \<equiv> 39"
abbreviation (input) NR_open_64 :: i32 where "NR_open_64 \<equiv> 2"
abbreviation (input) NR_close_64 :: i32 where "NR_close_64 \<equiv> 3"
abbreviation (input) NR_exit_64 :: i32 where "NR_exit_64 \<equiv> 60"
abbreviation (input) NR_mmap_64 :: i32 where "NR_mmap_64 \<equiv> 9"
abbreviation (input) NR_munmap_64 :: i32 where "NR_munmap_64 \<equiv> 11"
abbreviation (input) NR_pipe_64 :: i32 where "NR_pipe_64 \<equiv> 22"
abbreviation (input) NR_dup2_64 :: i32 where "NR_dup2_64 \<equiv> 33"
abbreviation (input) NR_fork_64 :: i32 where "NR_fork_64 \<equiv> 57"
abbreviation (input) NR_execve_64 :: i32 where "NR_execve_64 \<equiv> 59"
abbreviation (input) NR_waitpid_64 :: i32 where "NR_waitpid_64 \<equiv> 61"
abbreviation (input) NR_getcwd_64 :: i32 where "NR_getcwd_64 \<equiv> 79"
abbreviation (input) NR_chdir_64 :: i32 where "NR_chdir_64 \<equiv> 80"
abbreviation (input) NR_getpgid_64 :: i32 where "NR_getpgid_64 \<equiv> 121"
abbreviation (input) NR_setpgid_64 :: i32 where "NR_setpgid_64 \<equiv> 109"
abbreviation (input) NR_getpgrp_64 :: i32 where "NR_getpgrp_64 \<equiv> 111"
abbreviation (input) NR_ioctl_64 :: i32 where "NR_ioctl_64 \<equiv> 16"
abbreviation (input) NR_lseek_64 :: i32 where "NR_lseek_64 \<equiv> 8"
abbreviation (input) TIOCGPGRP :: i32 where "TIOCGPGRP \<equiv> 0x540F"
abbreviation (input) TIOCSPGRP :: i32 where "TIOCSPGRP \<equiv> 0x5410"

section \<open>The wrappers\<close>

text \<open>The parameters after the C function's own: the kernel, the return address and flags, the
  registers before the assembly, the state of the system.\<close>

definition read :: "i32 \<Rightarrow> u64 \<Rightarrow> i32 \<Rightarrow> 'k kernel \<Rightarrow> u64 \<times> u64 \<Rightarrow> registers \<Rightarrow> 'k \<Rightarrow> i32 \<times> 'k" where
  "read fd buf len os at r k =
     int_result (syscall os at NR_read_64 (set32 RDX len ((set32 RBX fd r)(RCX := buf))) k)"

definition write_call :: "i32 \<Rightarrow> u64 \<Rightarrow> i32 \<Rightarrow> 'k kernel \<Rightarrow> u64 \<times> u64 \<Rightarrow> registers \<Rightarrow> 'k \<Rightarrow> i32 \<times> 'k" where
  "write_call fd buf len os at r k =
     int_result (syscall os at NR_write_64 (set32 RDX len ((set32 RDI fd r)(RSI := buf))) k)"

definition getpid :: "'k kernel \<Rightarrow> u64 \<times> u64 \<Rightarrow> registers \<Rightarrow> 'k \<Rightarrow> i32 \<times> 'k" where
  "getpid os at r k = int_result (syscall os at NR_getpid_64 r k)"

definition open_call :: "u64 \<Rightarrow> i32 \<Rightarrow> 'k kernel \<Rightarrow> u64 \<times> u64 \<Rightarrow> registers \<Rightarrow> 'k \<Rightarrow> i32 \<times> 'k" where
  "open_call path permissions os at r k =
     int_result (syscall os at NR_open_64 (set32 RCX permissions (r(RBX := path))) k)"

definition close :: "i32 \<Rightarrow> 'k kernel \<Rightarrow> u64 \<times> u64 \<Rightarrow> registers \<Rightarrow> 'k \<Rightarrow> i32 \<times> 'k" where
  "close fd os at r k = int_result (syscall os at NR_close_64 (set32 RBX fd r) k)"

definition exit :: "'k kernel \<Rightarrow> u64 \<times> u64 \<Rightarrow> registers \<Rightarrow> 'k \<Rightarrow> 'k" where
  "exit os at r k = snd (syscall os at NR_exit_64 r k)"

text \<open>\<open>pipe\<close> passes the two elements of the array, not the array.\<close>

definition pipe :: "i32 \<times> i32 \<Rightarrow> 'k kernel \<Rightarrow> u64 \<times> u64 \<Rightarrow> registers \<Rightarrow> 'k \<Rightarrow> i32 \<times> 'k" where
  "pipe pipefd os at r k =
     int_result (syscall os at NR_pipe_64 (set32 RCX (snd pipefd) (set32 RBX (fst pipefd) r)) k)"

definition dup2 :: "i32 \<Rightarrow> i32 \<Rightarrow> 'k kernel \<Rightarrow> u64 \<times> u64 \<Rightarrow> registers \<Rightarrow> 'k \<Rightarrow> i32 \<times> 'k" where
  "dup2 oldfd newfd os at r k =
     int_result (syscall os at NR_dup2_64 (set32 RCX newfd (set32 RBX oldfd r)) k)"

definition fork :: "'k kernel \<Rightarrow> u64 \<times> u64 \<Rightarrow> registers \<Rightarrow> 'k \<Rightarrow> i32 \<times> 'k" where
  "fork os at r k = int_result (syscall os at NR_fork_64 r k)"

definition execve :: "u64 \<Rightarrow> u64 \<Rightarrow> u64 \<Rightarrow> 'k kernel \<Rightarrow> u64 \<times> u64 \<Rightarrow> registers \<Rightarrow> 'k \<Rightarrow> i32 \<times> 'k" where
  "execve path argv envp os at r k =
     int_result (syscall os at NR_execve_64 (r(RBX := path, RCX := argv, RDX := envp)) k)"

definition waitpid :: "i32 \<Rightarrow> u64 \<Rightarrow> i32 \<Rightarrow> 'k kernel \<Rightarrow> u64 \<times> u64 \<Rightarrow> registers \<Rightarrow> 'k \<Rightarrow> i32 \<times> 'k" where
  "waitpid pid status options os at r k =
     int_result (syscall os at NR_waitpid_64 (set32 RDX options ((set32 RBX pid r)(RCX := status))) k)"

definition chdir :: "u64 \<Rightarrow> 'k kernel \<Rightarrow> u64 \<times> u64 \<Rightarrow> registers \<Rightarrow> 'k \<Rightarrow> i32 \<times> 'k" where
  "chdir path os at r k = int_result (syscall os at NR_chdir_64 (r(RBX := path)) k)"

definition getcwd :: "u64 \<Rightarrow> i32 \<Rightarrow> 'k kernel \<Rightarrow> u64 \<times> u64 \<Rightarrow> registers \<Rightarrow> 'k \<Rightarrow> u64 \<times> 'k" where
  "getcwd buf len os at r k =
     (let (ret, k) = int_result (syscall os at NR_getcwd_64 (set32 RCX len (r(RBX := buf))) k)
      in (if ret = 0 then buf else 0, k))"

definition setpgid :: "i32 \<Rightarrow> i32 \<Rightarrow> 'k kernel \<Rightarrow> u64 \<times> u64 \<Rightarrow> registers \<Rightarrow> 'k \<Rightarrow> i32 \<times> 'k" where
  "setpgid pid pgid os at r k =
     int_result (syscall os at NR_setpgid_64 (set32 RCX pgid (set32 RBX pid r)) k)"

definition getpgid :: "i32 \<Rightarrow> 'k kernel \<Rightarrow> u64 \<times> u64 \<Rightarrow> registers \<Rightarrow> 'k \<Rightarrow> i32 \<times> 'k" where
  "getpgid pid os at r k = int_result (syscall os at NR_getpgid_64 (set32 RBX pid r) k)"

definition getpgrp :: "i32 \<Rightarrow> 'k kernel \<Rightarrow> u64 \<times> u64 \<Rightarrow> registers \<Rightarrow> 'k \<Rightarrow> i32 \<times> 'k" where
  "getpgrp pid os at r k = int_result (syscall os at NR_getpgrp_64 (set32 RBX pid r) k)"

text \<open>\<open>val_addr\<close> and \<open>pgrp_addr\<close> are the addresses of the local variables.\<close>

definition tcgetpgrp :: "i32 \<Rightarrow> u64 \<Rightarrow> 'k kernel \<Rightarrow> u64 \<times> u64 \<Rightarrow> registers \<Rightarrow> 'k \<Rightarrow> i32 \<times> 'k" where
  "tcgetpgrp fd val_addr os at r k =
     int_result (syscall os at NR_ioctl_64 ((set32 RCX TIOCGPGRP (set32 RBX fd r))(RDX := val_addr)) k)"

definition tcsetpgrp :: "i32 \<Rightarrow> u64 \<Rightarrow> 'k kernel \<Rightarrow> u64 \<times> u64 \<Rightarrow> registers \<Rightarrow> 'k \<Rightarrow> i32 \<times> 'k" where
  "tcsetpgrp fd pgrp_addr os at r k =
     int_result (syscall os at NR_ioctl_64 ((set32 RCX TIOCSPGRP (set32 RBX fd r))(RDX := pgrp_addr)) k)"

text \<open>The constraint of \<open>flags\<close>, \<open>fd\<close> and \<open>offset\<close> lets the compiler keep them anywhere: they
  set no register of their own.\<close>

definition mmap :: "u64 \<Rightarrow> i32 \<Rightarrow> i32 \<Rightarrow> i32 \<Rightarrow> i32 \<Rightarrow> i32 \<Rightarrow> 'k kernel \<Rightarrow> u64 \<times> u64 \<Rightarrow> registers \<Rightarrow> 'k \<Rightarrow> u64 \<times> 'k" where
  "mmap addr len prot flags fd offset os at r k =
     syscall os at NR_mmap_64 (set32 RDX prot (set32 RCX len (r(RBX := addr)))) k"

definition munmap :: "u64 \<Rightarrow> i32 \<Rightarrow> 'k kernel \<Rightarrow> u64 \<times> u64 \<Rightarrow> registers \<Rightarrow> 'k \<Rightarrow> i32 \<times> 'k" where
  "munmap addr len os at r k =
     int_result (syscall os at NR_munmap_64 (set32 RCX len (r(RBX := addr))) k)"

definition lseek :: "i32 \<Rightarrow> u64 \<Rightarrow> i32 \<Rightarrow> 'k kernel \<Rightarrow> u64 \<times> u64 \<Rightarrow> registers \<Rightarrow> 'k \<Rightarrow> u64 \<times> 'k" where
  "lseek fd offset whence os at r k =
     syscall os at NR_lseek_64 (set32 RDX whence ((set32 RBX fd r)(RCX := offset))) k"

section \<open>What a kernel sees\<close>

text \<open>A kernel with the Linux convention reads the number from \<open>eax\<close> and the arguments from
  \<open>rdi\<close>, \<open>rsi\<close>, \<open>rdx\<close>, \<open>r10\<close>, \<open>r8\<close> and \<open>r9\<close>.\<close>

definition linux :: "(i32 \<Rightarrow> u64 \<times> u64 \<times> u64 \<times> u64 \<times> u64 \<times> u64 \<Rightarrow> 'k \<Rightarrow> u64 \<times> 'k) \<Rightarrow> 'k kernel" where
  "linux h r k = h (ucast (r RAX)) (r RDI, r RSI, r RDX, r R10, r R8, r R9) k"

lemma set32_other [simp]: "x \<noteq> y \<Longrightarrow> set32 x v r y = r y"
  by (simp add: set32_def)

lemma set32_RDX: "set32 RDX v r RDX = push_bit 32 (drop_bit 32 (r RDX)) OR ucast v"
  by (simp add: set32_def)

lemma set32_low [simp]: "ucast (set32 x v r x) = v"
proof -
  have "bit (ucast (set32 x v r x) :: i32) n = bit v n" for n
    using bit_imp_le_length [of v n] by (auto simp: set32_def bit_simps)
  then show ?thesis by (rule bit_word_eqI)
qed

lemmas wrapper_defs = read_def write_call_def getpid_def open_call_def close_def exit_def pipe_def dup2_def fork_def
  execve_def waitpid_def chdir_def getcwd_def setpgid_def getpgid_def getpgrp_def tcgetpgrp_def tcsetpgrp_def
  mmap_def munmap_def lseek_def syscall_def

text \<open>What \<open>h\<close> answers to call \<open>nr\<close> with \<open>rdx\<close> set and the other argument registers as they
  were before the assembly.\<close>

definition unset_call ::
  "(i32 \<Rightarrow> u64 \<times> u64 \<times> u64 \<times> u64 \<times> u64 \<times> u64 \<Rightarrow> 'k \<Rightarrow> u64 \<times> 'k) \<Rightarrow> i32 \<Rightarrow> u64 \<Rightarrow> registers \<Rightarrow> 'k \<Rightarrow> u64 \<times> 'k" where
  "unset_call h nr rdx r k = h nr (r RDI, r RSI, rdx, r R10, r R8, r R9) k"

lemmas seen_defs = wrapper_defs linux_def unset_call_def

text \<open>How the wrappers pass arguments to a Linux kernel. \<open>write\<close> puts the descriptor, the
  buffer and the size where the kernel looks for its first three arguments. In every other
  wrapper the first two arguments the kernel sees are what \<open>rdi\<close> and \<open>rsi\<close> happened to hold,
  whatever the wrapper was called with, and only a third argument is set: they are right only
  if the compiler has left the C call's own argument registers alone. In \<open>mmap\<close>, flags,
  descriptor and offset are what \<open>r10\<close>, \<open>r8\<close> and \<open>r9\<close> happened to hold.\<close>

theorem wrapper_arguments:
  "write_call fd buf len (linux h) at r k
      = int_result (h 1 (set32 RDI fd r RDI, buf, set32 RDX len r RDX, r R10, r R8, r R9) k)
    \<and> ucast (set32 RDI fd r RDI) = fd \<and> ucast (set32 RDX len r RDX) = len
    \<and> read fd buf len (linux h) at r k = int_result (unset_call h 0 (set32 RDX len r RDX) r k)
    \<and> open_call path permissions (linux h) at r k = int_result (unset_call h 2 (r RDX) r k)
    \<and> close fd (linux h) at r k = int_result (unset_call h 3 (r RDX) r k)
    \<and> pipe pipefd (linux h) at r k = int_result (unset_call h 22 (r RDX) r k)
    \<and> dup2 oldfd newfd (linux h) at r k = int_result (unset_call h 33 (r RDX) r k)
    \<and> execve path argv envp (linux h) at r k = int_result (unset_call h 59 envp r k)
    \<and> waitpid pid status options (linux h) at r k = int_result (unset_call h 61 (set32 RDX options r RDX) r k)
    \<and> chdir path (linux h) at r k = int_result (unset_call h 80 (r RDX) r k)
    \<and> setpgid pid pgid (linux h) at r k = int_result (unset_call h 109 (r RDX) r k)
    \<and> mmap addr len prot flags fd offset (linux h) at r k = unset_call h 9 (set32 RDX prot r RDX) r k
    \<and> munmap addr len (linux h) at r k = int_result (unset_call h 11 (r RDX) r k)
    \<and> lseek fd off whence (linux h) at r k = unset_call h 8 (set32 RDX whence r RDX) r k"
  by (simp add: seen_defs set32_RDX set32_low [of RDX, unfolded set32_RDX])


end
