(* ===== verification/Malloc.thy ===== *)
theory Malloc
  imports Allocator
begin

text \<open>
  The allocator of libc/malloc.c on a flat memory: an address holds a byte or is not mapped,
  and an access to an address that is not mapped faults (\<open>None\<close>). \<open>mmap\<close> and \<open>munmap\<close> work on
  4096-byte pages; which address \<open>mmap\<close> picks, or that it fails, is the parameter \<open>pick\<close>. A
  \<open>meta_block\<close> is its 24 bytes in memory: \<open>addr\<close> at offset 0, \<open>blockSize\<close> at 8, \<open>next\<close> at 16.
\<close>

section \<open>Memory\<close>

type_synonym cells = "nat \<Rightarrow> u8 option"

fun read_bytes :: "cells \<Rightarrow> nat \<Rightarrow> nat \<Rightarrow> u8 list option" where
  "read_bytes c a 0 = Some []"
| "read_bytes c a (Suc n) = do { x \<leftarrow> c a; xs \<leftarrow> read_bytes c (a + 1) n; Some (x # xs) }"

fun write_bytes :: "nat \<Rightarrow> u8 list \<Rightarrow> cells \<Rightarrow> cells option" where
  "write_bytes a [] c = Some c"
| "write_bytes a (x # xs) c = (if c a = None then None else write_bytes (a + 1) xs (c(a := Some x)))"

text \<open>A pointer field and an \<open>int\<close> field.\<close>

definition read_ptr :: "cells \<Rightarrow> nat \<Rightarrow> nat option" where
  "read_ptr c a = map_option (\<lambda>bs. unat (of_le bs :: u64)) (read_bytes c a 8)"

definition write_ptr :: "nat \<Rightarrow> nat \<Rightarrow> cells \<Rightarrow> cells option" where
  "write_ptr a v c = write_bytes a (le_bytes 8 (of_nat v :: u64)) c"

definition read_int :: "cells \<Rightarrow> nat \<Rightarrow> i32 option" where
  "read_int c a = map_option of_le (read_bytes c a 4)"

definition write_int :: "nat \<Rightarrow> i32 \<Rightarrow> cells \<Rightarrow> cells option" where
  "write_int a v c = write_bytes a (le_bytes 4 v) c"

definition page_up :: "nat \<Rightarrow> nat" where
  "page_up n = 4096 * ((n + 4095) div 4096)"

text \<open>The system calls. A failing \<open>mmap\<close> returns a negated error number, here \<open>- ENOMEM\<close>.\<close>

type_synonym picker = "nat \<Rightarrow> cells \<Rightarrow> nat option"

definition mmap :: "picker \<Rightarrow> nat \<Rightarrow> cells \<Rightarrow> nat \<times> cells" where
  "mmap pick len c =
     (case pick len c of None \<Rightarrow> (2 ^ 64 - 12, c)
      | Some a \<Rightarrow> (a, \<lambda>x. if a \<le> x \<and> x < a + page_up len then Some 0 else c x))"

definition munmap :: "nat \<Rightarrow> nat \<Rightarrow> cells \<Rightarrow> cells" where
  "munmap a len c = (\<lambda>x. if a \<le> x \<and> x < a + page_up len then None else c x)"

text \<open>What \<open>mmap\<close> documents: pages that were not mapped, below the kernel's half of the address
  space.\<close>

definition fresh_pages :: "picker \<Rightarrow> bool" where
  "fresh_pages pick \<longleftrightarrow> (\<forall>len c a. pick len c = Some a \<longrightarrow>
     0 < a \<and> 4096 dvd a \<and> a + page_up len < 2 ^ 63 \<and> (\<forall>x. a \<le> x \<longrightarrow> x < a + page_up len \<longrightarrow> c x = None))"

lemma fresh_pagesD:
  "fresh_pages pick \<Longrightarrow> pick len c = Some a \<Longrightarrow> a \<le> x \<Longrightarrow> x < a + page_up len \<Longrightarrow> c x = None"
  by (simp add: fresh_pages_def)

section \<open>The allocator\<close>

abbreviation (input) sizeof_meta_block :: nat where "sizeof_meta_block \<equiv> 24"

record heap =
  cells :: cells
  ROOT :: nat

text \<open>\<open>new_meta_block + sizeof(meta_block)\<close> is pointer arithmetic: 24 times 24 bytes.\<close>

definition getNewBlock :: "picker \<Rightarrow> nat \<Rightarrow> cells \<Rightarrow> (nat \<times> cells) option" where
  "getNewBlock pick len c =
     (let (new_meta_block, c) = mmap pick (sizeof_meta_block + len) c
      in if new_meta_block = 0 then Some (0, c)
         else do {
           c \<leftarrow> write_int (new_meta_block + 8) (of_nat len) c;
           c \<leftarrow> write_ptr new_meta_block (new_meta_block + sizeof_meta_block * sizeof_meta_block) c;
           c \<leftarrow> write_ptr (new_meta_block + 16) 0 c;
           Some (new_meta_block, c)
         })"

definition allocateMemoryWhenListIsEmpty :: "picker \<Rightarrow> nat \<Rightarrow> heap \<Rightarrow> heap option" where
  "allocateMemoryWhenListIsEmpty pick len h = do {
     (root, c) \<leftarrow> getNewBlock pick len (cells h);
     Some \<lparr>cells = c, ROOT = root\<rparr>
   }"

definition getMemoryBlockFromOs :: "picker \<Rightarrow> nat \<Rightarrow> heap \<Rightarrow> (nat \<times> heap) option" where
  "getMemoryBlockFromOs pick len h = do {
     (new_metaBlock, c) \<leftarrow> getNewBlock pick len (cells h);
     next \<leftarrow> read_ptr c (ROOT h + 16);
     c \<leftarrow> write_ptr (new_metaBlock + 16) next c;
     Some (new_metaBlock, \<lparr>cells = c, ROOT = new_metaBlock\<rparr>)
   }"

definition malloc :: "picker \<Rightarrow> int \<Rightarrow> heap \<Rightarrow> (nat \<times> heap) option" where
  "malloc pick len h =
     (if len \<le> 0 then Some (0, h)
      else if ROOT h = 0 then do {
        h \<leftarrow> allocateMemoryWhenListIsEmpty pick (nat len) h;
        addr \<leftarrow> read_ptr (cells h) (ROOT h);
        Some (addr, h)
      }
      else getMemoryBlockFromOs pick (nat len) h)"

partial_function (option) free_loop :: "nat \<Rightarrow> nat \<Rightarrow> nat \<Rightarrow> heap \<Rightarrow> heap option" where
  "free_loop ptr prev trav h =
     (if trav = 0 then Some h
      else do {
        addr \<leftarrow> read_ptr (cells h) trav;
        if addr = ptr then do {
          c \<leftarrow> (if prev \<noteq> 0 then do {
                 next \<leftarrow> read_ptr (cells h) (trav + 16);
                 write_ptr (prev + 16) next (cells h)
               } else Some (cells h));
          blockSize \<leftarrow> read_int c (trav + 8);
          Some (h\<lparr>cells := munmap trav (nat (sint blockSize) + sizeof_meta_block) c\<rparr>)
        }
        else do {
          next \<leftarrow> read_ptr (cells h) (trav + 16);
          free_loop ptr trav next h
        }
      })"

definition free :: "nat \<Rightarrow> heap \<Rightarrow> heap option" where
  "free ptr h = (if ptr = 0 then Some h else free_loop ptr 0 (ROOT h) h)"

section \<open>Bytes\<close>

definition mapped :: "cells \<Rightarrow> nat \<Rightarrow> nat \<Rightarrow> bool" where
  "mapped c a n \<longleftrightarrow> (\<forall>x. a \<le> x \<longrightarrow> x < a + n \<longrightarrow> c x \<noteq> None)"

lemma read_bytes_cong:
  "(\<And>x. a \<le> x \<Longrightarrow> x < a + n \<Longrightarrow> c x = d x) \<Longrightarrow> read_bytes c a n = read_bytes d a n"
  by (induction n arbitrary: a) simp_all

lemma mapped_0 [simp]: "mapped c a 0"
  by (simp add: mapped_def)

lemma mapped_Suc: "mapped c a (Suc n) \<longleftrightarrow> c a \<noteq> None \<and> mapped c (a + 1) n"
  unfolding mapped_def by (auto simp: Suc_le_eq) (metis le_neq_implies_less option.distinct(1) not_None_eq)

lemma read_bytes_Some: "read_bytes c a n \<noteq> None \<longleftrightarrow> mapped c a n"
proof (induction n arbitrary: a)
  case 0
  show ?case by simp
next
  case (Suc n)
  show ?case using Suc.IH [of "a + 1"]
    by (cases "c a"; cases "read_bytes c (a + 1) n") (simp_all add: mapped_Suc)
qed

text \<open>A block of bytes put into memory.\<close>

definition put_bytes :: "nat \<Rightarrow> u8 list \<Rightarrow> cells \<Rightarrow> cells" where
  "put_bytes a xs c = (\<lambda>x. if a \<le> x \<and> x < a + length xs then Some (xs ! (x - a)) else c x)"

lemma put_bytes_Cons: "put_bytes (a + 1) xs (c(a := Some x)) = put_bytes a (x # xs) c"
proof
  fix y
  show "put_bytes (a + 1) xs (c(a := Some x)) y = put_bytes a (x # xs) c y"
    by (cases "y = a") (auto simp: put_bytes_def nth_Cons')
qed

lemma write_bytes_eq: "mapped c a (length xs) \<Longrightarrow> write_bytes a xs c = Some (put_bytes a xs c)"
proof (induction xs arbitrary: a c)
  case Nil
  show ?case by (auto simp: put_bytes_def fun_eq_iff)
next
  case (Cons x xs)
  then have "mapped (c(a := Some x)) (a + 1) (length xs)" by (auto simp: mapped_def)
  then have "write_bytes (a + 1) xs (c(a := Some x)) = Some (put_bytes a (x # xs) c)"
    using Cons.IH [of "c(a := Some x)" "a + 1"] by (simp only: put_bytes_Cons)
  then show ?case using Cons.prems by (simp add: mapped_Suc)
qed

lemma read_bytes_put: "read_bytes (put_bytes a xs c) a (length xs) = Some xs"
proof (induction xs arbitrary: a c)
  case Nil
  show ?case by simp
next
  case (Cons x xs)
  have "put_bytes a (x # xs) c a = Some x" by (simp add: put_bytes_def)
  moreover have "read_bytes (put_bytes a (x # xs) c) (a + 1) (length xs) = Some xs"
    using Cons [of "a + 1" "c(a := Some x)"] unfolding put_bytes_Cons .
  ultimately show ?case by simp
qed

lemma put_bytes_other: "x < a \<or> a + length xs \<le> x \<Longrightarrow> put_bytes a xs c x = c x"
  by (auto simp: put_bytes_def)

lemma mapped_put: "mapped c a (length xs) \<Longrightarrow> mapped (put_bytes a xs c) b n = mapped c b n"
  unfolding mapped_def put_bytes_def by (metis option.distinct(1))

section \<open>Fields\<close>

definition ptr_bytes :: "nat \<Rightarrow> u8 list" where
  "ptr_bytes v = le_bytes 8 (of_nat v :: u64)"

lemma length_ptr_bytes [simp]: "length (ptr_bytes v) = 8"
  by (simp add: ptr_bytes_def)

lemma write_ptr_eq: "mapped c a 8 \<Longrightarrow> write_ptr a v c = Some (put_bytes a (ptr_bytes v) c)"
  by (simp add: write_ptr_def write_bytes_eq ptr_bytes_def)

lemma read_ptr_put: "v < 2 ^ 64 \<Longrightarrow> read_ptr (put_bytes a (ptr_bytes v) c) a = Some v"
  using read_bytes_put [of a "ptr_bytes v" c]
  by (simp add: read_ptr_def ptr_bytes_def of_le_whole unat_of_nat_small)

lemma read_ptr_other: "a + 8 \<le> b \<or> b + length xs \<le> a \<Longrightarrow> read_ptr (put_bytes b xs c) a = read_ptr c a"
  unfolding read_ptr_def
  by (intro arg_cong [where f = "map_option _"] read_bytes_cong) (auto simp: put_bytes_def)

lemma write_int_eq: "mapped c a 4 \<Longrightarrow> write_int a v c = Some (put_bytes a (le_bytes 4 v) c)"
  by (simp add: write_int_def write_bytes_eq)

lemma read_int_put: "read_int (put_bytes a (le_bytes 4 v) c) a = Some v"
  using read_bytes_put [of a "le_bytes 4 v" c] by (simp add: read_int_def of_le_whole)

lemma read_int_other: "a + 4 \<le> b \<or> b + length xs \<le> a \<Longrightarrow> read_int (put_bytes b xs c) a = read_int c a"
  unfolding read_int_def
  by (intro arg_cong [where f = "map_option _"] read_bytes_cong) (auto simp: put_bytes_def)

lemma read_ptr_unmapped: "c a = None \<Longrightarrow> read_ptr c a = None"
  by (simp add: read_ptr_def eval_nat_numeral)

section \<open>A new block\<close>

lemma page_up_ge: "n \<le> page_up n"
  unfolding page_up_def by linarith

text \<open>The header of a new block, and the pages around it.\<close>

definition header :: "cells \<Rightarrow> nat \<Rightarrow> nat \<Rightarrow> bool" where
  "header c a len \<longleftrightarrow> read_ptr c a = Some (a + 576) \<and> read_int c (a + 8) = Some (of_nat len)
     \<and> read_ptr c (a + 16) = Some 0"

lemma getNewBlock_fresh:
  assumes "fresh_pages pick" and "pick (24 + len) c = Some a"
  obtains c' where "getNewBlock pick len c = Some (a, c')" "header c' a len"
    "\<forall>x. (c' x \<noteq> None) = (c x \<noteq> None \<or> a \<le> x \<and> x < a + page_up (24 + len))"
    "\<forall>x. x < a \<or> a + 24 \<le> x \<longrightarrow> c' x = (if a \<le> x \<and> x < a + page_up (24 + len) then Some 0 else c x)"
proof -
  have a: "0 < a" "a + page_up (24 + len) < 2 ^ 63"
    using assms by (auto simp: fresh_pages_def)
  have p: "24 \<le> page_up (24 + len)" using page_up_ge [of "24 + len"] by simp
  define c0 where "c0 = (\<lambda>x. if a \<le> x \<and> x < a + page_up (24 + len) then Some 0 else c x)"
  define c1 where "c1 = put_bytes (a + 8) (le_bytes 4 (of_nat len :: i32)) c0"
  define c2 where "c2 = put_bytes a (ptr_bytes (a + 576)) c1"
  define c3 where "c3 = put_bytes (a + 16) (ptr_bytes 0) c2"
  have m0: "mapped c0 (a + 8) 4" "mapped c0 a 8" "mapped c0 (a + 16) 8"
    using p by (auto simp: mapped_def c0_def)
  have w1: "write_int (a + 8) (of_nat len) c0 = Some c1" using m0 by (simp add: write_int_eq c1_def)
  have m1: "mapped c1 a 8" "mapped c1 (a + 16) 8" using m0 by (simp_all add: c1_def mapped_put)
  have w2: "write_ptr a (a + 576) c1 = Some c2" using m1 by (simp add: write_ptr_eq c2_def)
  have m2: "mapped c2 (a + 16) 8" using m1 by (simp add: c2_def mapped_put)
  have w3: "write_ptr (a + 16) 0 c2 = Some c3" using m2 by (simp add: write_ptr_eq c3_def)
  have g: "getNewBlock pick len c = Some (a, c3)"
    using a(1) w1 w2 w3 assms(2) by (simp add: getNewBlock_def mmap_def c0_def [symmetric])
  have h: "header c3 a len"
    using a(2) by (simp add: header_def c3_def c2_def c1_def read_ptr_other read_ptr_put read_int_other read_int_put)
  have "(c3 x \<noteq> None) = (c x \<noteq> None \<or> a \<le> x \<and> x < a + page_up (24 + len))" for x
    using p by (auto simp: c3_def c2_def c1_def c0_def put_bytes_def)
  moreover have "x < a \<or> a + 24 \<le> x \<Longrightarrow> c3 x = (if a \<le> x \<and> x < a + page_up (24 + len) then Some 0 else c x)" for x
    by (auto simp: c3_def c2_def c1_def c0_def put_bytes_def)
  ultimately show ?thesis using that g h by blast
qed

section \<open>The two kinds of allocation\<close>

lemma malloc_first:
  assumes "fresh_pages pick" and "ROOT h = 0" and "0 < len" and "pick (24 + len) (cells h) = Some a"
  obtains h' where "malloc pick (int len) h = Some (a + 576, h')" "ROOT h' = a" "header (cells h') a len"
    "\<forall>x. (cells h' x \<noteq> None) = (cells h x \<noteq> None \<or> a \<le> x \<and> x < a + page_up (24 + len))"
    "\<forall>x. x < a \<or> a + 24 \<le> x \<longrightarrow> cells h' x = (if a \<le> x \<and> x < a + page_up (24 + len) then Some 0 else cells h x)"
proof -
  obtain c' where c': "getNewBlock pick len (cells h) = Some (a, c')" "header c' a len"
    "\<forall>x. (c' x \<noteq> None) = (cells h x \<noteq> None \<or> a \<le> x \<and> x < a + page_up (24 + len))"
    "\<forall>x. x < a \<or> a + 24 \<le> x \<longrightarrow> c' x = (if a \<le> x \<and> x < a + page_up (24 + len) then Some 0 else cells h x)"
    by (rule getNewBlock_fresh [OF assms(1,4)])
  have "malloc pick (int len) h = Some (a + 576, \<lparr>cells = c', ROOT = a\<rparr>)"
    using assms(2,3) c'(1,2) by (simp add: malloc_def allocateMemoryWhenListIsEmpty_def header_def)
  then show ?thesis using that [of "\<lparr>cells = c', ROOT = a\<rparr>"] c'(2-4) by simp
qed

lemma malloc_later:
  assumes "fresh_pages pick" and "ROOT h \<noteq> 0" and "read_ptr (cells h) (ROOT h + 16) = Some nxt"
    and "0 < len" and "pick (24 + len) (cells h) = Some a"
  obtains h' where "malloc pick (int len) h = Some (a, h')" "ROOT h' = a"
    "read_ptr (cells h') a = Some (a + 576)" "read_ptr (cells h') (a + 16) = Some nxt"
    "\<forall>x. (cells h' x \<noteq> None) = (cells h x \<noteq> None \<or> a \<le> x \<and> x < a + page_up (24 + len))"
    "\<forall>x. x < a \<or> a + 24 \<le> x \<longrightarrow> cells h' x = (if a \<le> x \<and> x < a + page_up (24 + len) then Some 0 else cells h x)"
proof -
  obtain c' where c': "getNewBlock pick len (cells h) = Some (a, c')" "header c' a len"
    "\<forall>x. (c' x \<noteq> None) = (cells h x \<noteq> None \<or> a \<le> x \<and> x < a + page_up (24 + len))"
    "\<forall>x. x < a \<or> a + 24 \<le> x \<longrightarrow> c' x = (if a \<le> x \<and> x < a + page_up (24 + len) then Some 0 else cells h x)"
    by (rule getNewBlock_fresh [OF assms(1,5)])
  have fresh: "\<forall>x. a \<le> x \<longrightarrow> x < a + page_up (24 + len) \<longrightarrow> cells h x = None"
    using assms(1,5) by (auto simp: fresh_pages_def)
  have p: "24 \<le> page_up (24 + len)" using page_up_ge [of "24 + len"] by simp
  have mp: "mapped (cells h) (ROOT h + 16) 8"
    using assms(3) read_bytes_Some [of "cells h" "ROOT h + 16" 8] by (auto simp: read_ptr_def)
  have same: "cells h x = c' x" if "ROOT h + 16 \<le> x" "x < ROOT h + 16 + 8" for x
  proof -
    have "cells h x \<noteq> None" using mp that by (simp add: mapped_def)
    then have out: "\<not> (a \<le> x \<and> x < a + page_up (24 + len))" using fresh [rule_format, of x] by auto
    then have "x < a \<or> a + 24 \<le> x" using p by linarith
    then show ?thesis using c'(4) [rule_format, of x] out by auto
  qed
  have rd: "read_ptr c' (ROOT h + 16) = Some nxt"
    using assms(3) read_bytes_cong [of "ROOT h + 16" 8 "cells h" c'] same by (simp add: read_ptr_def)
  have "nxt < 2 ^ 64" using assms(3) unat_bound [where 'a = 64] by (auto simp: read_ptr_def)
  moreover have m: "mapped c' (a + 16) 8" using c'(3) p by (simp add: mapped_def)
  ultimately have nx: "read_ptr (put_bytes (a + 16) (ptr_bytes nxt) c') (a + 16) = Some nxt"
    by (simp add: read_ptr_put)
  let ?h = "\<lparr>cells = put_bytes (a + 16) (ptr_bytes nxt) c', ROOT = a\<rparr>"
  have "malloc pick (int len) h = Some (a, ?h)"
    using assms(2,4) c'(1) rd m
    by (simp add: malloc_def getMemoryBlockFromOs_def write_ptr_eq)
  moreover have "read_ptr (cells ?h) a = Some (a + 576)"
    using c'(2) by (simp add: header_def read_ptr_other)
  moreover have "(cells ?h x \<noteq> None) = (c' x \<noteq> None)" for x
    using m by (auto simp: put_bytes_def mapped_def)
  moreover have "x < a \<or> a + 24 \<le> x \<Longrightarrow> cells ?h x = c' x" for x
    by (auto simp: put_bytes_def)
  ultimately show ?thesis using that [of ?h] nx c'(3,4) by simp
qed

section \<open>The allocator's contract\<close>

text \<open>Allocation and the client's stores in the form of the interface. The contract holds once
  the list is not empty, its head's header is mapped and nothing is mapped in the kernel's half
  of the address space.\<close>

abbreviation later_malloc :: "picker \<Rightarrow> nat \<Rightarrow> heap \<Rightarrow> (nat \<times> heap) option" where
  "later_malloc pick n h \<equiv> malloc pick (int n) h"

definition store_byte :: "nat \<Rightarrow> u8 \<Rightarrow> heap \<Rightarrow> heap option" where
  "store_byte a v h = map_option (\<lambda>c. h\<lparr>cells := c\<rparr>) (write_bytes a [v] (cells h))"

definition heap_ok :: "picker \<Rightarrow> heap \<Rightarrow> bool" where
  "heap_ok pick h \<longleftrightarrow> fresh_pages pick \<and> ROOT h \<noteq> 0 \<and> mapped (cells h) (ROOT h) 24
     \<and> (\<forall>x. 2 ^ 63 \<le> x \<longrightarrow> cells h x = None)"

lemma heap_ok_next:
  assumes "heap_ok pick h"
  obtains nxt where "read_ptr (cells h) (ROOT h + 16) = Some nxt"
proof -
  have "mapped (cells h) (ROOT h + 16) 8" using assms by (simp add: heap_ok_def mapped_def)
  then show ?thesis using that read_bytes_Some [of "cells h" "ROOT h + 16" 8] by (auto simp: read_ptr_def)
qed

lemma write_bytes_unmapped: "c a = None \<Longrightarrow> xs \<noteq> [] \<Longrightarrow> write_bytes a xs c = None"
  by (cases xs) simp_all

lemma malloc_no_memory:
  assumes "heap_ok pick h" and "0 < n" and "pick (24 + n) (cells h) = None"
  shows "malloc pick (int n) h = None"
proof -
  have "cells h (2 ^ 64 - 12 + 8) = None" using assms(1) by (simp add: heap_ok_def)
  then have "write_int (2 ^ 64 - 12 + 8) (of_nat n) (cells h) = None"
    unfolding write_int_def by (rule write_bytes_unmapped) (simp flip: length_greater_0_conv)
  then have "getNewBlock pick n (cells h) = None"
    using assms(3) by (simp add: getNewBlock_def mmap_def)
  then show ?thesis using assms(1,2) by (simp add: malloc_def getMemoryBlockFromOs_def heap_ok_def)
qed

lemma later_malloc_effect:
  assumes ok: "heap_ok pick h" and al: "later_malloc pick n h = Some (p, h')"
  shows "if n = 0 then h' = h
    else ROOT h' = p \<and> pick (24 + n) (cells h) = Some p
      \<and> (\<forall>x. (cells h' x \<noteq> None) = (cells h x \<noteq> None \<or> p \<le> x \<and> x < p + page_up (24 + n)))
      \<and> (\<forall>x. cells h x \<noteq> None \<longrightarrow> cells h' x = cells h x)"
proof (cases "n = 0")
  case True
  then show ?thesis using al by (simp add: malloc_def)
next
  case False
  then have n: "0 < n" by simp
  obtain a where a: "pick (24 + n) (cells h) = Some a"
    using malloc_no_memory [OF ok n] al by (cases "pick (24 + n) (cells h)") auto
  obtain nxt where nxt: "read_ptr (cells h) (ROOT h + 16) = Some nxt" by (rule heap_ok_next [OF ok])
  have pk: "fresh_pages pick" and r: "ROOT h \<noteq> 0" using ok by (auto simp: heap_ok_def)
  obtain h1 where h1: "malloc pick (int n) h = Some (a, h1)" "ROOT h1 = a"
    "\<forall>x. (cells h1 x \<noteq> None) = (cells h x \<noteq> None \<or> a \<le> x \<and> x < a + page_up (24 + n))"
    "\<forall>x. x < a \<or> a + 24 \<le> x \<longrightarrow> cells h1 x = (if a \<le> x \<and> x < a + page_up (24 + n) then Some 0 else cells h x)"
    by (rule malloc_later [OF pk r nxt n a])
  have "cells h1 x = cells h x" if "cells h x \<noteq> None" for x
  proof -
    have "\<not> (a \<le> x \<and> x < a + page_up (24 + n))" using fresh_pagesD [OF pk a, of x] that by auto
    then show ?thesis using h1(4) [rule_format, of x] page_up_ge [of "24 + n"] by auto
  qed
  moreover have "p = a" "h' = h1" using al h1(1) by simp_all
  ultimately show ?thesis using n a h1(2,3) by simp
qed

interpretation heap_areas: allocator "later_malloc pick" store_byte cells "\<lambda>p i. p + i" "heap_ok pick"
  for pick
proof unfold_locales
  fix h n p h' i j a v b
  assume ok: "heap_ok pick h"
  have pk: "fresh_pages pick" using ok by (simp add: heap_ok_def)
  {
    assume al: "later_malloc pick n h = Some (p, h')"
    note e = later_malloc_effect [OF ok al]
    have p: "0 < p" "p + page_up (24 + n) < 2 ^ 63" if "0 < n"
      using e that pk by (auto simp: fresh_pages_def)
    show "heap_ok pick h'"
    proof (cases "n = 0")
      case False
      then have ex: "ROOT h' = p" "0 < p" "p + page_up (24 + n) < 2 ^ 63"
        "\<And>x. (cells h' x \<noteq> None) = (cells h x \<noteq> None \<or> p \<le> x \<and> x < p + page_up (24 + n))"
        using e p by auto
      have "cells h' x = None" if "2 ^ 63 \<le> x" for x
      proof -
        have "cells h x = None" using ok that by (simp only: heap_ok_def)
        then show ?thesis using ex(4) [of x] ex(3) that by (cases "cells h' x") auto
      qed
      moreover have "mapped (cells h') p 24" using ex(4) page_up_ge [of "24 + n"] by (simp add: mapped_def)
      ultimately show ?thesis using ex(1,2) pk by (simp add: heap_ok_def)
    qed (use e ok in simp)
    show "cells h (p + i) = None" if "i < n"
      using e that fresh_pagesD [OF pk, of "24 + n" "cells h" p "p + i"] page_up_ge [of "24 + n"] by auto
    show "cells h' (p + i) \<noteq> None" if "i < n"
    proof -
      have "(cells h' (p + i) \<noteq> None) = (cells h (p + i) \<noteq> None \<or> p \<le> p + i \<and> p + i < p + page_up (24 + n))"
        using e that by simp
      then show ?thesis using that page_up_ge [of "24 + n"] by simp
    qed
    show "cells h a \<noteq> None \<Longrightarrow> cells h' a = cells h a" using e by (cases "n = 0") auto
    show "p + i = p + j \<Longrightarrow> i = j" by simp
  }
  show "store_byte a v h \<noteq> None \<longleftrightarrow> cells h a \<noteq> None" by (simp add: store_byte_def)
  assume st: "store_byte a v h = Some h'"
  then have h': "h' = h\<lparr>cells := (cells h)(a := Some v)\<rparr>" "cells h a \<noteq> None"
    by (auto simp: store_byte_def split: if_splits)
  show "cells h' b = (if b = a then Some v else cells h b)" by (simp add: h')
  have "(2::nat) ^ 63 \<le> a \<Longrightarrow> False" using h'(2) ok by (simp add: heap_ok_def)
  then show "heap_ok pick h'" using ok by (auto simp: heap_ok_def mapped_def h'(1))
qed

section \<open>Properties\<close>

text \<open>Where \<open>malloc\<close> puts memory. The first allocation returns the address 576 bytes into
  its new pages, so the requested bytes are inside them only when \<open>576 + len\<close> still fits (not
  for \<open>len = 4000\<close>, say); every later one returns the address of its own header, and its
  bytes are always inside. Either way the pages are new: no byte that was mapped before is
  changed, and a size of zero or less gives the null pointer.\<close>

theorem malloc_placement:
  assumes "fresh_pages pick" and "0 < len" and "pick (24 + len) (cells h) = Some a"
    and "ROOT h \<noteq> 0 \<longrightarrow> read_ptr (cells h) (ROOT h + 16) = Some nxt"
  shows "\<exists>p h'. malloc pick (int len) h = Some (p, h') \<and> ROOT h' = a
    \<and> p = (if ROOT h = 0 then a + 576 else a)
    \<and> ((\<forall>i < len. a \<le> p + i \<and> p + i < a + page_up (24 + len)) \<longleftrightarrow> ROOT h \<noteq> 0 \<or> 576 + len \<le> page_up (24 + len))
    \<and> (\<forall>x. cells h x \<noteq> None \<longrightarrow> cells h' x = cells h x)
    \<and> malloc pick 0 h = Some (0, h)"
proof -
  have fresh: "cells h x \<noteq> None \<Longrightarrow> \<not> (a \<le> x \<and> x < a + page_up (24 + len))" for x
    using fresh_pagesD [OF assms(1,3), of x] by auto
  have p: "24 + len \<le> page_up (24 + len)" by (rule page_up_ge)
  have fits: "(\<forall>i < len. d + i < page_up (24 + len)) \<longleftrightarrow> d + len \<le> page_up (24 + len)" for d
  proof
    assume "\<forall>i < len. d + i < page_up (24 + len)"
    then have "d + (len - 1) < page_up (24 + len)" using assms(2) by (metis diff_less zero_less_one)
    then show "d + len \<le> page_up (24 + len)" using assms(2) by simp
  qed auto
  show ?thesis
  proof (cases "ROOT h = 0")
    case True
    obtain h' where "malloc pick (int len) h = Some (a + 576, h')" "ROOT h' = a"
      "\<forall>x. x < a \<or> a + 24 \<le> x \<longrightarrow> cells h' x = (if a \<le> x \<and> x < a + page_up (24 + len) then Some 0 else cells h x)"
      by (rule malloc_first [OF assms(1) True assms(2,3)])
    moreover from this(3) have "cells h x \<noteq> None \<Longrightarrow> cells h' x = cells h x" for x
      using fresh [of x] p by (cases "x < a \<or> a + 24 \<le> x") auto
    moreover have "(\<forall>i < len. a + 576 + i < a + page_up (24 + len)) \<longleftrightarrow> 576 + len \<le> page_up (24 + len)"
      using fits [of 576] by (simp add: add.assoc)
    ultimately show ?thesis using True by (simp add: malloc_def)
  next
    case False
    obtain h' where "malloc pick (int len) h = Some (a, h')" "ROOT h' = a"
      "\<forall>x. x < a \<or> a + 24 \<le> x \<longrightarrow> cells h' x = (if a \<le> x \<and> x < a + page_up (24 + len) then Some 0 else cells h x)"
      by (rule malloc_later [OF assms(1) False _ assms(2,3)]) (use assms(4) False in auto)
    moreover from this(3) have "cells h x \<noteq> None \<Longrightarrow> cells h' x = cells h x" for x
      using fresh [of x] p by (cases "x < a \<or> a + 24 \<le> x") auto
    ultimately show ?thesis using False p by (simp add: malloc_def)
  qed
qed

text \<open>An \<open>mmap\<close> that hands out one gigabyte after the other.\<close>

definition gigabytes :: picker where
  "gigabytes len c =
     (if page_up len \<le> 2 ^ 30
      then find (\<lambda>a. \<forall>x. a \<le> x \<longrightarrow> x < a + page_up len \<longrightarrow> c x = None) [2 ^ 30, 2 ^ 31, 2 ^ 32] else None)"

lemma gigabytes_fresh: "fresh_pages gigabytes"
proof -
  have "a \<in> {2 ^ 30, 2 ^ 31, 2 ^ 32} \<Longrightarrow> 0 < a \<and> 4096 dvd a \<and> (n \<le> 2 ^ 30 \<longrightarrow> a + n < 2 ^ 63)" for a n :: nat
    by auto
  then show ?thesis
    unfolding fresh_pages_def gigabytes_def by (auto simp: find_Some_iff split: if_splits)
qed

definition empty_heap :: heap where
  "empty_heap = \<lparr>cells = \<lambda>_. None, ROOT = 0\<rparr>"

lemma gigabytes_empty: "page_up len \<le> 2 ^ 30 \<Longrightarrow> gigabytes len (cells empty_heap) = Some (2 ^ 30)"
  by (simp add: gigabytes_def empty_heap_def)

theorem malloc_placement_witness:
  "\<exists>h'. malloc gigabytes (int 4000) empty_heap = Some (2 ^ 30 + 576, h')
    \<and> \<not> (\<forall>i < 4000. 2 ^ 30 + 576 + i < 2 ^ 30 + page_up (24 + 4000))"
  using malloc_placement [OF gigabytes_fresh, of 4000 empty_heap "2 ^ 30"] gigabytes_empty [of 4024]
  by (auto simp: empty_heap_def page_up_def)

lemma read_bytes_part:
  "k + n \<le> length xs \<Longrightarrow> read_bytes (put_bytes a xs c) (a + k) n = Some (take n (drop k xs))"
proof (induction n arbitrary: k)
  case 0
  show ?case by simp
next
  case (Suc n)
  then have "put_bytes a xs c (a + k) = Some (xs ! k)" by (simp add: put_bytes_def)
  moreover have "read_bytes (put_bytes a xs c) (Suc (a + k)) n = Some (take n (drop (Suc k) xs))"
    using Suc.IH [of "Suc k"] Suc.prems by simp
  moreover have "take (Suc n) (drop k xs) = xs ! k # take n (drop (Suc k) xs)"
    using Suc.prems by (simp add: Cons_nth_drop_Suc [symmetric])
  ultimately show ?case by simp
qed

lemma free_first:
  assumes "header (cells h) a len" and "ROOT h = a" and "0 < a" and "len < 2 ^ 31"
  shows "free (a + 576) h = Some (h\<lparr>cells := munmap a (24 + len) (cells h)\<rparr>)"
proof -
  have "sint (of_nat len :: i32) = int len"
    using assms(4) signed_take_bit_int_eq_self [of 31 "int len"] by (simp add: signed_of_nat)
  then show ?thesis using assms(1-3)
    by (simp add: free_def free_loop.simps [of _ _ a] header_def add.commute)
qed

text \<open>C31: Freeing leaves a dangling list head. After the first allocation has been freed, \<open>ROOT\<close>
  still points at the unmapped header, and the next allocation faults reading it - unless the
  system happens to hand out the very same place again.\<close>

theorem malloc_after_free_faults:
  assumes "fresh_pages pick" and "ROOT h = 0" and "0 < len" and "len < 2 ^ 31"
    and "pick (24 + len) (cells h) = Some a" and "malloc pick (int len) h = Some (p, h1)"
  shows "\<exists>h2. free p h1 = Some h2 \<and> ROOT h2 = a \<and> cells h2 (a + 16) = None
    \<and> (\<forall>n b. 0 < n \<longrightarrow> pick (24 + n) (cells h2) = Some b \<longrightarrow> \<not> (b \<le> a + 16 \<and> a + 16 < b + page_up (24 + n))
         \<longrightarrow> malloc pick (int n) h2 = None)"
proof -
  have a: "0 < a" using assms(1,5) by (auto simp: fresh_pages_def)
  have h1: "p = a + 576" "ROOT h1 = a" "header (cells h1) a len"
    using malloc_first [OF assms(1-3,5)] assms(6) by (metis Pair_inject option.inject)+
  define h2 where "h2 = h1\<lparr>cells := munmap a (24 + len) (cells h1)\<rparr>"
  have un: "cells h2 (a + 16) = None"
    using page_up_ge [of "24 + len"] by (simp add: h2_def munmap_def)
  have "malloc pick (int n) h2 = None"
    if n: "0 < n" "pick (24 + n) (cells h2) = Some b" "\<not> (b \<le> a + 16 \<and> a + 16 < b + page_up (24 + n))" for n b
  proof -
    obtain c' where c': "getNewBlock pick n (cells h2) = Some (b, c')"
      "\<forall>x. (c' x \<noteq> None) = (cells h2 x \<noteq> None \<or> b \<le> x \<and> x < b + page_up (24 + n))"
      by (rule getNewBlock_fresh [OF assms(1) n(2)])
    have "c' (a + 16) = None" using c'(2) [rule_format, of "a + 16"] n(3) un by auto
    then show ?thesis
      using n(1) c'(1) a h1(2)
      by (simp add: malloc_def getMemoryBlockFromOs_def h2_def read_ptr_unmapped)
  qed
  then show ?thesis
    using free_first [OF h1(3,2) a assms(4)] h1(1,2) un by (intro exI [of _ h2]) (simp add: h2_def)
qed

theorem malloc_after_free_faults_witness:
  "\<exists>p h1 h2. malloc gigabytes (int 100) empty_heap = Some (p, h1) \<and> free p h1 = Some h2 \<and> ROOT h2 = 2 ^ 30"
proof -
  have g: "gigabytes (24 + 100) (cells empty_heap) = Some (2 ^ 30)"
    by (rule gigabytes_empty) (simp add: page_up_def)
  obtain h1 where "malloc gigabytes (int 100) empty_heap = Some (2 ^ 30 + 576, h1)"
    by (rule malloc_first [OF gigabytes_fresh _ _ g]) (simp_all add: empty_heap_def)
  then show ?thesis
    using malloc_after_free_faults [OF gigabytes_fresh _ _ _ g, of "2 ^ 30 + 576" h1] by (auto simp: empty_heap_def)
qed

text \<open>A later block is its own list entry. Freed as it was returned it is not recognised: no
  memory is given back. And since its first 24 bytes are at the same time the user's data and
  the header, freeing anything after 24 or more bytes have been stored there follows bytes 16
  to 23 of that data as a pointer: if it is not null and not mapped, \<open>free\<close> faults.\<close>

theorem free_follows_user_data:
  assumes "fresh_pages pick" and "ROOT h \<noteq> 0" and "read_ptr (cells h) (ROOT h + 16) = Some 0"
    and "0 < len" and "pick (24 + len) (cells h) = Some a" and "malloc pick (int len) h = Some (p, h1)"
  shows "free p h1 = Some h1
    \<and> (\<forall>xs q. 24 \<le> length xs \<longrightarrow> length xs \<le> len \<longrightarrow> q \<noteq> 0 \<longrightarrow>
         unat (of_le (take 8 xs) :: u64) \<noteq> q \<longrightarrow>
         unat (of_le (take 8 (drop 16 xs)) :: u64) \<noteq> 0 \<longrightarrow>
         put_bytes p xs (cells h1) (unat (of_le (take 8 (drop 16 xs)) :: u64)) = None \<longrightarrow>
         free q (h1\<lparr>cells := put_bytes p xs (cells h1)\<rparr>) = None)"
proof -
  have a: "0 < a" using assms(1,5) by (auto simp: fresh_pages_def)
  have h1: "p = a" "ROOT h1 = a" "read_ptr (cells h1) a = Some (a + 576)" "read_ptr (cells h1) (a + 16) = Some 0"
    using malloc_later [OF assms(1-5)] assms(6) by (metis Pair_inject option.inject)+
  have "free a h1 = Some h1"
    using a h1 by (simp add: free_def free_loop.simps [of _ _ a] free_loop.simps [of _ _ 0])
  moreover have "free q (h1\<lparr>cells := put_bytes a xs (cells h1)\<rparr>) = None"
    if "24 \<le> length xs" "q \<noteq> 0" "unat (of_le (take 8 xs) :: u64) \<noteq> q"
      "unat (of_le (take 8 (drop 16 xs)) :: u64) = v" "v \<noteq> 0" "put_bytes a xs (cells h1) v = None" for xs q v
  proof -
    have "read_ptr (put_bytes a xs (cells h1)) a = Some (unat (of_le (take 8 xs) :: u64))"
      using read_bytes_part [of 0 8 xs a] that(1) by (simp add: read_ptr_def)
    moreover have "read_ptr (put_bytes a xs (cells h1)) (a + 16) = Some v"
      using read_bytes_part [of 16 8 xs a] that(1,4) by (simp add: read_ptr_def)
    ultimately show ?thesis
      using that(2,3,5,6) a h1(2)
      by (simp add: free_def free_loop.simps [of _ _ a] free_loop.simps [of _ _ v] read_ptr_unmapped)
  qed
  ultimately show ?thesis using h1(1) by auto
qed

lemma first_gigabyte:
  obtains h1 where "malloc gigabytes (int 100) empty_heap = Some (2 ^ 30 + 576, h1)" "ROOT h1 = 2 ^ 30"
    "header (cells h1) (2 ^ 30) 100" "\<forall>x. cells h1 x = None \<longleftrightarrow> \<not> (2 ^ 30 \<le> x \<and> x < 2 ^ 30 + 4096)"
    "gigabytes (24 + 100) (cells h1) = Some (2 ^ 31)"
proof -
  have g: "gigabytes (24 + 100) (cells empty_heap) = Some (2 ^ 30)"
    by (rule gigabytes_empty) (simp add: page_up_def)
  obtain h1 where h1: "malloc gigabytes (int 100) empty_heap = Some (2 ^ 30 + 576, h1)" "ROOT h1 = 2 ^ 30"
      "header (cells h1) (2 ^ 30) 100"
      "\<forall>x. (cells h1 x \<noteq> None) = (cells empty_heap x \<noteq> None \<or> 2 ^ 30 \<le> x \<and> x < 2 ^ 30 + page_up (24 + 100))"
    by (rule malloc_first [OF gigabytes_fresh _ _ g]) (simp_all add: empty_heap_def)
  have map: "cells h1 x = None \<longleftrightarrow> \<not> (2 ^ 30 \<le> x \<and> x < 2 ^ 30 + 4096)" for x
    using h1(4) [rule_format, of x] by (cases "cells h1 x") (auto simp: empty_heap_def page_up_def)
  have "gigabytes (24 + 100) (cells h1) = Some (2 ^ 31)"
    by (auto simp: gigabytes_def page_up_def map intro: exI [of _ "2 ^ 30"])
  then show ?thesis using that h1(1-3) map by blast
qed

theorem free_follows_user_data_witness:
  "\<exists>p h1 q h2. malloc gigabytes 100 empty_heap = Some (p, h1) \<and> malloc gigabytes 100 h1 = Some (q, h2)
     \<and> free q h2 = Some h2"
proof -
  obtain h1 where h1: "malloc gigabytes (int 100) empty_heap = Some (2 ^ 30 + 576, h1)" "ROOT h1 = 2 ^ 30"
      "header (cells h1) (2 ^ 30) 100" "gigabytes (24 + 100) (cells h1) = Some (2 ^ 31)"
    by (rule first_gigabyte)
  have n: "read_ptr (cells h1) (ROOT h1 + 16) = Some 0" using h1(2,3) by (simp add: header_def)
  have r: "ROOT h1 \<noteq> 0" using h1(2) by simp
  obtain h2 where "malloc gigabytes (int 100) h1 = Some (2 ^ 31, h2)"
    by (rule malloc_later [OF gigabytes_fresh r n _ h1(4)]) simp_all
  then show ?thesis
    using free_follows_user_data [OF gigabytes_fresh r n _ h1(4), of "2 ^ 31" h2] h1(1) by auto
qed

text \<open>C28: After the first one, allocations are separate arrays. Whatever a program allocates and
  stores byte by byte in its areas, in any order, every byte of every area is mapped, no two
  areas overlap, and a byte holds what was last stored in it through its own area. Frees are
  not part of the runs: for them, see the properties above.\<close>

theorem mallocs_are_separate_arrays:
  assumes "heap_ok pick h"
    and "for_list (access_step (later_malloc pick) store_byte (\<lambda>p i. p + i)) as ([], h) = Some (areas, h')"
  shows "(\<forall>(p, n) \<in> set areas. \<forall>i < n. cells h' (p + i) \<noteq> None)
    \<and> (\<forall>k < length areas. \<forall>l < length areas. k \<noteq> l \<longrightarrow>
         (case (areas ! k, areas ! l) of ((p, m), (q, n)) \<Rightarrow> {p..<p + m} \<inter> {q..<q + n} = {}))
    \<and> (\<forall>k i v. last_written as k i = Some v \<longrightarrow> cells h' (fst (areas ! k) + i) = Some v)"
proof -
  note inv = heap_areas.accesses_separate [OF assms]
  have room: "cells h' (p + i) \<noteq> None" if "(p, n) \<in> set areas" "i < n" for p n i
    using heap_areas.separate_room [OF inv] that by (metis in_set_conv_nth fst_conv snd_conv)
  have apart: "{p..<p + m} \<inter> {q..<q + n} = {}"
    if "k < length areas" "l < length areas" "k \<noteq> l" "areas ! k = (p, m)" "areas ! l = (q, n)" for k l p m q n
  proof -
    have "p + i \<noteq> q + j" if "i < m" "j < n" for i j
      using heap_areas.separate_apart [OF inv, of k i l j] that \<open>k < length areas\<close> \<open>l < length areas\<close>
        \<open>k \<noteq> l\<close> \<open>areas ! k = (p, m)\<close> \<open>areas ! l = (q, n)\<close> by auto
    then have "x \<notin> {q..<q + n}" if "x \<in> {p..<p + m}" for x
      using that by (metis atLeastLessThan_iff le_add_diff_inverse add_less_cancel_left)
    then show ?thesis by blast
  qed
  have "cells h' (fst (areas ! k) + i) = Some v" if "last_written as k i = Some v" for k i v
    using heap_areas.separate_last [OF inv that] by simp
  then show ?thesis using room apart by (auto split: prod.splits)
qed

theorem mallocs_are_separate_arrays_witness:
  "\<exists>p h1 areas h'. malloc gigabytes 100 empty_heap = Some (p, h1)
     \<and> for_list (access_step (later_malloc gigabytes) store_byte (\<lambda>p i. p + i)) [Alloc 100, Write 0 3 65] ([], h1) = Some (areas, h')
     \<and> cells h' (fst (areas ! 0) + 3) = Some 65"
proof -
  obtain h1 where h1: "malloc gigabytes (int 100) empty_heap = Some (2 ^ 30 + 576, h1)" "ROOT h1 = 2 ^ 30"
      "header (cells h1) (2 ^ 30) 100" "\<forall>x. cells h1 x = None \<longleftrightarrow> \<not> (2 ^ 30 \<le> x \<and> x < 2 ^ 30 + 4096)"
      "gigabytes (24 + 100) (cells h1) = Some (2 ^ 31)"
    by (rule first_gigabyte)
  have ok: "heap_ok gigabytes h1"
    using h1(2,4) by (simp add: heap_ok_def gigabytes_fresh mapped_def)
  have n: "read_ptr (cells h1) (ROOT h1 + 16) = Some 0" using h1(2,3) by (simp add: header_def)
  obtain a h2 where h2: "malloc gigabytes (int 100) h1 = Some (a, h2)"
    by (rule malloc_later [OF gigabytes_fresh _ n _ h1(5)]) (simp_all add: h1(2))
  have "cells h2 (a + 3) \<noteq> None" by (rule heap_areas.alloc_room [OF ok h2]) simp
  then obtain h3 where h3: "store_byte (a + 3) 65 h2 = Some h3"
    using heap_areas.store_defined [OF heap_areas.alloc_ok [OF ok h2], of "a + 3" 65] by blast
  have run: "for_list (access_step (later_malloc gigabytes) store_byte (\<lambda>p i. p + i)) [Alloc 100, Write 0 3 65] ([], h1)
      = Some ([(a, 100)], h3)" using h2 h3 by simp
  have "last_written [Alloc 100, Write 0 3 65] 0 3 = Some 65" by simp
  then have "cells h3 (fst ([(a, 100 :: nat)] ! 0) + 3) = Some 65"
    by (rule mallocs_are_separate_arrays [OF ok run, THEN conjunct2, THEN conjunct2, rule_format])
  moreover have "malloc gigabytes 100 empty_heap = Some (2 ^ 30 + 576, h1)" using h1(1) by simp
  ultimately show ?thesis using run by blast
qed

end
