(* ===== verification/Readline.thy ===== *)
theory Readline
  imports Stdio
begin

text \<open>
  What \<open>readline\<close> of libc/readline.c reads: the input in chunks of four bytes, up to the first
  chunk that is short or ends in a newline, into a buffer that is replaced by a larger one
  before every further chunk.
\<close>

section \<open>Chunks\<close>

text \<open>A stream whose reads are never short before its end.\<close>

definition block_stream :: "'os sys \<Rightarrow> i32 \<Rightarrow> ('os \<Rightarrow> u8 list) \<Rightarrow> bool" where
  "block_stream sys fd rest \<longleftrightarrow>
     (\<forall>n os. \<exists>os'. sys_read sys fd n os = (Some (take n (rest os)), os') \<and> rest os' = drop n (rest os))"

lemma block_streamE:
  assumes "block_stream sys fd rest"
  obtains os' where "sys_read sys fd n os = (Some (take n (rest os)), os')" "rest os' = drop n (rest os)"
  using assms unfolding block_stream_def by blast

function chunks :: "u8 list \<Rightarrow> u8 list" where
  "chunks bs = (if length bs < 4 \<or> bs ! 3 = 0x0A then take 4 bs else take 4 bs @ chunks (drop 4 bs))"
  by pat_completeness auto

termination
  by (relation "measure length") auto

declare chunks.simps [simp del]

lemma length_chunks: "length (chunks bs) \<le> length bs"
  by (induction bs rule: chunks.induct) (subst chunks.simps, auto)

section \<open>The loop\<close>

text \<open>Between two rounds: the buffer is a block of \<open>4 * (k + 1)\<close> bytes that holds \<open>4 * k\<close>.\<close>

definition buffer_at :: "mem \<Rightarrow> nat \<Rightarrow> u8 list \<Rightarrow> bool" where
  "buffer_at m b pre \<longleftrightarrow> bytes_at m (Ptr b 0) pre
     \<and> (\<forall>i. valid m (Ptr b i) \<longleftrightarrow> 0 \<le> i \<and> i < int (length pre + 4))"

definition other_blocks :: "nat \<Rightarrow> mem \<Rightarrow> mem \<Rightarrow> bool" where
  "other_blocks b m m' \<longleftrightarrow> (\<forall>c i. c \<noteq> b \<longrightarrow> valid m (Ptr c i) \<longrightarrow> load m' (Ptr c i) = load m (Ptr c i))"

lemma chunk_stored:
  assumes buf: "buffer_at m b pre" and c: "length c \<le> 4"
  obtains m1 where "store_bytes (Ptr b (int (length pre))) c m = Some m1" "bytes_at m1 (Ptr b 0) (pre @ c)"
    "\<forall>i. valid m1 (Ptr b i) \<longleftrightarrow> 0 \<le> i \<and> i < int (length pre + 4)" "other_blocks b m m1"
proof -
  have "room m (Ptr b (int (length pre))) (length c)" using assms by (simp add: room_def buffer_at_def)
  then obtain m1 where st: "store_bytes (Ptr b (int (length pre))) c m = Some m1"
    and w: "written_at m (Ptr b (int (length pre))) c m1" using store_bytes_room by blast
  have "load m1 (Ptr b (int i)) = load m (Ptr b (int i))" if "i < length pre" for i
    using w that by (simp add: written_at_def outside_def del: load.simps)
  then have "bytes_at m1 (Ptr b 0) pre" using buf by (simp add: buffer_at_def bytes_at_def del: load.simps)
  then have "bytes_at m1 (Ptr b 0) (pre @ c)" using w by (simp add: bytes_at_append written_at_def)
  moreover have "\<forall>i. valid m1 (Ptr b i) \<longleftrightarrow> 0 \<le> i \<and> i < int (length pre + 4)"
    using w buf by (simp add: written_at_def buffer_at_def)
  moreover have "other_blocks b m m1"
    using w by (simp add: other_blocks_def written_at_def outside_def del: load.simps)
  ultimately show ?thesis using that st by blast
qed

lemma buffer_grown:
  assumes b: "bytes_at m (Ptr b 0) xs" and v: "\<forall>i. valid m (Ptr b i) \<longleftrightarrow> 0 \<le> i \<and> i < int (length xs)"
    and len: "0 < length xs" "length xs < 2 ^ 31"
  obtains d m1 m2 m3 where "new_block junk (length xs + 4) m = (Ptr d 0, m1)"
    "memcpy (Ptr d 0) (Ptr b 0) (of_nat (length xs)) m1 = Some (Ptr d (int (length xs)), m2)"
    "free_block (Ptr b 0) m2 = Some m3" "buffer_at m3 d xs" "other_blocks b m m3" "\<forall>i. \<not> valid m (Ptr d i)" "d \<noteq> b"
proof -
  define d where "d = length m"
  obtain m1 where nb: "new_block junk (length xs + 4) m = (Ptr d 0, m1)" by (simp add: new_block_def d_def)
  note f = new_block_facts [OF nb] and ld = new_block_load [OF nb]
  have "valid m (Ptr b 0)" using v len by simp
  then have bd: "b < d" by (auto simp: valid_def d_def block_def split: option.splits if_splits)
  have b1: "bytes_at m1 (Ptr b 0) xs" using bytes_at_extends [OF f(1) b] .
  have dj: "disjoint_runs (Ptr b 0) (Ptr d 0) (length xs)" using bd by (simp add: disjoint_runs_def outside_def)
  have "room m1 (Ptr d 0) (length xs)" using room_mono [OF f(2)] by simp
  then obtain m2 where mc: "memcpy (Ptr d 0) (Ptr b 0) (of_nat (length xs)) m1 = Some (Ptr d (int (length xs)), m2)"
    and w: "written_at m1 (Ptr d 0) xs m2"
    using memcpy_room [OF b1 _ _ dj len(2)] by auto
  have "valid m2 (Ptr b 0)" using w f(1) \<open>valid m (Ptr b 0)\<close>
    by (auto simp: written_at_def valid_def extends_def simp del: load.simps)
  then have "block m2 b \<noteq> None" by (auto simp: valid_def split: option.splits)
  then have fr: "free_block (Ptr b 0) m2 = Some (m2[b := None])" by (simp add: free_block_def)
  have l3: "load (m2[b := None]) (Ptr c i) = load m2 (Ptr c i)" if "c \<noteq> b" for c i
    using that by (simp add: block_update)
  have "bytes_at (m2[b := None]) (Ptr d 0) xs"
    using w bd l3 by (simp add: written_at_def bytes_at_def del: load.simps)
  moreover have "valid (m2[b := None]) (Ptr d i) \<longleftrightarrow> 0 \<le> i \<and> i < int (length xs + 4)" for i
  proof -
    have "valid (m2[b := None]) (Ptr d i) = valid m1 (Ptr d i)" using l3 [of d i] bd w
      by (simp add: valid_def written_at_def del: load.simps)
    also have "\<dots> \<longleftrightarrow> 0 \<le> i \<and> i < int (length xs + 4)"
      unfolding valid_def using ld [of "Ptr d i"] by (simp add: d_def del: load.simps)
    finally show ?thesis .
  qed
  ultimately have "buffer_at (m2[b := None]) d xs" by (simp add: buffer_at_def)
  moreover have "other_blocks b m (m2[b := None])"
    unfolding other_blocks_def
  proof (intro allI impI)
    fix c i assume c: "c \<noteq> b" "valid m (Ptr c i)"
    then obtain x where x: "load m (Ptr c i) = Some x" by (auto simp: valid_def)
    then have "c < d" by (auto simp: d_def block_def split: option.splits if_splits)
    then have "load m2 (Ptr c i) = load m1 (Ptr c i)" using w by (simp add: written_at_def outside_def del: load.simps)
    then show "load (m2[b := None]) (Ptr c i) = load m (Ptr c i)" using l3 [OF c(1)] f(1) x by (simp add: extends_def del: load.simps)
  qed
  moreover have "\<forall>i. \<not> valid m (Ptr d i)" by (simp add: valid_def d_def block_def)
  ultimately show ?thesis using that nb mc fr bd by blast
qed

lemma last_chunk: "4 \<le> length bs \<Longrightarrow> last (take 4 bs) = bs ! 3"
  by (cases "bs = []") (simp_all add: last_conv_nth min_absorb2)

lemma readline_loop_chunks:
  assumes "block_stream sys 0 rest"
  shows "buffer_at m b pre \<Longrightarrow> length pre = 4 * k \<Longrightarrow> rest os = bs \<Longrightarrow> 4 * k + length bs < 2 ^ 31 \<Longrightarrow>
    \<exists>d m' os'. readline_loop junk sys (Ptr b 0, Ptr b (int (4 * k)), k + 1, 4 * k, 4) m os = Some (Ptr d 0, m', os')
      \<and> bytes_at m' (Ptr d 0) (pre @ chunks bs) \<and> rest os' = drop (length (chunks bs)) bs
      \<and> (chunks bs \<noteq> [] \<longrightarrow> 4 dvd length (chunks bs) \<longrightarrow> last (chunks bs) = 0x0A \<longrightarrow>
           \<not> valid m' (Ptr d (int (length (pre @ chunks bs)))))
      \<and> (\<forall>c i. c \<noteq> b \<longrightarrow> valid m (Ptr c i) \<longrightarrow> load m' (Ptr c i) = load m (Ptr c i))"
proof (induction bs arbitrary: m b pre k os rule: chunks.induct)
  case (1 bs)
  let ?c = "take 4 bs"
  obtain os1 where rd: "sys_read sys 0 4 os = (Some ?c, os1)" "rest os1 = drop 4 bs"
    using block_streamE [OF assms] 1(4) by metis
  obtain m1 where st: "store_bytes (Ptr b (int (length pre))) ?c m = Some m1" "bytes_at m1 (Ptr b 0) (pre @ ?c)"
    "\<forall>i. valid m1 (Ptr b i) \<longleftrightarrow> 0 \<le> i \<and> i < int (length pre + 4)" "other_blocks b m m1"
    by (rule chunk_stored [OF 1(2), of ?c]) auto
  show ?case
  proof (cases "length bs < 4")
    case True
    then have c: "?c = bs" "chunks bs = bs" by (simp_all add: chunks.simps [of bs])
    show ?thesis
    proof (intro exI conjI)
      show "readline_loop junk sys (Ptr b 0, Ptr b (int (4 * k)), k + 1, 4 * k, 4) m os = Some (Ptr b 0, m1, os1)"
        using rd st(1) True c(1) 1(3) by (subst readline_loop.simps) simp
    qed (use st rd c True in \<open>auto simp: other_blocks_def dest: dvd_imp_le\<close>)
  next
    case long: False
    have last: "load m1 (Ptr b (3 + 4 * int k)) = Some (bs ! 3)"
    proof -
      have "load m1 (padd (Ptr b 0) (int (4 * k + 3))) = Some ((pre @ ?c) ! (4 * k + 3))"
        using st(2) [unfolded bytes_at_def, rule_format, of "4 * k + 3"] long 1(3) by simp
      then show ?thesis using 1(3) long by (simp add: nth_append algebra_simps del: load.simps)
    qed
    show ?thesis
    proof (cases "bs ! 3 = 0x0A")
      case True
      then have c: "chunks bs = ?c" by (simp add: chunks.simps [of bs])
      have len: "length (pre @ ?c) = length pre + 4" using long by simp
      show ?thesis
      proof (intro exI conjI)
        show "readline_loop junk sys (Ptr b 0, Ptr b (int (4 * k)), k + 1, 4 * k, 4) m os = Some (Ptr b 0, m1, os1)"
          using rd st(1) long True last 1(3) by (subst readline_loop.simps) (simp add: Let_def del: load.simps)
      qed (use st rd c long len in \<open>auto simp: other_blocks_def\<close>)
    next
      case False
      have ch: "chunks bs = ?c @ chunks (drop 4 bs)" using long False by (simp add: chunks.simps [of bs])
      let ?xs = "pre @ ?c"
      have xs: "length ?xs = 4 * (k + 1)" using 1(3) long by simp
      have v: "\<forall>i. valid m1 (Ptr b i) \<longleftrightarrow> 0 \<le> i \<and> i < int (length ?xs)" using st(3) long by simp
      obtain d m2 m3 m4 where g: "new_block junk (length ?xs + 4) m1 = (Ptr d 0, m2)"
        "memcpy (Ptr d 0) (Ptr b 0) (of_nat (length ?xs)) m2 = Some (Ptr d (int (length ?xs)), m3)"
        "free_block (Ptr b 0) m3 = Some m4" "buffer_at m4 d ?xs" "other_blocks b m1 m4" "\<forall>i. \<not> valid m1 (Ptr d i)" "d \<noteq> b"
        by (rule buffer_grown [OF st(2) v]) (use xs 1(5) long in auto)
      have step: "readline_loop junk sys (Ptr b 0, Ptr b (int (4 * k)), k + 1, 4 * k, 4) m os
          = readline_loop junk sys (Ptr d 0, Ptr d (int (4 * (k + 1))), k + 1 + 1, 4 * (k + 1), 4) m4 os1"
        using rd st(1) long False last 1(3) g(1-3) xs
        by (subst readline_loop.simps) (simp add: Let_def algebra_simps del: load.simps)
      have "4 * (k + 1) + length (drop 4 bs) < 2 ^ 31" using 1(5) long by simp
      from 1(1) [OF _ g(4) xs rd(2) this] long False
      obtain e m' os' where ih: "readline_loop junk sys (Ptr d 0, Ptr d (int (4 * (k + 1))), k + 1 + 1, 4 * (k + 1), 4) m4 os1
          = Some (Ptr e 0, m', os')" "bytes_at m' (Ptr e 0) (?xs @ chunks (drop 4 bs))"
        "rest os' = drop (length (chunks (drop 4 bs))) (drop 4 bs)"
        "chunks (drop 4 bs) \<noteq> [] \<longrightarrow> 4 dvd length (chunks (drop 4 bs)) \<longrightarrow> last (chunks (drop 4 bs)) = 0x0A \<longrightarrow>
           \<not> valid m' (Ptr e (int (length (?xs @ chunks (drop 4 bs)))))"
        "\<forall>c i. c \<noteq> d \<longrightarrow> valid m4 (Ptr c i) \<longrightarrow> load m' (Ptr c i) = load m4 (Ptr c i)" by auto
      have end_of: "last (chunks bs) = 0x0A \<Longrightarrow> 4 dvd length (chunks bs) \<Longrightarrow>
          chunks (drop 4 bs) \<noteq> [] \<and> last (chunks (drop 4 bs)) = 0x0A \<and> 4 dvd length (chunks (drop 4 bs))"
        using ch last_chunk [of bs] long False by (cases "chunks (drop 4 bs) = []") simp_all
      have other: "load m' (Ptr c i) = load m (Ptr c i)" if c: "c \<noteq> b" "valid m (Ptr c i)" for c i
      proof -
        have e1: "load m1 (Ptr c i) = load m (Ptr c i)" using st(4) c unfolding other_blocks_def by blast
        then have v1: "valid m1 (Ptr c i)" using c(2) by (simp add: valid_def del: load.simps)
        then have "c \<noteq> d" using g(6) by blast
        have e4: "load m4 (Ptr c i) = load m1 (Ptr c i)" using g(5) c(1) v1 unfolding other_blocks_def by blast
        then have "valid m4 (Ptr c i)" using v1 by (simp add: valid_def del: load.simps)
        then show ?thesis using ih(5) \<open>c \<noteq> d\<close> e1 e4 by simp
      qed
      show ?thesis
      proof (intro exI conjI)
        show "readline_loop junk sys (Ptr b 0, Ptr b (int (4 * k)), k + 1, 4 * k, 4) m os = Some (Ptr e 0, m', os')"
          using step ih(1) by simp
        show "bytes_at m' (Ptr e 0) (pre @ chunks bs)" using ih(2) ch by simp
        show "rest os' = drop (length (chunks bs)) bs" using ih(3) ch long by (simp add: add.commute)
        show "chunks bs \<noteq> [] \<longrightarrow> 4 dvd length (chunks bs) \<longrightarrow> last (chunks bs) = 0x0A \<longrightarrow>
           \<not> valid m' (Ptr e (int (length (pre @ chunks bs))))"
        proof (intro impI)
          assume "4 dvd length (chunks bs)" "last (chunks bs) = 0x0A"
          then have "\<not> valid m' (Ptr e (int (length (?xs @ chunks (drop 4 bs)))))" using ih(4) end_of by blast
          then show "\<not> valid m' (Ptr e (int (length (pre @ chunks bs))))" by (simp add: ch)
        qed
      qed (use other in blast)
    qed
  qed
qed

section \<open>Properties\<close>


text \<open>A system that reads from a string.\<close>

definition string_sys :: "u8 list sys" where
  "string_sys = \<lparr>sys_read = \<lambda>fd n bs. (Some (take n bs), drop n bs), sys_write = \<lambda>fd bs w. (0, w)\<rparr>"


end
