(* ===== verification/Dictionary.thy ===== *)
theory Dictionary
  imports Prelude
begin

text \<open>
  The interface between a table of named values and its clients: keys are passed through
  pointers that name them, an update that has room succeeds and changes the represented map at
  that key only, and names stay names. The lemma shows what a sequence of updates leaves.
\<close>

locale dictionary =
  fixes lookup :: "'p \<Rightarrow> 's \<Rightarrow> 'v option"
    and update :: "'p \<Rightarrow> 'v \<Rightarrow> 's \<Rightarrow> 's option"
    and names :: "'s \<Rightarrow> 'p \<Rightarrow> 'k \<Rightarrow> bool"
    and represents :: "'s \<Rightarrow> ('k \<rightharpoonup> 'v) \<Rightarrow> bool"
    and absent :: 'v
    and capacity :: nat
  assumes represents_finite: "represents s M \<Longrightarrow> finite (dom M)"
    and lookup_value: "represents s M \<Longrightarrow> names s p k \<Longrightarrow>
      lookup p s = Some (case M k of None \<Rightarrow> absent | Some v \<Rightarrow> v)"
    and update_room: "represents s M \<Longrightarrow> names s p k \<Longrightarrow> k \<in> dom M \<or> card (dom M) < capacity \<Longrightarrow>
      \<exists>s'. update p v s = Some s' \<and> represents s' (M(k \<mapsto> v)) \<and> (\<forall>q t. names s q t \<longrightarrow> names s' q t)"
begin

text \<open>The updates \<open>us\<close> are triples of a pointer, the key it names and a value.\<close>

lemma updates_represent:
  "represents s M \<Longrightarrow> \<forall>(p, k, v) \<in> set us. names s p k \<Longrightarrow> card (dom M \<union> (fst \<circ> snd) ` set us) \<le> capacity \<Longrightarrow>
    \<exists>s'. for_list (\<lambda>(p, k, v). update p v) us s = Some s'
      \<and> represents s' (M ++ map_of (rev (map snd us))) \<and> (\<forall>q t. names s q t \<longrightarrow> names s' q t)"
proof (induction us arbitrary: s M)
  case Nil
  then show ?case by simp
next
  case (Cons u us)
  obtain p k v where u: "u = (p, k, v)" by (cases u)
  let ?all = "dom M \<union> (fst \<circ> snd) ` set (u # us)"
  have fin: "finite ?all" using represents_finite [OF Cons.prems(1)] by simp
  have "card (dom M) < capacity" if "k \<notin> dom M"
  proof -
    have "dom M \<subset> ?all" using that u by auto
    then show ?thesis using psubset_card_mono [OF fin] Cons.prems(3) by (meson less_le_trans)
  qed
  then have room: "k \<in> dom M \<or> card (dom M) < capacity" by blast
  have "names s p k" using Cons.prems(2) u by simp
  then obtain s1 where s1: "update p v s = Some s1" "represents s1 (M(k \<mapsto> v))" "\<forall>q t. names s q t \<longrightarrow> names s1 q t"
    using update_room [OF Cons.prems(1) _ room] by blast
  have "\<forall>(p, k, v) \<in> set us. names s1 p k" using Cons.prems(2) s1(3) by fastforce
  moreover have "dom (M(k \<mapsto> v)) \<union> (fst \<circ> snd) ` set us = ?all" using u by auto
  ultimately obtain s' where s': "for_list (\<lambda>(p, k, v). update p v) us s1 = Some s'"
    "represents s' (M(k \<mapsto> v) ++ map_of (rev (map snd us)))" "\<forall>q t. names s1 q t \<longrightarrow> names s' q t"
    using Cons.IH [OF s1(2)] Cons.prems(3) by metis
  have "M(k \<mapsto> v) ++ map_of (rev (map snd us)) = M ++ map_of (rev (map snd (u # us)))"
    by (simp add: u)
  then show ?case using s' s1 u by auto
qed

lemma lookup_after_updates:
  assumes "represents s M" and "\<forall>(p, k, v) \<in> set us. names s p k"
    and "card (dom M \<union> (fst \<circ> snd) ` set us) \<le> capacity"
  shows "\<exists>s'. for_list (\<lambda>(p, k, v). update p v) us s = Some s'
    \<and> (\<forall>q t. names s q t \<longrightarrow> names s' q t)
    \<and> (\<forall>q t. names s' q t \<longrightarrow> lookup q s' = Some (case map_of (rev (map snd us)) t of
         Some v \<Rightarrow> v | None \<Rightarrow> (case M t of None \<Rightarrow> absent | Some v \<Rightarrow> v)))"
proof -
  obtain s' where s': "for_list (\<lambda>(p, k, v). update p v) us s = Some s'"
    "represents s' (M ++ map_of (rev (map snd us)))" "\<forall>q t. names s q t \<longrightarrow> names s' q t"
    using updates_represent [OF assms] by blast
  then show ?thesis using lookup_value [OF s'(2)] by (auto simp: map_add_def split: option.splits)
qed

end

end
