(* ===== verification/Environ.thy ===== *)
theory Environ
  imports CString Dictionary
begin

text \<open>
  The environment of libc/getenv.c: a table of twenty slots, each null or a pair of a key and
  a value pointer. Keys are copied into new memory, values are kept as the pointers they are.
  The records themselves are values of the model; \<open>malloc\<close> gives new blocks with arbitrary
  contents.
\<close>

section \<open>Operations\<close>

abbreviation (input) ENVIRON_DATA_SIZE :: nat where "ENVIRON_DATA_SIZE \<equiv> 20"

type_synonym environ_vars = "(ptr \<times> ptr) option list"

fun getenv_loop :: "mem \<Rightarrow> ptr \<Rightarrow> environ_vars \<Rightarrow> ptr option" where
  "getenv_loop m key [] = Some NULL"
| "getenv_loop m key (None # vars) = Some NULL"
| "getenv_loop m key (Some (k, v) # vars) = do {
     r \<leftarrow> strcmp m key k;
     if r = 0 then Some v else getenv_loop m key vars
   }"

definition getenv :: "mem \<Rightarrow> ptr \<Rightarrow> environ_vars \<Rightarrow> ptr option" where
  "getenv m key vars = getenv_loop m key (take ENVIRON_DATA_SIZE vars)"

text \<open>A new entry: the key copied into a block of its length plus one.\<close>

definition new_entry :: "(nat \<Rightarrow> nat \<Rightarrow> u8) \<Rightarrow> ptr \<Rightarrow> ptr \<Rightarrow> mem \<Rightarrow> ((ptr \<times> ptr) \<times> mem) option" where
  "new_entry junk key val m = do {
     n \<leftarrow> strlen m key;
     let (k, m) = new_block junk (n + 1) m;
     (s, m) \<leftarrow> memset k 0 (of_nat (n + 1)) m;
     (e, m) \<leftarrow> memcpy k key (of_nat n) m;
     Some ((k, val), m)
   }"

text \<open>Mode 0 takes the first empty slot, mode 1 the first slot that is empty or has the key.\<close>

fun add_loop :: "(nat \<Rightarrow> nat \<Rightarrow> u8) \<Rightarrow> ptr \<Rightarrow> ptr \<Rightarrow> environ_vars \<Rightarrow> mem \<Rightarrow> (i32 \<times> environ_vars \<times> mem) option" where
  "add_loop junk key val [] m = Some (-1, [], m)"
| "add_loop junk key val (None # vars) m = do {
     (e, m) \<leftarrow> new_entry junk key val m;
     Some (0, Some e # vars, m)
   }"
| "add_loop junk key val (Some e # vars) m = do {
     (r, vars, m) \<leftarrow> add_loop junk key val vars m;
     Some (r, Some e # vars, m)
   }"

fun set_loop :: "(nat \<Rightarrow> nat \<Rightarrow> u8) \<Rightarrow> ptr \<Rightarrow> ptr \<Rightarrow> environ_vars \<Rightarrow> mem \<Rightarrow> (i32 \<times> environ_vars \<times> mem) option" where
  "set_loop junk key val [] m = Some (-1, [], m)"
| "set_loop junk key val (None # vars) m = do {
     (e, m) \<leftarrow> new_entry junk key val m;
     Some (0, Some e # vars, m)
   }"
| "set_loop junk key val (Some (k, v) # vars) m = do {
     r \<leftarrow> strcmp m k key;
     if r = 0 then Some (0, Some (k, val) # vars, m)
     else do {
       (r, vars, m) \<leftarrow> set_loop junk key val vars m;
       Some (r, Some (k, v) # vars, m)
     }
   }"

definition setenv ::
  "(nat \<Rightarrow> nat \<Rightarrow> u8) \<Rightarrow> ptr \<Rightarrow> ptr \<Rightarrow> i32 \<Rightarrow> environ_vars \<Rightarrow> mem \<Rightarrow> (i32 \<times> environ_vars \<times> mem) option" where
  "setenv junk key val mode vars m =
     (if mode = 0 then add_loop junk key val vars m
      else if mode = 1 then set_loop junk key val vars m
      else Some (-1, vars, m))"

section \<open>New entries\<close>

lemma new_entry_string:
  assumes s: "cstring m key s" and len: "length s + 1 < 2 ^ 31"
  obtains k m' where "new_entry junk key val m = Some ((k, val), m')" "extends m m'" "cstring m' k s"
    "\<And>q x i. load m q = Some x \<Longrightarrow> q \<noteq> padd k i"
proof -
  let ?n = "length s"
  obtain k m1 where nb: "new_block junk (?n + 1) m = (k, m1)" by (cases "new_block junk (?n + 1) m") auto
  note b = new_block_facts [OF nb]
  obtain m2 where ms: "memset k 0 (of_nat (?n + 1)) m1 = Some (k, m2)" and w2: "written_at m1 k (replicate (?n + 1) 0) m2"
    using memset_room [OF b(2) len, of 0] by auto
  have away: "outside q k j" if "load m q = Some x" for q x j
    using b(4) [OF that] by (simp add: outside_def)
  have e2: "load m2 q = Some x" if "load m q = Some x" for q x
    using away [OF that] w2 b(1) that by (simp add: written_at_def extends_def)
  then have sk: "bytes_at m2 key s" using cstring_bytes [OF s] by (auto simp: bytes_at_def)
  have dj: "disjoint_runs key k ?n"
    using cstring_bytes [OF s] away by (auto simp: disjoint_runs_def bytes_at_def)
  have rm: "room m2 k ?n" using room_mono [OF b(2), of ?n] w2 by (simp add: room_def written_at_def)
  obtain m3 where mc: "memcpy k key (of_nat ?n) m2 = Some (padd k (int ?n), m3)" and w3: "written_at m2 k s m3"
    using memcpy_room [OF sk cstring_not_null [OF s] rm dj] len by auto
  have "load m3 q = Some x" if "load m q = Some x" for q x
    using away [OF that] w3 e2 [OF that] by (simp add: written_at_def)
  then have ext: "extends m m3" by (simp add: extends_def)
  have "replicate (Suc ?n) (0 :: u8) ! ?n = 0" by (rule nth_replicate) simp
  then have "(0 # replicate ?n (0 :: u8)) ! ?n = 0" by simp
  then have "load m2 (padd k (int ?n)) = Some 0" using w2 by (auto simp: written_at_def bytes_at_def)
  moreover have "outside (padd k (int ?n)) k ?n" using b(3) by (simp add: outside_def padd_inject)
  ultimately have "load m3 (padd k (int ?n)) = Some 0" using w3 by (simp add: written_at_def)
  then have "cstring m3 k s"
    using w3 s by (auto simp: cstring_def written_at_def bytes_at_def nth_append less_Suc_eq)
  moreover have "new_entry junk key val m = Some ((k, val), m3)"
    using strlen_cstring [OF s] len nb ms mc by (simp add: new_entry_def)
  ultimately show ?thesis using that ext b(4) by blast
qed

section \<open>The environment as a list of bindings\<close>

text \<open>The slots hold \<open>kvs\<close>, in order, and are empty after them.\<close>

definition bindings :: "mem \<Rightarrow> environ_vars \<Rightarrow> (u8 list \<times> ptr) list \<Rightarrow> bool" where
  "bindings m vars kvs \<longleftrightarrow> (\<exists>es. vars = map Some es @ replicate (length vars - length es) None
     \<and> list_all2 (\<lambda>(k, v) (s, w). cstring m k s \<and> v = w) es kvs)"

lemma bindings_Nil: "bindings m (replicate n None) []"
  by (simp add: bindings_def)

lemma bindings_nil_iff: "bindings m [] kvs \<longleftrightarrow> kvs = []"
  by (auto simp: bindings_def)

lemma bindings_None: "bindings m (None # vars) kvs \<longleftrightarrow> kvs = [] \<and> vars = replicate (length vars) None"
proof -
  have "None # vars = map Some es @ replicate k None \<longleftrightarrow> es = [] \<and> (\<exists>j. k = Suc j \<and> vars = replicate j None)" for es k
    by (cases es; cases k) auto
  then show ?thesis by (auto simp: bindings_def)
qed

lemma bindings_Some:
  "bindings m (Some (k, v) # vars) kvs \<longleftrightarrow>
     (\<exists>s kvs'. kvs = (s, v) # kvs' \<and> cstring m k s \<and> bindings m vars kvs')"
proof
  assume "bindings m (Some (k, v) # vars) kvs"
  then obtain es where es: "Some (k, v) # vars = map Some es @ replicate (Suc (length vars) - length es) None"
    "list_all2 (\<lambda>(k, v) (s, w). cstring m k s \<and> v = w) es kvs" by (auto simp: bindings_def)
  then obtain es' where "es = (k, v) # es'" by (cases es) (auto simp: Cons_replicate_eq)
  then show "\<exists>s kvs'. kvs = (s, v) # kvs' \<and> cstring m k s \<and> bindings m vars kvs'"
    using es by (cases kvs) (auto simp: bindings_def)
next
  assume "\<exists>s kvs'. kvs = (s, v) # kvs' \<and> cstring m k s \<and> bindings m vars kvs'"
  then obtain s kvs' es where "kvs = (s, v) # kvs'" "cstring m k s"
    "vars = map Some es @ replicate (length vars - length es) None"
    "list_all2 (\<lambda>(k, v) (s, w). cstring m k s \<and> v = w) es kvs'" by (auto simp: bindings_def)
  then show "bindings m (Some (k, v) # vars) kvs"
    unfolding bindings_def by (intro exI [of _ "(k, v) # es"]) auto
qed

lemma bindings_extends: "extends m m' \<Longrightarrow> bindings m vars kvs \<Longrightarrow> bindings m' vars kvs"
proof -
  assume e: "extends m m'" and "bindings m vars kvs"
  then obtain es where "vars = map Some es @ replicate (length vars - length es) None"
    and "list_all2 (\<lambda>(k, v) (s, w). cstring m k s \<and> v = w) es kvs" by (auto simp: bindings_def)
  moreover from this(2) have "list_all2 (\<lambda>(k, v) (s, w). cstring m' k s \<and> v = w) es kvs"
    using cstring_extends [OF e] by (auto elim!: list_all2_mono)
  ultimately show ?thesis unfolding bindings_def by blast
qed

section \<open>The loops on bindings\<close>

fun put :: "u8 list \<Rightarrow> ptr \<Rightarrow> (u8 list \<times> ptr) list \<Rightarrow> (u8 list \<times> ptr) list" where
  "put s v [] = [(s, v)]"
| "put s v ((t, w) # kvs) = (if t = s then (t, v) # kvs else (t, w) # put s v kvs)"

lemma map_of_put: "map_of (put s v kvs) = (map_of kvs)(s \<mapsto> v)"
  by (induction s v kvs rule: put.induct) (auto simp: fun_eq_iff)

definition found :: "(u8 list \<times> ptr) list \<Rightarrow> u8 list \<Rightarrow> ptr" where
  "found kvs s = (case map_of kvs s of None \<Rightarrow> NULL | Some v \<Rightarrow> v)"

lemma getenv_loop_bindings:
  "bindings m vars kvs \<Longrightarrow> cstring m key s \<Longrightarrow> getenv_loop m key vars = Some (found kvs s)"
proof (induction m key vars arbitrary: kvs rule: getenv_loop.induct)
  case (1 m key)
  then show ?case by (simp add: bindings_nil_iff found_def)
next
  case (2 m key vars)
  then show ?case by (simp add: bindings_None found_def)
next
  case (3 m key k v vars)
  then obtain t kvs' where kvs: "kvs = (t, v) # kvs'" "cstring m k t" "bindings m vars kvs'"
    by (auto simp: bindings_Some)
  obtain r where r: "strcmp m key k = Some r" "r = 0 \<longleftrightarrow> s = t"
    using strcmp_eq_0 [OF 3(3) kvs(2)] by blast
  show ?case using r kvs(1) 3(1) [OF r(1) _ kvs(3) 3(3)] by (auto simp: found_def)
qed

lemma add_loop_bindings:
  assumes "cstring m key s" and "length s + 1 < 2 ^ 31"
  shows "bindings m vars kvs \<Longrightarrow> length kvs < length vars \<Longrightarrow>
    \<exists>vars' m'. add_loop junk key val vars m = Some (0, vars', m') \<and> bindings m' vars' (kvs @ [(s, val)])
      \<and> extends m m' \<and> length vars' = length vars"
proof (induction vars arbitrary: kvs)
  case Nil
  then show ?case by simp
next
  case (Cons e vars)
  show ?case
  proof (cases e)
    case None
    obtain k m' where n: "new_entry junk key val m = Some ((k, val), m')" "extends m m'" "cstring m' k s"
      by (rule new_entry_string [OF assms])
    have "kvs = []" "vars = replicate (length vars) None" using Cons.prems(1) None by (simp_all add: bindings_None)
    moreover from this(2) have "bindings m' vars []" using bindings_Nil [of m' "length vars"] by simp
    ultimately show ?thesis using None n by (simp add: bindings_Some)
  next
    case (Some kv)
    obtain k v where kv: "kv = (k, v)" by (cases kv) auto
    obtain t kvs' where kvs: "kvs = (t, v) # kvs'" "cstring m k t" "bindings m vars kvs'"
      using Cons.prems(1) Some kv by (auto simp: bindings_Some)
    obtain vars' m' where rec: "add_loop junk key val vars m = Some (0, vars', m')"
      "bindings m' vars' (kvs' @ [(s, val)])" "extends m m'" "length vars' = length vars"
      using Cons.IH [OF kvs(3)] Cons.prems(2) kvs(1) by auto
    then show ?thesis using Some kv kvs cstring_extends [OF rec(3) kvs(2)] by (simp add: bindings_Some)
  qed
qed

text \<open>A key pointer of the new table is one of the old table or points to new memory.\<close>

definition keys_old_or_new :: "mem \<Rightarrow> environ_vars \<Rightarrow> environ_vars \<Rightarrow> bool" where
  "keys_old_or_new m vs vs' \<longleftrightarrow> (\<forall>k v. Some (k, v) \<in> set vs' \<longrightarrow>
     (\<exists>w. Some (k, w) \<in> set vs) \<or> (\<forall>q x i. load m q = Some x \<longrightarrow> q \<noteq> padd k i))"

lemma set_loop_bindings:
  assumes "cstring m key s" and "length s + 1 < 2 ^ 31"
  shows "bindings m vars kvs \<Longrightarrow> length kvs < length vars \<or> s \<in> fst ` set kvs \<Longrightarrow>
    \<exists>vars' m'. set_loop junk key val vars m = Some (0, vars', m') \<and> bindings m' vars' (put s val kvs)
      \<and> extends m m' \<and> length vars' = length vars \<and> keys_old_or_new m vars vars'"
proof (induction vars arbitrary: kvs)
  case Nil
  then show ?case by (auto simp: bindings_nil_iff)
next
  case (Cons e vars)
  show ?case
  proof (cases e)
    case None
    obtain k m' where n: "new_entry junk key val m = Some ((k, val), m')" "extends m m'" "cstring m' k s"
      "\<And>q x i. load m q = Some x \<Longrightarrow> q \<noteq> padd k i"
      by (rule new_entry_string [OF assms]) blast
    have "keys_old_or_new m (e # vars) (Some (k, val) # vars)" using n(4) by (auto simp: keys_old_or_new_def)
    moreover have "kvs = []" "vars = replicate (length vars) None" using Cons.prems(1) None by (simp_all add: bindings_None)
    moreover from this(2) have "bindings m' vars []" using bindings_Nil [of m' "length vars"] by simp
    ultimately show ?thesis using None n by (simp add: bindings_Some)
  next
    case (Some kv)
    obtain k v where kv: "kv = (k, v)" by (cases kv) auto
    obtain t kvs' where kvs: "kvs = (t, v) # kvs'" "cstring m k t" "bindings m vars kvs'"
      using Cons.prems(1) Some kv by (auto simp: bindings_Some)
    obtain r where r: "strcmp m k key = Some r" "r = 0 \<longleftrightarrow> t = s"
      using strcmp_eq_0 [OF kvs(2) assms(1)] by blast
    show ?thesis
    proof (cases "t = s")
      case True
      then show ?thesis using Some kv kvs r by (auto simp: bindings_Some keys_old_or_new_def)
    next
      case False
      obtain vars' m' where rec: "set_loop junk key val vars m = Some (0, vars', m')"
        "bindings m' vars' (put s val kvs')" "extends m m'" "length vars' = length vars" "keys_old_or_new m vars vars'"
        using Cons.IH [OF kvs(3)] Cons.prems(2) kvs(1) False by auto
      have "keys_old_or_new m (e # vars) (e # vars')" using rec(5) by (auto simp: keys_old_or_new_def)
      then show ?thesis using Some kv kvs r False rec cstring_extends [OF rec(3) kvs(2)] by (simp add: bindings_Some)
    qed
  qed
qed

lemma set_loop_full:
  assumes "cstring m key s"
  shows "bindings m vars kvs \<Longrightarrow> length kvs = length vars \<Longrightarrow> s \<notin> fst ` set kvs \<Longrightarrow>
    set_loop junk key val vars m = Some (-1, vars, m)"
proof (induction vars arbitrary: kvs)
  case Nil
  then show ?case by simp
next
  case (Cons e vars)
  have "\<exists>k v. e = Some (k, v)" using Cons.prems by (cases e) (auto simp: bindings_None)
  then obtain k v where kv: "e = Some (k, v)" by blast
  obtain t kvs' where kvs: "kvs = (t, v) # kvs'" "cstring m k t" "bindings m vars kvs'"
    using Cons.prems(1) kv by (auto simp: bindings_Some)
  obtain r where "strcmp m k key = Some r" "r = 0 \<longleftrightarrow> t = s"
    using strcmp_eq_0 [OF kvs(2) assms] by blast
  moreover have "t \<noteq> s" "s \<notin> fst ` set kvs'" using Cons.prems(3) kvs(1) by auto
  ultimately show ?case using Cons.IH [OF kvs(3)] Cons.prems(2) kv kvs(1) by simp
qed

lemma add_loop_full:
  "bindings m vars kvs \<Longrightarrow> length kvs = length vars \<Longrightarrow> add_loop junk key val vars m = Some (-1, vars, m)"
proof (induction vars arbitrary: kvs)
  case Nil
  then show ?case by simp
next
  case (Cons e vars)
  have "\<exists>k v. e = Some (k, v)" using Cons.prems by (cases e) (auto simp: bindings_None)
  then obtain k v where kv: "e = Some (k, v)" by blast
  obtain t kvs' where "kvs = (t, v) # kvs'" "bindings m vars kvs'"
    using Cons.prems(1) kv by (auto simp: bindings_Some)
  then show ?case using Cons.IH [of kvs'] Cons.prems(2) kv by simp
qed

lemma bindings_length: "bindings m vars kvs \<Longrightarrow> length kvs \<le> length vars"
proof -
  assume "bindings m vars kvs"
  then obtain es where es: "vars = map Some es @ replicate (length vars - length es) None" "length es = length kvs"
    by (auto simp: bindings_def dest: list_all2_lengthD)
  from arg_cong [OF es(1), of length] es(2) show ?thesis by simp
qed

lemma getenv_bindings:
  "bindings m vars kvs \<Longrightarrow> length vars = 20 \<Longrightarrow> cstring m key s \<Longrightarrow> getenv m key vars = Some (found kvs s)"
  using getenv_loop_bindings by (simp add: getenv_def)

section \<open>The environment as a dictionary\<close>

text \<open>One call in mode 1 that must succeed, and what the table represents.\<close>

definition set_variable ::
  "(nat \<Rightarrow> nat \<Rightarrow> u8) \<Rightarrow> ptr \<Rightarrow> ptr \<Rightarrow> environ_vars \<times> mem \<Rightarrow> (environ_vars \<times> mem) option" where
  "set_variable junk key val st = (case st of (vars, m) \<Rightarrow> do {
     (r, vars, m) \<leftarrow> setenv junk key val 1 vars m;
     if r = 0 then Some (vars, m) else None
   })"

definition names_key :: "environ_vars \<times> mem \<Rightarrow> ptr \<Rightarrow> u8 list \<Rightarrow> bool" where
  "names_key st p s \<longleftrightarrow> cstring (snd st) p s \<and> length s + 1 < 2 ^ 31"

definition represents_map :: "environ_vars \<times> mem \<Rightarrow> (u8 list \<rightharpoonup> ptr) \<Rightarrow> bool" where
  "represents_map st M \<longleftrightarrow> (\<exists>kvs. bindings (snd st) (fst st) kvs \<and> length (fst st) = 20
     \<and> distinct (map fst kvs) \<and> M = map_of kvs)"

lemma fst_put: "fst ` set (put s v kvs) = insert s (fst ` set kvs)"
  by (induction s v kvs rule: put.induct) auto

lemma distinct_put: "distinct (map fst kvs) \<Longrightarrow> distinct (map fst (put s v kvs))"
proof (induction s v kvs rule: put.induct)
  case (2 s v t w kvs)
  have "t \<notin> fst ` set (put s v kvs)" if "t \<noteq> s" using 2(2) that by (auto simp: fst_put)
  then show ?case using 2 by auto
qed simp

interpretation env: dictionary "\<lambda>p st. getenv (snd st) p (fst st)" "set_variable junk" names_key represents_map NULL 20
  for junk
proof unfold_locales
  fix st M p k v
  assume rep: "represents_map st M"
  then obtain kvs where kvs: "bindings (snd st) (fst st) kvs" "length (fst st) = 20" "distinct (map fst kvs)"
    "M = map_of kvs" by (auto simp: represents_map_def)
  show "finite (dom M)" using kvs(4) by (simp add: finite_dom_map_of)
  assume nm: "names_key st p k"
  then have nm': "cstring (snd st) p k" "length k + 1 < 2 ^ 31" by (simp_all add: names_key_def)
  show "getenv (snd st) p (fst st) = Some (case M k of None \<Rightarrow> NULL | Some v \<Rightarrow> v)"
    using getenv_bindings [OF kvs(1,2) nm'(1)] kvs(4) by (simp add: found_def)
  assume room: "k \<in> dom M \<or> card (dom M) < 20"
  have "card (dom M) = length kvs"
    using distinct_card [OF kvs(3)] kvs(4) by (simp add: dom_map_of_conv_image_fst)
  then have "length kvs < length (fst st) \<or> k \<in> fst ` set kvs" using room kvs(2,4) by (auto simp: dom_map_of_conv_image_fst)
  then obtain vars' m' where set: "set_loop junk p v (fst st) (snd st) = Some (0, vars', m')"
    "bindings m' vars' (put k v kvs)" "extends (snd st) m'" "length vars' = length (fst st)"
    using set_loop_bindings [OF nm' kvs(1), where junk = junk and val = v] by blast
  have "represents_map (vars', m') (M(k \<mapsto> v))"
    unfolding represents_map_def using set(2,4) kvs distinct_put map_of_put by auto
  moreover have "\<forall>q t. names_key st q t \<longrightarrow> names_key (vars', m') q t"
    using cstring_extends [OF set(3)] by (simp add: names_key_def)
  ultimately show "\<exists>st'. set_variable junk p v st = Some st' \<and> represents_map st' (M(k \<mapsto> v))
      \<and> (\<forall>q t. names_key st q t \<longrightarrow> names_key st' q t)"
    using set(1) by (auto simp: set_variable_def setenv_def split: prod.splits)
qed

section \<open>Properties\<close>

text \<open>Overwriting mode. With room in the table, or the key present, \<open>setenv\<close> in mode 1
  succeeds, and from then on \<open>getenv\<close> finds the given value pointer under the key - under
  whatever pointer the key string is passed - and under every other key what it found
  before; memory only grows. With a full table and a new key it returns -1 and changes
  nothing.\<close>

theorem setenv_overwrite_then_getenv:
  assumes "bindings m vars kvs" and "length vars = 20" and "cstring m key s" and "length s + 1 < 2 ^ 31"
  shows "if length kvs < 20 \<or> s \<in> fst ` set kvs
    then \<exists>vars' m'. setenv junk key val 1 vars m = Some (0, vars', m') \<and> extends m m' \<and> length vars' = 20
      \<and> (\<forall>q t. cstring m' q t \<longrightarrow> getenv m' q vars' = Some (if t = s then val else found kvs t))
    else setenv junk key val 1 vars m = Some (-1, vars, m)"
proof (cases "length kvs < 20 \<or> s \<in> fst ` set kvs")
  case True
  obtain vars' m' where set: "set_loop junk key val vars m = Some (0, vars', m')"
    "bindings m' vars' (put s val kvs)" "extends m m'" "length vars' = length vars"
    using set_loop_bindings [OF assms(3,4,1), where junk = junk and val = val] True assms(2) by auto
  have "found (put s val kvs) t = (if t = s then val else found kvs t)" for t
    by (simp add: found_def map_of_put)
  then show ?thesis
    using set True assms(2) getenv_bindings [OF set(2)] by (auto simp: setenv_def)
next
  case False
  have "length kvs = length vars" using bindings_length [OF assms(1)] False assms(2) by simp
  then show ?thesis using set_loop_full [OF assms(3,1)] False by (simp add: setenv_def)
qed

definition one_variable :: mem where
  "one_variable = [Some (bytes ''PATH'' @ [0]), Some (bytes ''/bin'' @ [0]), Some (bytes ''PS1'' @ [0]), Some (bytes ''$'' @ [0])]"

lemma one_variable:
  "cstring one_variable (Ptr 0 0) (bytes ''PATH'')" "cstring one_variable (Ptr 2 0) (bytes ''PS1'')"
  by (simp_all add: one_variable_def cstring_Cons cstring_Nil block_def)

lemma one_binding:
  "bindings one_variable (Some (Ptr 0 0, Ptr 1 0) # replicate 19 None) [(bytes ''PATH'', Ptr 1 0)]"
  using one_variable(1) by (auto simp: bindings_Some bindings_Nil)

theorem setenv_overwrite_then_getenv_witness:
  "\<exists>vars' m'. setenv (\<lambda>_ _. 7) (Ptr 2 0) (Ptr 3 0) 1 (Some (Ptr 0 0, Ptr 1 0) # replicate 19 None) one_variable = Some (0, vars', m')
     \<and> getenv m' (Ptr 2 0) vars' = Some (Ptr 3 0) \<and> getenv m' (Ptr 0 0) vars' = Some (Ptr 1 0)"
proof -
  obtain vars' m' where r: "setenv (\<lambda>_ _. 7) (Ptr 2 0) (Ptr 3 0) 1 (Some (Ptr 0 0, Ptr 1 0) # replicate 19 None) one_variable = Some (0, vars', m')"
    "extends one_variable m'"
    "\<forall>q t. cstring m' q t \<longrightarrow> getenv m' q vars' =
       Some (if t = bytes ''PS1'' then Ptr 3 0 else found [(bytes ''PATH'', Ptr 1 0)] t)"
    using setenv_overwrite_then_getenv [OF one_binding _ one_variable(2), of "\<lambda>_ _. 7" "Ptr 3 0"] by auto
  then show ?thesis
    using cstring_extends [OF r(2) one_variable(1)] cstring_extends [OF r(2) one_variable(2)]
    by (auto simp: found_def)
qed

text \<open>Adding mode. \<open>setenv\<close> in mode 0 reports success and uses up a slot even when the key is
  already there, but \<open>getenv\<close> keeps finding the older value; only for a new key is the new
  value found.\<close>

theorem setenv_add_keeps_first:
  assumes "bindings m vars kvs" and "length vars = 20" and "length kvs < 20"
    and "cstring m key s" and "length s + 1 < 2 ^ 31"
  shows "\<exists>vars' m'. setenv junk key val 0 vars m = Some (0, vars', m')
    \<and> bindings m' vars' (kvs @ [(s, val)])
    \<and> (\<forall>q. cstring m' q s \<longrightarrow> getenv m' q vars' = Some (if s \<in> fst ` set kvs then found kvs s else val))"
proof -
  obtain vars' m' where set: "add_loop junk key val vars m = Some (0, vars', m')"
    "bindings m' vars' (kvs @ [(s, val)])" "length vars' = length vars"
    using add_loop_bindings [OF assms(4,5,1), where junk = junk and val = val] assms(2,3) by auto
  have "found (kvs @ [(s, val)]) s = (if s \<in> fst ` set kvs then found kvs s else val)"
  proof (cases "map_of kvs s")
    case None
    then have "s \<notin> fst ` set kvs" by (simp add: map_of_eq_None_iff)
    then show ?thesis using None by (simp add: found_def map_add_def)
  next
    case (Some v)
    then have "s \<in> fst ` set kvs" by (force dest: map_of_SomeD)
    then show ?thesis using Some by (simp add: found_def)
  qed
  then show ?thesis using set assms(2) getenv_bindings [OF set(2)] by (auto simp: setenv_def)
qed

theorem setenv_add_keeps_first_witness:
  "\<exists>vars' m'. setenv (\<lambda>_ _. 7) (Ptr 0 0) (Ptr 3 0) 0 (Some (Ptr 0 0, Ptr 1 0) # replicate 19 None) one_variable = Some (0, vars', m')
     \<and> bindings m' vars' [(bytes ''PATH'', Ptr 1 0), (bytes ''PATH'', Ptr 3 0)]"
  using setenv_add_keeps_first [OF one_binding _ _ one_variable(1), of "\<lambda>_ _. 7" "Ptr 3 0"] by auto

text \<open>C29: Any number of assignments. As long as at most twenty different names are in use, every
  call of a sequence of \<open>setenv\<close> calls in mode 1 succeeds, and afterwards \<open>getenv\<close> answers each
  name with the value it was given last - in the sequence, else in the table before it, else
  with the null pointer - whatever pointer the name is passed through.\<close>

theorem setenv_sequence_last_wins:
  assumes "bindings m vars kvs" and "length vars = 20" and "distinct (map fst kvs)"
    and "\<forall>(p, k, v) \<in> set us. cstring m p k \<and> length k + 1 < 2 ^ 31"
    and "card (fst ` set kvs \<union> (fst \<circ> snd) ` set us) \<le> 20"
  shows "\<exists>vars' m'. for_list (\<lambda>(p, k, v). set_variable junk p v) us (vars, m) = Some (vars', m')
    \<and> (\<forall>q t. cstring m' q t \<and> length t + 1 < 2 ^ 31 \<longrightarrow>
         getenv m' q vars' = Some (case map_of (rev (map snd us)) t of Some v \<Rightarrow> v | None \<Rightarrow> found kvs t))
    \<and> (\<forall>q t. cstring m q t \<and> length t + 1 < 2 ^ 31 \<longrightarrow> cstring m' q t)"
proof -
  have rep: "represents_map (vars, m) (map_of kvs)" using assms(1-3) by (auto simp: represents_map_def)
  have nm: "\<forall>(p, k, v) \<in> set us. names_key (vars, m) p k" using assms(4) by (auto simp: names_key_def)
  have "card (dom (map_of kvs) \<union> (fst \<circ> snd) ` set us) \<le> 20"
    using assms(5) by (simp add: dom_map_of_conv_image_fst)
  from env.lookup_after_updates [OF rep nm this, of junk]
  obtain st where st: "for_list (\<lambda>(p, k, v). set_variable junk p v) us (vars, m) = Some st"
    "\<forall>q t. names_key (vars, m) q t \<longrightarrow> names_key st q t"
    "\<forall>q t. names_key st q t \<longrightarrow> getenv (snd st) q (fst st) = Some (case map_of (rev (map snd us)) t of
       Some v \<Rightarrow> v | None \<Rightarrow> (case map_of kvs t of None \<Rightarrow> NULL | Some v \<Rightarrow> v))" by blast
  obtain vars' m' where "st = (vars', m')" by (cases st)
  then show ?thesis using st unfolding found_def names_key_def by auto
qed

theorem setenv_sequence_last_wins_witness:
  "\<exists>vars' m'. for_list (\<lambda>(p, k, v). set_variable (\<lambda>_ _. 7) p v)
       [(Ptr 2 0, bytes ''PS1'', Ptr 1 0), (Ptr 0 0, bytes ''PATH'', Ptr 3 0), (Ptr 2 0, bytes ''PS1'', Ptr 3 0)]
       (replicate 20 None, one_variable) = Some (vars', m') \<and> getenv m' (Ptr 2 0) vars' = Some (Ptr 3 0)"
proof -
  let ?us = "[(Ptr 2 0, bytes ''PS1'', Ptr 1 0), (Ptr 0 0, bytes ''PATH'', Ptr 3 0), (Ptr 2 0, bytes ''PS1'', Ptr 3 0)]"
  have us: "\<forall>(p, k, v) \<in> set ?us. cstring one_variable p k \<and> length k + 1 < 2 ^ 31" using one_variable by simp
  have c: "card (fst ` set ([] :: (u8 list \<times> ptr) list) \<union> (fst \<circ> snd) ` set ?us) \<le> 20" by (simp add: card_insert_if)
  obtain vars' m' where r: "for_list (\<lambda>(p, k, v). set_variable (\<lambda>_ _. 7) p v) ?us (replicate 20 None, one_variable) = Some (vars', m')"
    "\<forall>q t. cstring m' q t \<and> length t + 1 < 2 ^ 31 \<longrightarrow>
         getenv m' q vars' = Some (case map_of (rev (map snd ?us)) t of Some v \<Rightarrow> v | None \<Rightarrow> found [] t)"
    "\<forall>q t. cstring one_variable q t \<and> length t + 1 < 2 ^ 31 \<longrightarrow> cstring m' q t"
    using setenv_sequence_last_wins [OF bindings_Nil [of _ 20] _ _ us c, of "\<lambda>_ _. 7"] by (auto simp del: for_list.simps)
  have "cstring m' (Ptr 2 0) (bytes ''PS1'')" using r(3) one_variable(2) by simp
  then have "getenv m' (Ptr 2 0) vars' = Some (Ptr 3 0)"
    using r(2) [rule_format, of "Ptr 2 0" "bytes ''PS1''"] by simp
  then show ?thesis using r(1) by blast
qed

text \<open>C10: The table stays a table. On every branch - any mode, the key present or not, room or
  not - \<open>setenv\<close> is defined on a table whose slots hold bindings first and then nothing, and
  leaves such a table of twenty slots: with the binding appended in mode 0, replaced or
  appended in mode 1, and unchanged, with the result -1, in every other mode and whenever
  there is no slot for the binding. What was in memory stays there.\<close>

theorem setenv_every_branch:
  assumes "bindings m vars kvs" and "length vars = 20" and "cstring m key s" and "length s + 1 < 2 ^ 31"
  shows "\<exists>vars' m'. setenv junk key val mode vars m = Some
      (if mode = 0 \<and> length kvs < 20 \<or> mode = 1 \<and> (length kvs < 20 \<or> s \<in> fst ` set kvs) then 0 else -1, vars', m')
    \<and> bindings m' vars' (if mode = 0 \<and> length kvs < 20 then kvs @ [(s, val)]
        else if mode = 1 \<and> (length kvs < 20 \<or> s \<in> fst ` set kvs) then put s val kvs else kvs)
    \<and> length vars' = 20 \<and> extends m m'"
proof -
  have len: "length kvs \<le> 20" using bindings_length [OF assms(1)] assms(2) by simp
  consider "mode = 0" "length kvs < 20" | "mode = 0" "length kvs = 20"
    | "mode = 1" "length kvs < 20 \<or> s \<in> fst ` set kvs" | "mode = 1" "length kvs = 20" "s \<notin> fst ` set kvs"
    | "mode \<noteq> 0" "mode \<noteq> 1" using len by linarith
  then show ?thesis
  proof cases
    case 1
    then show ?thesis using add_loop_bindings [OF assms(3,4,1), of junk val] assms(2) by (auto simp: setenv_def)
  next
    case 2
    then show ?thesis using add_loop_full [OF assms(1)] assms(1,2) by (auto simp: setenv_def)
  next
    case 3
    then show ?thesis using set_loop_bindings [OF assms(3,4,1), of junk val] assms(2) by (auto simp: setenv_def)
  next
    case 4
    then show ?thesis using set_loop_full [OF assms(3,1)] assms(1,2) by (auto simp: setenv_def)
  next
    case 5
    then show ?thesis using assms(1,2) by (auto simp: setenv_def)
  qed
qed

theorem setenv_every_branch_witness:
  "\<exists>vars' m'. setenv (\<lambda>_ _. 7) (Ptr 2 0) (Ptr 3 0) 2 (Some (Ptr 0 0, Ptr 1 0) # replicate 19 None) one_variable = Some (-1, vars', m')
     \<and> bindings m' vars' [(bytes ''PATH'', Ptr 1 0)]"
  using setenv_every_branch [OF one_binding _ one_variable(2), of "\<lambda>_ _. 7" "Ptr 3 0" 2] by auto

end
