(* ===== verification/Process.thy ===== *)
theory Process
  imports Stdio Environ
begin

text \<open>
  The state of the shell process of bin/sbush and the calls it makes to the system: the file
  and process calls of include/sys/syscall.h that are written in C (\<open>fopen\<close>, \<open>fclose\<close>,
  \<open>execvpe\<close>), output, descriptor duplication and waiting (sbush.c). The system calls are
  parameters, functions of the state of the system; \<open>fork\<close> answers once, with the value this
  process sees, so the code is followed in the parent and in the child by the two kinds of
  answer. A computation can end the process: \<open>exit\<close> does, and an \<open>execve\<close> that succeeds.
\<close>

section \<open>State\<close>

text \<open>\<open>p_execve\<close> without a result is the success: another program runs in this process. A
  pointer handed to the system is read by it in the memory of the process.\<close>

record 'os procs =
  io :: "'os sys"
  p_open :: "mem \<Rightarrow> ptr \<Rightarrow> i32 \<Rightarrow> 'os \<Rightarrow> i32 \<times> 'os"
  p_close :: "i32 \<Rightarrow> 'os \<Rightarrow> i32 \<times> 'os"
  p_fork :: "'os \<Rightarrow> i32 \<times> 'os"
  p_execve :: "mem \<Rightarrow> ptr \<Rightarrow> ptr option list \<Rightarrow> ptr option list \<Rightarrow> 'os \<Rightarrow> i32 option \<times> 'os"
  p_waitpid :: "i32 \<Rightarrow> i32 \<Rightarrow> 'os \<Rightarrow> i32 \<times> i32 option \<times> 'os"
  p_chdir :: "mem \<Rightarrow> ptr \<Rightarrow> 'os \<Rightarrow> i32 \<times> 'os"
  p_getcwd :: "nat \<Rightarrow> 'os \<Rightarrow> u8 list \<times> 'os"
  p_setpgid :: "i32 \<Rightarrow> i32 \<Rightarrow> 'os \<Rightarrow> i32 \<times> 'os"
  p_pipe :: "'os \<Rightarrow> i32 \<times> (i32 \<times> i32) option \<times> 'os"
  p_dup2 :: "i32 \<Rightarrow> i32 \<Rightarrow> 'os \<Rightarrow> i32 \<times> 'os"

text \<open>The program: its system, the array \<open>PS1\<close>, the addresses of its string literals, and what
  is in memory that has not been written.\<close>

record 'os program =
  procs :: "'os procs"
  PS1 :: ptr
  literal :: "string \<Rightarrow> ptr"
  junk :: "nat \<Rightarrow> nat \<Rightarrow> u8"

record 'os shell =
  memory :: mem
  vars :: environ_vars
  world :: 'os

datatype ('a, 's) outcome = Ended 's | Value 'a 's

text \<open>Sequencing: nothing runs after the end of the process.\<close>

definition andThen ::
  "('a, 's) outcome option \<Rightarrow> ('a \<Rightarrow> 's \<Rightarrow> ('b, 's) outcome option) \<Rightarrow> ('b, 's) outcome option" where
  "andThen r f = do { x \<leftarrow> r; case x of Ended s \<Rightarrow> Some (Ended s) | Value a s \<Rightarrow> f a s }"

lemma andThen_simps [simp]:
  "andThen None f = None" "andThen (Some (Ended s)) f = Some (Ended s)" "andThen (Some (Value a s)) f = f a s"
  by (simp_all add: andThen_def)

lemma andThen_None: "(\<And>a s. f a s = None) \<Longrightarrow> andThen r f = None \<or> (\<exists>s. r = Some (Ended s))"
  by (auto simp: andThen_def split: outcome.splits bind_splits)

section \<open>Files and output\<close>

text \<open>A \<open>FILE *\<close> is its descriptor. The mode's first character is passed on as the open flags.\<close>

definition fopen :: "'os program \<Rightarrow> ptr \<Rightarrow> ptr \<Rightarrow> 'os shell \<Rightarrow> (i32 \<times> 'os shell) option" where
  "fopen P path mode s = do {
     c \<leftarrow> load (memory s) mode;
     let (fd, os') = p_open (procs P) (memory s) path (scast c) (world s);
     Some (fd, s\<lparr>world := os'\<rparr>)
   }"

definition fclose :: "'os program \<Rightarrow> i32 \<Rightarrow> 'os shell \<Rightarrow> i32 \<times> 'os shell" where
  "fclose P f s = (let (r, os') = p_close (procs P) f (world s) in (r, s\<lparr>world := os'\<rparr>))"

definition put_string :: "'os program \<Rightarrow> ptr \<Rightarrow> i32 \<Rightarrow> 'os shell \<Rightarrow> 'os shell option" where
  "put_string P str stream s = do {
     (r, os') \<leftarrow> fputs (io (procs P)) (memory s) str stream (world s);
     Some (s\<lparr>world := os'\<rparr>)
   }"

definition execvpe ::
  "'os program \<Rightarrow> ptr \<Rightarrow> ptr option list \<Rightarrow> ptr option list \<Rightarrow> 'os shell \<Rightarrow> (i32, 'os shell) outcome option" where
  "execvpe P file_name argv envp s = do {
     e \<leftarrow> (case envp of [] \<Rightarrow> None | e # _ \<Rightarrow> e);
     s \<leftarrow> put_string P e 1 s;
     Some (case p_execve (procs P) (memory s) file_name argv envp (world s) of
         (None, os') \<Rightarrow> Ended (s\<lparr>world := os'\<rparr>)
       | (Some r, os') \<Rightarrow> Value r (s\<lparr>world := os'\<rparr>))
   }"

text \<open>\<open>custom_fputs\<close> prints nothing for a null pointer.\<close>

definition custom_fputs :: "'os program \<Rightarrow> ptr \<Rightarrow> i32 \<Rightarrow> 'os shell \<Rightarrow> 'os shell option" where
  "custom_fputs P chr out s = (if chr \<noteq> NULL then put_string P chr out s else Some s)"

definition say :: "'os program \<Rightarrow> string \<Rightarrow> 'os shell \<Rightarrow> 'os shell option" where
  "say P str s = custom_fputs P (literal P str) 1 s"

definition newline :: string where
  "newline = [CHR 0x0A]"

section \<open>Processes\<close>

definition gracefulExit :: "'os shell \<Rightarrow> ('a, 'os shell) outcome" where
  "gracefulExit s = Ended s"

definition WSTATUS :: "i32 \<Rightarrow> i32" where
  "WSTATUS x = x AND 0x7F"

definition WIFEXITED :: "i32 \<Rightarrow> bool" where
  "WIFEXITED x \<longleftrightarrow> WSTATUS x = 0"

definition WIFSIGNALED :: "i32 \<Rightarrow> bool" where
  "WIFSIGNALED x \<longleftrightarrow> WSTATUS x \<noteq> 0x7F \<and> WSTATUS x \<noteq> 0"

abbreviation (input) WUNTRACED :: i32 where "WUNTRACED \<equiv> 2"

text \<open>A call that stores no status leaves the old one.\<close>

partial_function (option) wait_loop :: "'os procs \<Rightarrow> i32 \<Rightarrow> i32 \<Rightarrow> 'os \<Rightarrow> 'os option" where
  "wait_loop sys pid waitStatus os =
     (case p_waitpid sys pid WUNTRACED os of (r, status, os) \<Rightarrow>
        let waitStatus = (case status of None \<Rightarrow> waitStatus | Some st \<Rightarrow> st)
        in if \<not> WIFEXITED waitStatus \<and> \<not> WIFSIGNALED waitStatus then wait_loop sys pid waitStatus os
           else Some os)"

definition waitForProcessExecution :: "'os program \<Rightarrow> i32 \<Rightarrow> 'os shell \<Rightarrow> 'os shell option" where
  "waitForProcessExecution P pid s = do {
     os' \<leftarrow> wait_loop (procs P) pid 0 (world s);
     Some (s\<lparr>world := os'\<rparr>)
   }"

definition duplicateFileDescriptorsFromInputToOutput ::
  "'os program \<Rightarrow> i32 \<Rightarrow> i32 \<Rightarrow> 'os shell \<Rightarrow> 'os shell option" where
  "duplicateFileDescriptorsFromInputToOutput P old_fd new_fd s =
     (if old_fd = new_fd then Some s
      else case p_dup2 (procs P) old_fd new_fd (world s) of (r, os') \<Rightarrow>
        if r \<noteq> -1 then Some (s\<lparr>world := snd (p_close (procs P) old_fd os')\<rparr>)
        else say P ''error while executing pipes'' (s\<lparr>world := os'\<rparr>))"

section \<open>Waiting\<close>

text \<open>The status says that the child is stopped.\<close>

definition stopped :: "i32 \<Rightarrow> bool" where
  "stopped x \<longleftrightarrow> WSTATUS x = 0x7F"

lemma stopped_iff: "stopped x \<longleftrightarrow> \<not> WIFEXITED x \<and> \<not> WIFSIGNALED x"
  by (auto simp: stopped_def WIFEXITED_def WIFSIGNALED_def)

text \<open>The answers of \<open>waitpid\<close>, one call after the other, from one state of the system to
  another.\<close>

fun reports :: "'os procs \<Rightarrow> i32 \<Rightarrow> i32 list \<Rightarrow> 'os \<Rightarrow> 'os \<Rightarrow> bool" where
  "reports sys pid [] a b = (a = b)"
| "reports sys pid (st # sts) a b =
     (case p_waitpid sys pid 2 a of (r, status, a') \<Rightarrow> status = Some st \<and> reports sys pid sts a' b)"

lemma wait_loop_reports:
  "reports sys pid (sts @ [st]) a b \<Longrightarrow> \<forall>x \<in> set sts. stopped x \<Longrightarrow> \<not> stopped st \<Longrightarrow> wait_loop sys pid w a = Some b"
proof (induction sts arbitrary: a w)
  case Nil
  then show ?case by (subst wait_loop.simps) (auto simp: stopped_iff split: prod.splits)
next
  case (Cons x sts)
  obtain r a' where a': "p_waitpid sys pid 2 a = (r, Some x, a')" "reports sys pid (sts @ [st]) a' b"
    using Cons.prems(1) by (auto split: prod.splits)
  then show ?case using Cons.IH [OF a'(2)] Cons.prems(2,3) by (subst wait_loop.simps) (simp add: stopped_iff)
qed

lemma wait_loop_ends:
  "wait_loop sys pid w a = Some b \<Longrightarrow> \<exists>a' r st w'. p_waitpid sys pid 2 a' = (r, st, b)
     \<and> \<not> stopped (case st of None \<Rightarrow> w' | Some x \<Rightarrow> x) \<and> (stopped w' \<or> w' = w)"
proof (induction sys pid w a b rule: wait_loop.raw_induct [rotated, consumes 1])
  case (1 loop sys pid w a b)
  obtain r st a' where p: "p_waitpid sys pid 2 a = (r, st, a')" by (metis prod_cases3)
  define w1 where "w1 = (case st of None \<Rightarrow> w | Some x \<Rightarrow> x)"
  show ?case
  proof (cases "stopped w1")
    case True
    then have "loop sys pid w1 a' = Some b" using 1(2) p by (simp add: Let_def w1_def stopped_iff)
    from 1(1) [OF this] show ?thesis using True by metis
  next
    case False
    then have "b = a'" using 1(2) p by (auto simp: Let_def w1_def stopped_iff split: if_splits)
    then show ?thesis using False p w1_def by blast
  qed
qed

text \<open>C35: Waiting for a child. If the system reports the child as stopped any number of times
  and then reports another status, the wait returns right after that report; and whenever it
  returns, the last call has left a status that is not that of a stopped child.\<close>

theorem wait_returns_when_child_ends:
  "(\<forall>sts st b. reports (procs P) pid (sts @ [st]) (world s) b \<and> (\<forall>x \<in> set sts. stopped x) \<and> \<not> stopped st \<longrightarrow>
      waitForProcessExecution P pid s = Some (s\<lparr>world := b\<rparr>))
    \<and> (\<forall>s'. waitForProcessExecution P pid s = Some s' \<longrightarrow>
      (\<exists>a r st w. p_waitpid (procs P) pid 2 a = (r, st, world s') \<and> \<not> stopped (case st of None \<Rightarrow> w | Some x \<Rightarrow> x)
         \<and> (stopped w \<or> w = 0)))"
proof (intro conjI allI impI)
  fix sts st b
  assume "reports (procs P) pid (sts @ [st]) (world s) b \<and> (\<forall>x \<in> set sts. stopped x) \<and> \<not> stopped st"
  then show "waitForProcessExecution P pid s = Some (s\<lparr>world := b\<rparr>)"
    using wait_loop_reports [of "procs P" pid sts st "world s" b 0] by (simp add: waitForProcessExecution_def)
next
  fix s' assume "waitForProcessExecution P pid s = Some s'"
  then have "wait_loop (procs P) pid 0 (world s) = Some (world s')"
    by (auto simp: waitForProcessExecution_def bind_eq_Some_conv)
  from wait_loop_ends [OF this]
  show "\<exists>a r st w. p_waitpid (procs P) pid 2 a = (r, st, world s') \<and> \<not> stopped (case st of None \<Rightarrow> w | Some x \<Rightarrow> x)
         \<and> (stopped w \<or> w = 0)" by blast
qed

text \<open>A system with one file for input and output and a list of statuses to report, for examples.\<close>

type_synonym demo_os = "open_file \<times> i32 list"

definition demo_io :: "demo_os sys" where
  "demo_io = \<lparr>sys_read = \<lambda>fd n (f, sts). apsnd (\<lambda>f. (f, sts)) (sys_read file_sys fd n f),
     sys_write = \<lambda>fd bs (f, sts). apsnd (\<lambda>f. (f, sts)) (sys_write file_sys fd bs f)\<rparr>"

definition demo_procs :: "demo_os procs" where
  "demo_procs = \<lparr>io = demo_io, p_open = \<lambda>m p flags a. (3, a), p_close = \<lambda>fd a. (0, a), p_fork = \<lambda>a. (7, a),
     p_execve = \<lambda>m p argv envp a. (None, a),
     p_waitpid = \<lambda>pid opt (f, sts). (pid, case sts of [] \<Rightarrow> None | st # _ \<Rightarrow> Some st, (f, tl sts)),
     p_chdir = \<lambda>m p a. (0, a), p_getcwd = \<lambda>n a. (bytes ''/'', a), p_setpgid = \<lambda>p g a. (0, a),
     p_pipe = \<lambda>a. (0, Some (4, 5), a), p_dup2 = \<lambda>old new a. (new, a)\<rparr>"

definition demo :: "(string \<Rightarrow> ptr) \<Rightarrow> ptr \<Rightarrow> demo_os program" where
  "demo lit prompt = \<lparr>procs = demo_procs, PS1 = prompt, literal = lit, junk = \<lambda>_ _. 7\<rparr>"

lemma demo_io: "byte_stream demo_io fd (fst \<circ> fst)" "write_log demo_io (snd \<circ> fst)"
  by (auto simp: byte_stream_def write_log_def file_sys_def demo_io_def drop_Suc)

theorem wait_returns_when_child_ends_witness:
  "waitForProcessExecution (demo (\<lambda>_. NULL) NULL) 7 \<lparr>memory = [], vars = [], world = (([], []), [0x137F, 0x100])\<rparr>
     = Some \<lparr>memory = [], vars = [], world = (([], []), [])\<rparr>"
proof -
  let ?s = "\<lparr>memory = [], vars = [], world = (([], []), [0x137F, 0x100])\<rparr> :: demo_os shell"
  have "reports (procs (demo (\<lambda>_. NULL) NULL)) 7 ([0x137F] @ [0x100]) (world ?s) (([], []), [])"
    by (simp add: demo_def demo_procs_def)
  moreover have "\<forall>x \<in> set [0x137F :: i32]. stopped x" "\<not> stopped 0x100" by (simp_all add: stopped_def WSTATUS_def)
  ultimately have "waitForProcessExecution (demo (\<lambda>_. NULL) NULL) 7 ?s = Some (?s\<lparr>world := (([], []), [])\<rparr>)"
    using wait_returns_when_child_ends [of "demo (\<lambda>_. NULL) NULL" 7 ?s] by blast
  then show ?thesis by simp
qed

end
