(* ===== verification/Parser.thy ===== *)
theory Parser
  imports Stdio Environ
begin

text \<open>
  The command-line parser of bin/sbush/parser.c: trimming the line and cutting it into a
  command and its arguments, and freeing the result. A \<open>commandArgument\<close> is a record; an
  entry of \<open>arguments\<close> that has not been set is \<open>None\<close>, and using it is undefined behaviour,
  as is an entry beyond the twentieth.
\<close>

section \<open>Data\<close>

record commandArgument =
  trimmedInput :: ptr
  command :: ptr
  arguments :: "ptr option list"
  isBackground :: i32
  argumentCount :: nat

abbreviation (input) MAX_ARGUMENTS :: nat where "MAX_ARGUMENTS \<equiv> 20"
abbreviation (input) ARGUMENT_LENGTH :: nat where "ARGUMENT_LENGTH \<equiv> 20"
abbreviation (input) COMMAND_LENGTH :: nat where "COMMAND_LENGTH \<equiv> 20"
abbreviation (input) INPUT_LENGTH :: nat where "INPUT_LENGTH \<equiv> 500"

definition argument_at :: "commandArgument \<Rightarrow> nat \<Rightarrow> ptr option" where
  "argument_at c i = (if i < length (arguments c) then arguments c ! i else None)"

section \<open>trim\<close>

text \<open>\<open>while (input[left_index] == ' ' && left_index <= right_index) left_index++\<close>\<close>

partial_function (option) trim_left :: "mem \<Rightarrow> ptr \<Rightarrow> int \<Rightarrow> int \<Rightarrow> int option" where
  "trim_left m input left_index right_index = do {
     x \<leftarrow> load m (padd input left_index);
     if x = 0x20 \<and> left_index \<le> right_index then trim_left m input (left_index + 1) right_index
     else Some left_index
   }"

partial_function (option) trim_right :: "mem \<Rightarrow> ptr \<Rightarrow> int \<Rightarrow> int \<Rightarrow> i32 \<Rightarrow> (int \<times> i32) option" where
  "trim_right m input left_index right_index bg = do {
     x \<leftarrow> load m (padd input right_index);
     if (x = 0x20 \<or> x = 0x0A \<or> x = 0x26) \<and> left_index \<le> right_index
     then trim_right m input left_index (right_index - 1) (if x = 0x26 then 1 else bg)
     else Some (right_index, bg)
   }"

definition trim :: "(nat \<Rightarrow> nat \<Rightarrow> u8) \<Rightarrow> ptr \<Rightarrow> mem \<Rightarrow> (commandArgument \<times> mem) option" where
  "trim junk input m = do {
     let (cmd, m) = new_block junk COMMAND_LENGTH m;
     (s, m) \<leftarrow> memset cmd 0 (of_nat COMMAND_LENGTH) m;
     let (trimmed, m) = new_block junk INPUT_LENGTH m;
     len \<leftarrow> strlen m input;
     (s, m) \<leftarrow> memset trimmed 0 (of_nat INPUT_LENGTH) m;
     left_index \<leftarrow> trim_left m input 0 (int len - 1);
     (right_index, bg) \<leftarrow> trim_right m input left_index (int len - 1) 0;
     m \<leftarrow> for_list (\<lambda>count m. do {
         ch \<leftarrow> load m (padd input (left_index + int count));
         store (padd trimmed (int count)) ch m
       }) [0..<nat (right_index + 1 - left_index)] m;
     m \<leftarrow> store (padd trimmed (right_index + 2)) 0 m;
     Some (\<lparr>trimmedInput = trimmed, command = cmd, arguments = replicate MAX_ARGUMENTS None,
            isBackground = bg, argumentCount = 0\<rparr>, m)
   }"

section \<open>parseInput\<close>

text \<open>The loop's state: \<open>command\<close> and \<open>argument\<close> are its write pointers, \<open>args\<close> the array.\<close>

record parse_state =
  p_input :: ptr
  p_command :: ptr
  p_argument :: ptr
  p_count :: nat
  p_flag :: bool
  p_args :: "ptr option list"

definition put_char :: "ptr \<Rightarrow> u8 \<Rightarrow> mem \<Rightarrow> mem option" where
  "put_char p ch m = do { m \<leftarrow> store p ch m; store (padd p 1) 0 m }"

text \<open>The body for one character \<open>ch\<close>; the result without a state is the return of the null
  pointer after too many arguments, which prints a message.\<close>

definition parse_char :: "(nat \<Rightarrow> nat \<Rightarrow> u8) \<Rightarrow> u8 \<Rightarrow> u8 \<Rightarrow> parse_state \<Rightarrow> mem \<Rightarrow> (parse_state option \<times> mem) option" where
  "parse_char junk separator ch s m = do {
     (s, m) \<leftarrow> (if p_flag s \<and> ch \<noteq> separator
        then do { m \<leftarrow> put_char (p_command s) ch m; Some (s\<lparr>p_command := padd (p_command s) 1\<rparr>, m) }
        else Some (s, m));
     let s = (if p_flag s \<and> ch = separator then s\<lparr>p_flag := False\<rparr> else s);
     if ch = separator \<and> \<not> p_flag s \<and> MAX_ARGUMENTS < p_count s then Some (None, m)
     else do {
       (s, m) \<leftarrow> (if ch = separator \<and> \<not> p_flag s
          then do {
            more \<leftarrow> (if p_argument s = NULL then Some True
              else do {
                a \<leftarrow> (if p_count s - 1 < length (p_args s) then p_args s ! (p_count s - 1) else None);
                n \<leftarrow> strlen m a;
                Some (n \<noteq> 0)
              });
            if more
            then if p_count s < length (p_args s)
              then let (k, m) = new_block junk ARGUMENT_LENGTH m
                in Some (s\<lparr>p_args := (p_args s)[p_count s := Some k], p_argument := k, p_count := p_count s + 1\<rparr>, m)
              else None
            else Some (s, m)
          }
          else Some (s, m));
       (s, m) \<leftarrow> (if ch \<noteq> separator \<and> \<not> p_flag s
          then do { m \<leftarrow> put_char (p_argument s) ch m; Some (s\<lparr>p_argument := padd (p_argument s) 1\<rparr>, m) }
          else Some (s, m));
       Some (Some (s\<lparr>p_input := padd (p_input s) 1\<rparr>), m)
     }
   }"

partial_function (option) parse_loop ::
  "(nat \<Rightarrow> nat \<Rightarrow> u8) \<Rightarrow> u8 \<Rightarrow> parse_state \<Rightarrow> mem \<Rightarrow> (parse_state option \<times> mem) option" where
  "parse_loop junk separator s m = do {
     ch \<leftarrow> load m (p_input s);
     if ch = 0 then Some (Some s, m)
     else do {
       (r, m) \<leftarrow> parse_char junk separator ch s m;
       case r of None \<Rightarrow> Some (None, m) | Some s \<Rightarrow> parse_loop junk separator s m
     }
   }"

definition parseInput ::
  "(nat \<Rightarrow> nat \<Rightarrow> u8) \<Rightarrow> ptr \<Rightarrow> u8 \<Rightarrow> mem \<Rightarrow> (commandArgument option \<times> mem) option" where
  "parseInput junk inputLine separator m = do {
     (c_arg, m) \<leftarrow> trim junk inputLine m;
     (r, m) \<leftarrow> parse_loop junk separator
        \<lparr>p_input = trimmedInput c_arg, p_command = command c_arg, p_argument = NULL, p_count = 0,
         p_flag = True, p_args = arguments c_arg\<rparr> m;
     case r of None \<Rightarrow> Some (None, m)
     | Some s \<Rightarrow> Some (Some (c_arg\<lparr>arguments := p_args s, argumentCount := p_count s\<rparr>), m)
   }"

section \<open>freeCommandArgument\<close>

definition freeCommandArgument :: "commandArgument \<Rightarrow> mem \<Rightarrow> mem option" where
  "freeCommandArgument c m = do {
     m \<leftarrow> free_block (trimmedInput c) m;
     m \<leftarrow> (if command c \<noteq> NULL
        then do {
          n \<leftarrow> strlen m (command c);
          (s, m) \<leftarrow> memset (command c) 0 (of_nat n) m;
          free_block (command c) m
        }
        else Some m);
     for_list (\<lambda>i m. do {
         a \<leftarrow> argument_at c i;
         n \<leftarrow> strlen m a;
         (s, m) \<leftarrow> memset (command c) 0 (of_nat n) m;
         if a \<noteq> NULL then free_block a m else Some m
       }) [0..<argumentCount c] m
   }"

section \<open>Trimming\<close>

definition blank :: "u8 \<Rightarrow> bool" where
  "blank x \<longleftrightarrow> x = 0x20"

definition trailing :: "u8 \<Rightarrow> bool" where
  "trailing x \<longleftrightarrow> x = 0x20 \<or> x = 0x0A \<or> x = 0x26"

text \<open>The line without leading blanks, and what is left of it without the trailing blanks,
  newlines and ampersands.\<close>

definition unindented :: "u8 list \<Rightarrow> u8 list" where
  "unindented s = dropWhile blank s"

definition stripped :: "u8 list \<Rightarrow> u8 list" where
  "stripped s = rev (dropWhile trailing (rev (unindented s)))"

definition indentation :: "u8 list \<Rightarrow> nat" where
  "indentation s = length (takeWhile blank s)"

lemma trim_left_cstring:
  "cstring m (padd p (int i)) s \<Longrightarrow> i + length s = n \<Longrightarrow>
     trim_left m p (int i) (int n - 1) = Some (int (i + length (takeWhile blank s)))"
proof (induction s arbitrary: i)
  case Nil
  then show ?case by (subst trim_left.simps) (simp add: cstring_Nil)
next
  case (Cons x s)
  have "cstring m (padd p (int (Suc i))) s" using Cons.prems(1) by (simp add: cstring_Cons add.commute)
  then have "trim_left m p (int (Suc i)) (int n - 1) = Some (int (Suc i + length (takeWhile blank s)))"
    using Cons.IH [of "Suc i"] Cons.prems(2) by simp
  then show ?case using Cons.prems
    by (subst trim_left.simps) (auto simp: cstring_Cons blank_def add.commute)
qed

lemma bytes_at_nth: "bytes_at m p xs \<Longrightarrow> i < length xs \<Longrightarrow> load m (padd p (int i)) = Some (xs ! i)"
  by (simp add: bytes_at_def)

lemma trim_right_bytes:
  "bytes_at m (padd p (int i)) l \<Longrightarrow> \<not> (\<forall>x \<in> set l. trailing x) \<Longrightarrow>
     trim_right m p (int i) (int (i + length l) - 1) bg =
       Some (int (i + length (dropWhile trailing (rev l))) - 1,
             if 0x26 \<in> set (takeWhile trailing (rev l)) then 1 else bg)"
proof (induction l arbitrary: bg rule: rev_induct)
  case Nil
  then show ?case by simp
next
  case (snoc y l)
  have "load m (padd (padd p (int i)) (int (length l))) = Some y"
    using bytes_at_nth [OF snoc.prems(1), of "length l"] by simp
  then have ld: "load m (padd p (int i + int (length l))) = Some y" by simp
  show ?case
  proof (cases "trailing y")
    case True
    then have "trim_right m p (int i) (int (i + length l) - 1) (if y = 0x26 then 1 else bg) =
       Some (int (i + length (dropWhile trailing (rev l))) - 1,
             if 0x26 \<in> set (takeWhile trailing (rev l)) then 1 else if y = 0x26 then 1 else bg)"
      using snoc.IH snoc.prems by (simp add: bytes_at_append)
    then show ?thesis using ld True
      by (subst trim_right.simps) (auto simp: trailing_def)
  next
    case False
    then show ?thesis using ld by (subst trim_right.simps) (auto simp: trailing_def)
  qed
qed

text \<open>A line without any other character, right at the start of its array: the index runs to
  \<open>-1\<close> and is used.\<close>

lemma trim_right_runs_out:
  "bytes_at m (Ptr b 0) l \<Longrightarrow> \<forall>x \<in> set l. trailing x \<Longrightarrow>
     trim_right m (Ptr b 0) 0 (int (length l) - 1) bg = None"
proof (induction l arbitrary: bg rule: rev_induct)
  case Nil
  show ?case by (subst trim_right.simps) (simp split: option.splits)
next
  case (snoc y l)
  have "load m (padd (Ptr b 0) (int (length l))) = Some y"
    using bytes_at_nth [OF snoc.prems(1), of "length l"] by simp
  moreover have "trim_right m (Ptr b 0) 0 (int (length l) - 1) bg' = None" for bg'
    using snoc.IH snoc.prems by (simp add: bytes_at_append)
  ultimately show ?case using snoc.prems(2)
    by (subst trim_right.simps) (auto simp: trailing_def)
qed

lemma copy_loop:
  assumes "bytes_at m (padd p j) xs" and "room m q (length xs)"
    and "\<And>i. i < length xs \<Longrightarrow> outside (padd p (j + int i)) q (length xs)" and "n \<le> length xs"
  shows "\<exists>m'. for_list (\<lambda>count m. do {
         ch \<leftarrow> load m (padd p (j + int count));
         store (padd q (int count)) ch m
       }) [0..<n] m = Some m' \<and> written_at m q (take n xs) m'"
  using assms(4)
proof (induction n)
  case 0
  then show ?case by (simp add: written_at_Nil)
next
  case (Suc n)
  then obtain m1 where l: "for_list (\<lambda>count m. do {
         ch \<leftarrow> load m (padd p (j + int count));
         store (padd q (int count)) ch m
       }) [0..<n] m = Some m1" and w: "written_at m q (take n xs) m1" by auto
  have n: "n < length xs" using Suc.prems by simp
  have "outside (padd p (j + int n)) q n" using assms(3) [OF n] n by (simp add: outside_def)
  then have ld: "load m1 (padd p (j + int n)) = Some (xs ! n)"
    using w bytes_at_nth [OF assms(1) n] n by (simp add: written_at_def min_absorb2)
  have "valid m1 (padd q (int n))" using assms(2) n w by (simp add: room_def written_at_def)
  then obtain m2 where st: "store (padd q (int n)) (xs ! n) m1 = Some m2" using valid_store by blast
  have "q \<noteq> NULL" using assms(2) n by (cases q) (auto simp: room_def valid_def)
  then have "written_at m q (take (Suc n) xs) m2"
    using written_at_snoc [OF w] st n by (simp add: take_Suc_conv_app_nth)
  then show ?case using l ld st by (simp add: for_list_append)
qed

text \<open>Writing to a place that old memory does not have keeps old memory.\<close>

definition new_to :: "mem \<Rightarrow> ptr \<Rightarrow> bool" where
  "new_to m p \<longleftrightarrow> (\<forall>q x i. load m q = Some x \<longrightarrow> q \<noteq> padd p i)"

lemma extends_trans: "extends m m1 \<Longrightarrow> extends m1 m2 \<Longrightarrow> extends m m2"
  by (simp add: extends_def)

lemma new_to_outside: "new_to m p \<Longrightarrow> load m q = Some x \<Longrightarrow> outside q (padd p j) n"
  by (simp add: new_to_def outside_def)

lemma extends_written:
  "extends m m1 \<Longrightarrow> new_to m p \<Longrightarrow> written_at m1 p xs m2 \<Longrightarrow> extends m m2"
  using new_to_outside [of m p _ _ 0] by (simp add: extends_def written_at_def)

lemma extends_store: "extends m m1 \<Longrightarrow> new_to m p \<Longrightarrow> store (padd p i) v m1 = Some m2 \<Longrightarrow> extends m m2"
  by (auto simp: extends_def new_to_def load_store)

lemma new_to_extends: "new_to m' p \<Longrightarrow> extends m m' \<Longrightarrow> new_to m p"
  unfolding new_to_def extends_def by blast

lemma new_to_block: "new_block junk n m = (p, m') \<Longrightarrow> new_to m p"
  using new_block_facts(4) by (auto simp: new_to_def)

lemma cstring_split:
  "cstring m p (xs @ ys) \<longleftrightarrow> 0 \<notin> set xs \<and> bytes_at m p xs \<and> cstring m (padd p (int (length xs))) ys"
  by (auto simp: cstring_def bytes_at_append)

lemma unindented_split: "s = takeWhile blank s @ unindented s"
  by (simp add: unindented_def)

lemma stripped_split: "unindented s = stripped s @ rev (takeWhile trailing (rev (unindented s)))"
proof -
  have "rev (unindented s) = takeWhile trailing (rev (unindented s)) @ dropWhile trailing (rev (unindented s))"
    by simp
  from arg_cong [OF this, of rev] show ?thesis by (simp add: stripped_def del: takeWhile_dropWhile_id)
qed

lemma stripped_not_all: "stripped s \<noteq> [] \<Longrightarrow> \<not> (\<forall>x \<in> set (unindented s). trailing x)"
  by (auto simp: stripped_def)

text \<open>The pointers that \<open>free\<close> gets are those of whole blocks.\<close>

definition whole_blocks :: "commandArgument \<Rightarrow> bool" where
  "whole_blocks c \<longleftrightarrow> (\<exists>b1 b2. trimmedInput c = Ptr b1 0 \<and> command c = Ptr b2 0)"

lemma trim_cstring:
  assumes s: "cstring m p s" and len: "length s < 2 ^ 31" and ne: "stripped s \<noteq> []"
    and fits: "indentation s + length (stripped s) + 1 < 500"
  obtains c m' where "trim junk p m = Some (c, m')"
    "isBackground c = (if 0x26 \<in> set (takeWhile trailing (rev (unindented s))) then 1 else 0)"
    "arguments c = replicate 20 None" "cstring m' (trimmedInput c) (stripped s)"
    "room m' (command c) 20" "load m' (command c) = Some 0" "new_to m (command c)"
    "\<forall>i j. i < 20 \<longrightarrow> padd (command c) (int i) \<noteq> padd (trimmedInput c) j" "extends m m'"
    "whole_blocks c" "new_to m (trimmedInput c)"
proof -
  let ?L = "indentation s" and ?t = "stripped s"
  obtain cmd m1 where nb1: "new_block junk 20 m = (cmd, m1)" by (cases "new_block junk 20 m") auto
  note b1 = new_block_facts [OF nb1] and n1 = new_to_block [OF nb1]
  obtain m2 where ms1: "memset cmd 0 (of_nat 20) m1 = Some (cmd, m2)" and w2: "written_at m1 cmd (replicate 20 0) m2"
    using memset_room [OF b1(2), of 0] by auto
  have e2: "extends m m2" using extends_written [OF b1(1) n1 w2] .
  obtain tr m3 where nb2: "new_block junk 500 m2 = (tr, m3)" by (cases "new_block junk 500 m2") auto
  note b2 = new_block_facts [OF nb2] and n2 = new_to_block [OF nb2]
  obtain m4 where ms2: "memset tr 0 (of_nat 500) m3 = Some (tr, m4)" and w4: "written_at m3 tr (replicate 500 0) m4"
    using memset_room [OF b2(2), of 0] by auto
  have e4: "extends m2 m4" using extends_written [OF b2(1) n2 w4] .
  have e: "extends m m4" and e3: "extends m m3" using extends_trans [OF e2] e4 b2(1) by auto
  have sl: "strlen m3 p = Some (length s)" using strlen_cstring [OF cstring_extends [OF e3 s] len] .
  have s4: "cstring m4 p s" using cstring_extends [OF e s] .
  have tl: "trim_left m4 p 0 (int (length s) - 1) = Some (int ?L)"
    using trim_left_cstring [of m4 p 0 s "length s"] s4 by (simp add: indentation_def)
  have cu: "cstring m4 (padd p (int ?L)) (unindented s)"
    using s4 unindented_split [of s] cstring_split [of m4 p "takeWhile blank s" "unindented s"]
    by (simp add: indentation_def)
  have ls: "length s = ?L + length (unindented s)"
    using arg_cong [OF unindented_split [of s], of length] by (simp only: length_append indentation_def)
  define bg :: i32 where "bg = (if 0x26 \<in> set (takeWhile trailing (rev (unindented s))) then 1 else 0)"
  have tr: "trim_right m4 p (int ?L) (int (length s) - 1) 0 = Some (int (?L + length ?t) - 1, bg)"
    using trim_right_bytes [OF cstring_bytes [OF cu] stripped_not_all [OF ne], of 0]
    unfolding ls by (simp add: bg_def stripped_def)
  have bt: "bytes_at m4 (padd p (int ?L)) ?t"
    using cstring_bytes [OF cu] stripped_split [of s] by (metis bytes_at_append)
  have room4: "room m4 tr 500" using b2(2) w4 by (simp add: room_def written_at_def)
  have "outside (padd p (int ?L + int i)) tr (length ?t)" if "i < length ?t" for i
  proof -
    have "cstring m2 (padd p (int ?L)) (unindented s)"
      using cstring_extends [OF e2 s] unindented_split [of s] cstring_split [of m2 p "takeWhile blank s" "unindented s"]
      by (simp add: indentation_def)
    then have "bytes_at m2 (padd p (int ?L)) ?t"
      using cstring_bytes stripped_split [of s] by (metis bytes_at_append)
    then have "load m2 (padd p (int ?L + int i)) = Some (?t ! i)" using bytes_at_nth that by fastforce
    then show ?thesis using new_to_outside [OF n2, of _ _ 0] by simp
  qed
  then obtain m5 where cp: "for_list (\<lambda>count m. do {
         ch \<leftarrow> load m (padd p (int ?L + int count));
         store (padd tr (int count)) ch m
       }) [0..<length ?t] m4 = Some m5" and w5: "written_at m4 tr ?t m5"
    using copy_loop [OF bt room_mono [OF room4, of "length ?t"], of "length ?t"] fits by auto
  have "valid m5 (padd tr (int (?L + length ?t + 1)))"
    using room4 w5 fits unfolding room_def written_at_def by blast
  then obtain m6 where st: "store (padd tr (int (?L + length ?t + 1))) 0 m5 = Some m6" using valid_store by blast
  have trn: "tr \<noteq> NULL" by (rule b2(3))
  note ld6 = load_store [OF st]
  have e6: "extends m2 m6"
    using extends_store [OF extends_written [OF e4 n2 w5] n2 st] .
  have "load m4 (padd tr (int (length ?t))) = Some 0"
    using bytes_at_nth [of m4 tr "replicate 500 0" "length ?t"] w4 fits by (simp add: written_at_def)
  moreover have "outside (padd tr (int (length ?t))) tr (length ?t)"
    using trn by (simp add: outside_def padd_inject)
  ultimately have "load m5 (padd tr (int (length ?t))) = Some 0" using w5 by (simp add: written_at_def)
  then have t6: "cstring m6 tr ?t"
    using w5 trn cu stripped_split [of s]
    by (auto simp: cstring_def written_at_def bytes_at_def ld6 nth_append padd_inject less_Suc_eq)
      (metis Un_iff set_append)
  have cmd2: "load m2 cmd = Some 0" "room m2 cmd 20"
    using bytes_at_nth [of m2 cmd "replicate 20 0" 0] w2 b1(2) by (simp_all add: written_at_def room_def)
  have r6: "room m6 cmd 20"
    using cmd2(2) e6 unfolding room_def valid_def extends_def by (metis not_None_eq)
  have ap: "padd cmd (int i) \<noteq> padd tr j" if "i < 20" for i j
    using cmd2(2) n2 that unfolding room_def valid_def new_to_def by (metis not_None_eq)
  define c where "c = \<lparr>trimmedInput = tr, command = cmd, arguments = replicate 20 None,
      isBackground = bg, argumentCount = 0\<rparr>"
  have ri: "nat (int (?L + length ?t) - 1 + 1 - int ?L) = length ?t"
    "int (?L + length ?t) - 1 + 2 = int (?L + length ?t + 1)" by simp_all
  have wb: "whole_blocks c" using nb1 nb2 by (auto simp: c_def whole_blocks_def new_block_def)
  have "trim junk p m = Some (c, m6)"
    using ms1 ms2 sl tl tr cp st by (simp add: trim_def nb1 nb2 c_def)
  then show ?thesis
    using that [of c m6] t6 r6 ap n1 extends_trans [OF e2 e6] cmd2(1) e6 wb new_to_extends [OF n2 e2]
    by (simp add: c_def bg_def extends_def)
qed

section \<open>Words\<close>

lemma written_at_overlap:
  assumes "written_at m p (x # ys) m1" and "written_at m1 (padd p 1) zs m2" and "length ys \<le> length zs"
    and "p \<noteq> NULL"
  shows "written_at m p (x # zs) m2"
proof -
  have out: "outside q p (Suc (length ys))" "outside q (padd p 1) (length zs)"
    if o: "outside q p (Suc (length zs))" for q
  proof -
    show "outside q p (Suc (length ys))" using o assms(3) by (simp add: outside_def)
    show "outside q (padd p 1) (length zs)"
      unfolding outside_def
    proof (intro allI impI)
      fix i assume "i < length zs"
      then show "q \<noteq> padd (padd p 1) (int i)"
        using o [unfolded outside_def, rule_format, of "Suc i"] by (simp add: add.commute)
    qed
  qed
  have "outside p (padd p 1) (length zs)"
    using assms(4) padd_inject [OF assms(4), of 0] by (simp add: outside_def)
  then have "load m2 p = Some x" using assms(1,2) by (simp add: written_at_def bytes_at_Cons)
  then have "bytes_at m2 p (x # zs)" using assms(2) by (simp add: written_at_def bytes_at_Cons)
  then show ?thesis using assms(1,2) out by (simp add: written_at_def)
qed

lemma put_char_written:
  assumes "room m p (Suc (Suc n))"
  obtains m' where "put_char p ch m = Some m'" "written_at m p [ch, 0] m'"
proof -
  have pn: "p \<noteq> NULL" using assms by (rule room_not_null)
  obtain m1 where m1: "store p ch m = Some m1" using assms valid_store [of m p ch] by (auto simp: room_Suc)
  have w1: "written_at m p [ch] m1" using written_at_store [OF m1 pn] .
  have "valid m1 (padd p 1)" using assms valid_after_store [OF m1] by (simp add: room_Suc)
  then obtain m2 where m2: "store (padd p 1) 0 m1 = Some m2" using valid_store by blast
  show ?thesis
    using that [of m2] m1 m2 written_at_snoc [OF w1 pn, of 0 m2] by (simp add: put_char_def)
qed

text \<open>The string at \<open>p\<close> (with its terminator) has no place in the \<open>k\<close> places from \<open>q\<close> on.\<close>

definition apart :: "ptr \<Rightarrow> u8 list \<Rightarrow> ptr \<Rightarrow> nat \<Rightarrow> bool" where
  "apart p s q k \<longleftrightarrow> (\<forall>i \<le> length s. outside (padd p (int i)) q k)"

lemma apart_written:
  assumes "apart p s q k" and "written_at m q xs m'" and "length xs \<le> k" and "cstring m p s"
  shows "cstring m' p s"
proof -
  have "outside (padd p (int i)) q (length xs)" if "i \<le> length s" for i
    using assms(1,3) that by (auto simp: apart_def outside_def)
  then have "load m' (padd p (int i)) = load m (padd p (int i))" if "i < length (s @ [0])" for i
    using assms(2) that by (simp add: written_at_def)
  then show ?thesis using assms(4) by (simp add: cstring_def bytes_at_def)
qed

lemma apart_next: "apart p (x # s) q (Suc k) \<Longrightarrow> apart (padd p 1) s (padd q 1) k"
  unfolding apart_def outside_def
proof (intro allI impI)
  fix i j assume a: "\<forall>i \<le> length (x # s). \<forall>j < Suc k. padd p (int i) \<noteq> padd q (int j)"
    and "i \<le> length s" "j < k"
  then have "padd p (int (Suc i)) \<noteq> padd q (int (Suc j))"
    using a [rule_format, of "Suc i" "Suc j"] by simp
  then show "padd (padd p 1) (int i) \<noteq> padd (padd q 1) (int j)" by (simp add: add.commute)
qed

lemma parse_command:
  assumes "p_flag s" and "sep \<notin> set w" and "cstring m (p_input s) (w @ rest)"
    and "room m (p_command s) (Suc (length w))" and "load m (p_command s) = Some 0"
    and "apart (p_input s) (w @ rest) (p_command s) (Suc (length w))"
  shows "\<exists>m'. parse_loop junk sep s m =
      parse_loop junk sep (s\<lparr>p_input := padd (p_input s) (int (length w)),
        p_command := padd (p_command s) (int (length w))\<rparr>) m'
    \<and> written_at m (p_command s) (w @ [0]) m'"
  using assms
proof (induction w arbitrary: s m)
  case Nil
  then show ?case by (intro exI [of _ m]) (simp add: written_at_def bytes_at_Cons)
next
  case (Cons x w)
  have pn: "p_command s \<noteq> NULL" using Cons.prems(4) by (rule room_not_null)
  obtain m1 where pc: "put_char (p_command s) x m = Some m1" and w1: "written_at m (p_command s) [x, 0] m1"
    using put_char_written Cons.prems(4) by (metis length_Cons)
  let ?s = "s\<lparr>p_command := padd (p_command s) 1, p_input := padd (p_input s) 1\<rparr>"
  have x: "x \<noteq> 0" "load m (p_input s) = Some x" using Cons.prems(3) by (simp_all add: cstring_Cons)
  have "x \<noteq> sep" using Cons.prems(2) by auto
  then have step: "parse_char junk sep x s m = Some (Some ?s, m1)"
    using Cons.prems(1) pc by (simp add: parse_char_def)
  have c1: "cstring m1 (padd (p_input s) 1) (w @ rest)"
    using apart_written [OF Cons.prems(6) w1 _ Cons.prems(3)] by (simp add: cstring_Cons)
  have "load m1 (padd (p_command s) 1) = Some 0" using w1 by (simp add: written_at_def bytes_at_Cons)
  moreover have "room m1 (padd (p_command s) 1) (Suc (length w))"
    using Cons.prems(4) w1 by (simp add: room_def written_at_def room_Suc [symmetric]) 
      (metis (no_types, lifting) add.commute of_nat_Suc padd_padd Suc_less_eq)
  moreover have "apart (padd (p_input s) 1) (w @ rest) (padd (p_command s) 1) (Suc (length w))"
    using apart_next Cons.prems(6) by simp
  ultimately obtain m' where rec: "parse_loop junk sep ?s m1 =
      parse_loop junk sep (?s\<lparr>p_input := padd (p_input ?s) (int (length w)),
        p_command := padd (p_command ?s) (int (length w))\<rparr>) m'"
    and w2: "written_at m1 (padd (p_command s) 1) (w @ [0]) m'"
    using Cons.IH [of ?s m1] Cons.prems(1,2) c1 by auto
  have "written_at m (p_command s) (x # w @ [0]) m'"
    using written_at_overlap [OF w1 w2 _ pn] by simp
  then show ?case
    using rec step x by (subst parse_loop.simps) (auto simp: add.commute)
qed

lemma room_next: "room m p (Suc (Suc n)) \<Longrightarrow> written_at m p xs m' \<Longrightarrow> room m' (padd p 1) (Suc n)"
proof -
  assume "room m p (Suc (Suc n))" and "written_at m p xs m'"
  then have "room m' p (Suc (Suc n))" by (simp add: room_def written_at_def)
  then show ?thesis by (subst (asm) room_Suc) simp
qed

lemma parse_argument:
  assumes "\<not> p_flag s" and "sep \<notin> set w" and "w \<noteq> []" and "cstring m (p_input s) (w @ rest)"
    and "room m (p_argument s) (Suc (length w))"
    and "apart (p_input s) (w @ rest) (p_argument s) (Suc (length w))"
  shows "\<exists>m'. parse_loop junk sep s m =
      parse_loop junk sep (s\<lparr>p_input := padd (p_input s) (int (length w)),
        p_argument := padd (p_argument s) (int (length w))\<rparr>) m'
    \<and> written_at m (p_argument s) (w @ [0]) m'"
  using assms
proof (induction w arbitrary: s m)
  case Nil
  then show ?case by simp
next
  case (Cons x w)
  have pn: "p_argument s \<noteq> NULL" using Cons.prems(5) by (rule room_not_null)
  obtain m1 where pc: "put_char (p_argument s) x m = Some m1" and w1: "written_at m (p_argument s) [x, 0] m1"
    using put_char_written Cons.prems(5) by (metis length_Cons)
  let ?s = "s\<lparr>p_argument := padd (p_argument s) 1, p_input := padd (p_input s) 1\<rparr>"
  have x: "x \<noteq> 0" "load m (p_input s) = Some x" using Cons.prems(4) by (simp_all add: cstring_Cons)
  have "x \<noteq> sep" using Cons.prems(2) by auto
  then have step: "parse_char junk sep x s m = Some (Some ?s, m1)"
    using Cons.prems(1) pc by (simp add: parse_char_def)
  have loop: "parse_loop junk sep s m = parse_loop junk sep ?s m1"
    using step x by (subst parse_loop.simps) simp
  show ?case
  proof (cases "w = []")
    case True
    have swap: "?s = s\<lparr>p_input := padd (p_input s) 1, p_argument := padd (p_argument s) 1\<rparr>" by (cases s) simp
    show ?thesis using loop [unfolded swap] w1 True by (intro exI [of _ m1]) simp
  next
    case False
    have c1: "cstring m1 (padd (p_input s) 1) (w @ rest)"
      using apart_written [OF Cons.prems(6) w1 _ Cons.prems(4)] by (simp add: cstring_Cons)
    have "room m1 (padd (p_argument s) 1) (Suc (length w))"
      using room_next [OF _ w1] Cons.prems(5) by simp
    moreover have "apart (padd (p_input s) 1) (w @ rest) (padd (p_argument s) 1) (Suc (length w))"
      using apart_next Cons.prems(6) by simp
    ultimately obtain m' where rec: "parse_loop junk sep ?s m1 =
        parse_loop junk sep (?s\<lparr>p_input := padd (p_input ?s) (int (length w)),
          p_argument := padd (p_argument ?s) (int (length w))\<rparr>) m'"
      and w2: "written_at m1 (padd (p_argument s) 1) (w @ [0]) m'"
      using Cons.IH [of ?s m1] Cons.prems(1,2) False c1 by auto
    have "written_at m (p_argument s) (x # w @ [0]) m'"
      using written_at_overlap [OF w1 w2 _ pn] by simp
    then show ?thesis using rec loop by (auto simp: add.commute)
  qed
qed

text \<open>The last argument is not empty (or there is none yet): the next separator starts a new one.\<close>

definition argument_done :: "parse_state \<Rightarrow> mem \<Rightarrow> bool" where
  "argument_done s m \<longleftrightarrow> p_argument s = NULL \<or>
     (\<exists>a v. 0 < p_count s \<and> p_count s \<le> length (p_args s) \<and> p_args s ! (p_count s - 1) = Some a
        \<and> cstring m a v \<and> v \<noteq> [] \<and> length v < 20)"

lemma argument_done_more:
  assumes "argument_done s m"
  shows "(if p_argument s = NULL then Some True
     else do {
       a \<leftarrow> (if p_count s - 1 < length (p_args s) then p_args s ! (p_count s - 1) else None);
       n \<leftarrow> strlen m a;
       Some (n \<noteq> 0)
     }) = Some True"
proof (cases "p_argument s = NULL")
  case False
  then obtain a v where "0 < p_count s" "p_count s \<le> length (p_args s)" "p_args s ! (p_count s - 1) = Some a"
    and v: "cstring m a v" "v \<noteq> []" "length v < 20" using assms by (auto simp: argument_done_def)
  moreover have "strlen m a = Some (length v)" using strlen_cstring [OF v(1)] v(3) by simp
  ultimately show ?thesis using False by simp
qed simp

lemma parse_char_separator:
  assumes "argument_done s m" and "p_count s \<le> 20" and "length (p_args s) = 20" and "new_block junk 20 m = (k, m1)"
  shows "parse_char junk sep sep s m = (if p_count s = 20 then None
     else Some (Some (s\<lparr>p_flag := False, p_args := (p_args s)[p_count s := Some k], p_argument := k,
        p_count := p_count s + 1, p_input := padd (p_input s) 1\<rparr>), m1))"
proof -
  let ?s = "s\<lparr>p_flag := False\<rparr>"
  have "argument_done ?s m" using assms(1) by (simp add: argument_done_def)
  note more = argument_done_more [OF this]
  have fl: "(if p_flag s \<and> sep = sep then s\<lparr>p_flag := False\<rparr> else s) = ?s" by (cases s) simp
  have first: "(if p_flag s \<and> sep \<noteq> sep then X else Some (s, m)) = Some (s, m)" for X by simp
  show ?thesis
    unfolding parse_char_def first Option.bind.bind_lunit prod.case Let_def fl more
    using assms(2-4) by simp
qed

lemma parse_separator:
  assumes "sep \<noteq> 0" and "cstring m (p_input s) (sep # rest)" and "argument_done s m" and "p_count s \<le> 20"
    and "length (p_args s) = 20" and "new_block junk 20 m = (k, m1)"
  shows "parse_loop junk sep s m = (if p_count s = 20 then None else parse_loop junk sep
      (s\<lparr>p_flag := False, p_args := (p_args s)[p_count s := Some k], p_argument := k,
        p_count := p_count s + 1, p_input := padd (p_input s) 1\<rparr>) m1)"
proof -
  have "load m (p_input s) = Some sep" using assms(2) by (simp add: cstring_Cons)
  then show ?thesis
    using parse_char_separator [OF assms(3-6)] assms(1) by (subst parse_loop.simps) simp
qed

text \<open>One argument: a separator and the word after it go into a new block.\<close>

lemma cstring_apart: "cstring m p s \<Longrightarrow> new_to m q \<Longrightarrow> apart p s q k"
proof -
  assume c: "cstring m p s" and n: "new_to m q"
  have "load m (padd p (int i)) = Some ((s @ [0]) ! i)" if "i \<le> length s" for i
    using c that bytes_at_nth [of m p "s @ [0]" i] by (simp add: cstring_def)
  then show "apart p s q k" using new_to_outside [OF n, of _ _ 0] by (auto simp: apart_def)
qed

lemma extends_load: "extends m m' \<Longrightarrow> load m p = Some x \<Longrightarrow> load m' p = Some x"
  by (simp add: extends_def)

lemma parse_word:
  assumes "sep \<noteq> 0" and "sep \<notin> set w" and "w \<noteq> []" and "length w < 20"
    and c: "cstring m (p_input s) (sep # w @ rest)" and "argument_done s m" and "p_count s < 20"
    and "length (p_args s) = 20"
  obtains s' m' k where "parse_loop junk sep s m = parse_loop junk sep s' m'" "extends m m'"
    "p_input s' = padd (p_input s) (int (Suc (length w)))" "p_count s' = Suc (p_count s)"
    "p_args s' = (p_args s)[p_count s := Some k]" "cstring m' k w" "cstring m' (p_input s') rest" "new_to m k"
proof -
  obtain k m1 where nb: "new_block junk 20 m = (k, m1)" by (cases "new_block junk 20 m") auto
  note b = new_block_facts [OF nb] and n = new_to_block [OF nb]
  let ?s = "s\<lparr>p_flag := False, p_args := (p_args s)[p_count s := Some k], p_argument := k,
        p_count := p_count s + 1, p_input := padd (p_input s) 1\<rparr>"
  have sp: "parse_loop junk sep s m = parse_loop junk sep ?s m1"
    using parse_separator [OF assms(1) c assms(6) _ assms(8) nb] assms(7) by simp
  have c0: "cstring m (p_input ?s) (w @ rest)" using c by (simp add: cstring_Cons)
  have c1: "cstring m1 (p_input ?s) (w @ rest)" using cstring_extends [OF b(1) c0] .
  have ap: "apart (p_input ?s) (w @ rest) (p_argument ?s) (Suc (length w))"
    using cstring_apart [OF c0 n] by simp
  have rm: "room m1 (p_argument ?s) (Suc (length w))" using room_mono [OF b(2)] assms(4) by simp
  obtain m' where pa: "parse_loop junk sep ?s m1 =
      parse_loop junk sep (?s\<lparr>p_input := padd (p_input ?s) (int (length w)),
        p_argument := padd (p_argument ?s) (int (length w))\<rparr>) m'"
    and w: "written_at m1 k (w @ [0]) m'"
    using parse_argument [OF _ assms(2,3) c1 rm ap, of junk] by auto
  have e: "extends m m'" using extends_written [OF b(1) n w] .
  have "cstring m' k w"
    using w c0 by (simp add: cstring_def written_at_def)
  moreover have "cstring m' (padd (p_input s) (int (Suc (length w)))) rest"
    using cstring_extends [OF e c0] by (simp add: cstring_split)
  ultimately show ?thesis
    using that [of "?s\<lparr>p_input := padd (p_input ?s) (int (length w)),
        p_argument := padd (p_argument ?s) (int (length w))\<rparr>" m' k] sp pa e n by simp
qed

section \<open>Lists of arguments\<close>

text \<open>The words as the line has them, each after one separator, and the array that holds them.\<close>

definition after_separators :: "u8 \<Rightarrow> u8 list list \<Rightarrow> u8 list" where
  "after_separators sep ws = concat (map (\<lambda>w. sep # w) ws)"

lemma after_separators_simps [simp]:
  "after_separators sep [] = []" "after_separators sep (w # ws) = sep # w @ after_separators sep ws"
  by (simp_all add: after_separators_def)

definition argument_word :: "u8 \<Rightarrow> u8 list \<Rightarrow> bool" where
  "argument_word sep w \<longleftrightarrow> w \<noteq> [] \<and> length w < 20 \<and> sep \<notin> set w"

definition holds_words :: "mem \<Rightarrow> ptr option list \<Rightarrow> u8 list list \<Rightarrow> bool" where
  "holds_words m as ws \<longleftrightarrow> length as = 20 \<and> length ws \<le> 20
     \<and> (\<forall>i < length ws. \<exists>a. as ! i = Some a \<and> cstring m a (ws ! i))"

lemma holds_words_Nil: "holds_words m as [] \<longleftrightarrow> length as = 20"
  by (auto simp: holds_words_def)

lemma holds_words_extends: "holds_words m as ws \<Longrightarrow> extends m m' \<Longrightarrow> holds_words m' as ws"
  unfolding holds_words_def using cstring_extends by blast

lemma holds_words_snoc:
  assumes "holds_words m as ws" and "cstring m k w" and "length ws < 20"
  shows "holds_words m (as[length ws := Some k]) (ws @ [w])"
  using assms by (auto simp: holds_words_def nth_append less_Suc_eq)

lemma argument_done_word:
  assumes "holds_words m (p_args s) (ws @ [w])" and "p_count s = Suc (length ws)" and "argument_word sep w"
  shows "argument_done s m"
  using assms unfolding argument_done_def holds_words_def argument_word_def
  by (auto dest!: spec [of _ "length ws"])

text \<open>As long as the array has room, the words go into it one after the other; the rest of the
  line is then read in a state that is ready for another argument.\<close>

text \<open>The entries of the array from \<open>j\<close> to \<open>k\<close> point to memory that \<open>m\<close> does not have.\<close>

definition fresh_entries :: "mem \<Rightarrow> ptr option list \<Rightarrow> nat \<Rightarrow> nat \<Rightarrow> bool" where
  "fresh_entries m as j k \<longleftrightarrow> (\<forall>i. j \<le> i \<and> i < k \<longrightarrow> (\<exists>a. as ! i = Some a \<and> new_to m a))"

lemma fresh_entries_extends: "fresh_entries m' as j k \<Longrightarrow> extends m m' \<Longrightarrow> fresh_entries m as j k"
  unfolding fresh_entries_def using new_to_extends by blast

lemma parse_words:
  assumes "sep \<noteq> 0" and "\<forall>w \<in> set ws. argument_word sep w"
    and "cstring m (p_input s) (after_separators sep ws @ rest)" and "argument_done s m"
    and "holds_words m (p_args s) vs" and "p_count s = length vs" and "length vs + length ws \<le> 20"
  shows "\<exists>s' m'. parse_loop junk sep s m = parse_loop junk sep s' m' \<and> extends m m' \<and> argument_done s' m'
    \<and> cstring m' (p_input s') rest \<and> holds_words m' (p_args s') (vs @ ws)
    \<and> p_count s' = length (vs @ ws) \<and> (\<forall>i < length vs. p_args s' ! i = p_args s ! i)
    \<and> fresh_entries m (p_args s') (length vs) (length (vs @ ws))"
  using assms(2-7)
proof (induction ws arbitrary: s m vs)
  case Nil
  then show ?case by (intro exI [of _ s] exI [of _ m]) (auto simp: extends_def fresh_entries_def)
next
  case (Cons w ws)
  have w: "argument_word sep w" using Cons.prems(1) by simp
  have pre: "sep \<notin> set w" "w \<noteq> []" "length w < 20" "p_count s < 20" "length (p_args s) = 20"
    using w Cons.prems by (simp_all add: argument_word_def holds_words_def)
  have c: "cstring m (p_input s) (sep # w @ after_separators sep ws @ rest)" using Cons.prems(2) by simp
  obtain s1 m1 k where s1: "parse_loop junk sep s m = parse_loop junk sep s1 m1" "extends m m1"
    "p_input s1 = padd (p_input s) (int (Suc (length w)))" "p_count s1 = Suc (p_count s)"
    "p_args s1 = (p_args s)[p_count s := Some k]" "cstring m1 k w"
    "cstring m1 (p_input s1) (after_separators sep ws @ rest)" "new_to m k"
    by (rule parse_word [OF assms(1) pre(1-3) c Cons.prems(3) pre(4,5)])
  have h: "holds_words m1 (p_args s1) (vs @ [w])"
    using holds_words_snoc [OF holds_words_extends [OF Cons.prems(4) s1(2)] s1(6)] s1(5) Cons.prems(5,6) by simp
  have d: "argument_done s1 m1" using argument_done_word [OF h _ w] s1(4) Cons.prems(5) by simp
  obtain s2 m2 where "parse_loop junk sep s1 m1 = parse_loop junk sep s2 m2" "extends m1 m2" "argument_done s2 m2"
    "cstring m2 (p_input s2) rest" "holds_words m2 (p_args s2) (vs @ w # ws)"
    "p_count s2 = length (vs @ w # ws)" "\<forall>i < length (vs @ [w]). p_args s2 ! i = p_args s1 ! i"
    "fresh_entries m1 (p_args s2) (length (vs @ [w])) (length (vs @ w # ws))"
    using Cons.IH [OF _ s1(7) d h] Cons.prems(1,5,6) s1(4) by auto
  moreover have "p_args s2 ! i = p_args s ! i" if "i < length vs" for i
    using that calculation(7) s1(5) Cons.prems(5) by simp
  moreover have "p_args s2 ! length vs = Some k"
    using calculation(7) s1(5) Cons.prems(4-6) by (simp add: holds_words_def)
  then have "fresh_entries m (p_args s2) (length vs) (length (vs @ w # ws))"
    using calculation(8) s1(8) new_to_extends [OF _ s1(2)] unfolding fresh_entries_def
    by (metis Suc_leI le_neq_implies_less length_append_singleton)
  ultimately show ?case using s1(1) extends_trans [OF s1(2)] by (intro exI [of _ s2] exI [of _ m2]) simp
qed

section \<open>The whole line\<close>

definition background :: "u8 list \<Rightarrow> i32" where
  "background s = (if 0x26 \<in> set (takeWhile trailing (rev (unindented s))) then 1 else 0)"

text \<open>The line up to its \<open>rest\<close>: the command, and the arguments in the array.\<close>

lemma parse_line:
  assumes "sep \<noteq> 0" and s: "cstring m p s" and len: "length s < 2 ^ 31"
    and st: "stripped s = w0 @ after_separators sep ws @ rest" and ne: "stripped s \<noteq> []"
    and fits: "indentation s + length (stripped s) + 1 < 500"
    and w0: "sep \<notin> set w0" "length w0 < 20"
    and ws: "\<forall>w \<in> set ws. argument_word sep w" "length ws \<le> 20"
  obtains c m1 s0 s' m' where "trim junk p m = Some (c, m1)" "isBackground c = background s"
    "s0 = \<lparr>p_input = trimmedInput c, p_command = command c, p_argument = NULL, p_count = 0,
         p_flag = True, p_args = arguments c\<rparr>"
    "parse_loop junk sep s0 m1 = parse_loop junk sep s' m'" "extends m m'" "argument_done s' m'"
    "cstring m' (p_input s') rest" "cstring m' (command c) w0" "holds_words m' (p_args s') ws"
    "p_count s' = length ws" "whole_blocks c" "command c \<noteq> trimmedInput c" "load m' (trimmedInput c) \<noteq> None" "new_to m (command c)"
    "fresh_entries m (p_args s') 0 (length ws)" "new_to m (trimmedInput c)"
proof -
  obtain c m1 where t: "trim junk p m = Some (c, m1)"
    "isBackground c = (if 0x26 \<in> set (takeWhile trailing (rev (unindented s))) then 1 else 0)"
    "arguments c = replicate 20 None" "cstring m1 (trimmedInput c) (stripped s)"
    "room m1 (command c) 20" "load m1 (command c) = Some 0" "new_to m (command c)"
    "\<forall>i j. i < 20 \<longrightarrow> padd (command c) (int i) \<noteq> padd (trimmedInput c) j" "extends m m1"
    "whole_blocks c" "new_to m (trimmedInput c)"
    by (rule trim_cstring [OF s len ne fits])
  define s0 where "s0 = \<lparr>p_input = trimmedInput c, p_command = command c, p_argument = NULL, p_count = 0,
         p_flag = True, p_args = arguments c\<rparr>"
  have c0: "cstring m1 (p_input s0) (w0 @ after_separators sep ws @ rest)" using t(4) st by (simp add: s0_def)
  have rm: "room m1 (p_command s0) (Suc (length w0))" using room_mono [OF t(5)] w0(2) by (simp add: s0_def)
  have apc: "apart (trimmedInput c) xs (command c) (Suc (length w0))" for xs
    unfolding apart_def outside_def
  proof (intro allI impI)
    fix i j assume "j < Suc (length w0)"
    then have "padd (command c) (int j) \<noteq> padd (trimmedInput c) (int i)" using t(8) w0(2) by simp
    then show "padd (trimmedInput c) (int i) \<noteq> padd (command c) (int j)" by (rule not_sym)
  qed
  then have ap: "apart (p_input s0) (w0 @ after_separators sep ws @ rest) (p_command s0) (Suc (length w0))"
    by (simp add: s0_def)
  obtain m2 where pc: "parse_loop junk sep s0 m1 = parse_loop junk sep (s0\<lparr>p_input := padd (p_input s0) (int (length w0)),
        p_command := padd (p_command s0) (int (length w0))\<rparr>) m2"
    and w: "written_at m1 (command c) (w0 @ [0]) m2"
    using parse_command [OF _ w0(1) c0 rm _ ap, of junk] t(6) by (auto simp: s0_def)
  let ?s = "s0\<lparr>p_input := padd (p_input s0) (int (length w0)), p_command := padd (p_command s0) (int (length w0))\<rparr>"
  have e2: "extends m m2" using extends_written [OF t(9,7) w] .
  have "cstring m2 (trimmedInput c) (w0 @ after_separators sep ws @ rest)"
    using apart_written [OF apc w] c0 by (simp add: s0_def)
  then have c2: "cstring m2 (p_input ?s) (after_separators sep ws @ rest)" by (simp add: cstring_split s0_def)
  have "cstring m2 (command c) w0" using w c0 by (simp add: cstring_def written_at_def)
  moreover have "argument_done ?s m2" "holds_words m2 (p_args ?s) []" "p_count ?s = length ([] :: u8 list list)"
    "length ([] :: u8 list list) + length ws \<le> 20"
    using t(3) ws(2) by (simp_all add: argument_done_def holds_words_Nil s0_def)
  note parse_words [OF assms(1) ws(1) c2 this, of junk]
  ultimately obtain s' m' where "parse_loop junk sep ?s m2 = parse_loop junk sep s' m'" "extends m2 m'"
    "argument_done s' m'" "cstring m' (p_input s') rest" "holds_words m' (p_args s') ws" "p_count s' = length ws"
    "cstring m' (command c) w0" "fresh_entries m2 (p_args s') 0 (length ws)"
    using cstring_extends by fastforce
  moreover have "command c \<noteq> trimmedInput c" using t(8) [rule_format, of 0 0] by simp
  moreover have "load m2 (trimmedInput c) \<noteq> None"
    using cstring_head [OF apart_written [OF apc w _ t(4)]] by simp
  ultimately show ?thesis
    using that [OF t(1) _ s0_def] t(2,7,10,11) pc extends_trans [OF e2] extends_load [of m2 m' "trimmedInput c"]
      fresh_entries_extends [OF _ e2]
    by (auto simp: background_def)
qed

text \<open>A line that splits into the command \<open>w0\<close> and the arguments \<open>ws\<close>, within the sizes of the
  parser's arrays.\<close>

definition line_words :: "u8 \<Rightarrow> u8 list \<Rightarrow> u8 list \<Rightarrow> u8 list list \<Rightarrow> bool" where
  "line_words sep s w0 ws \<longleftrightarrow> length s < 2 ^ 31 \<and> stripped s = w0 @ after_separators sep ws \<and> stripped s \<noteq> []
     \<and> indentation s + length (stripped s) + 1 < 500 \<and> sep \<notin> set w0 \<and> length w0 < 20
     \<and> (\<forall>w \<in> set ws. argument_word sep w) \<and> length ws \<le> 20"

text \<open>What \<open>parseInput\<close> returns: the words, in memory of its own.\<close>

definition parsed :: "mem \<Rightarrow> commandArgument \<Rightarrow> mem \<Rightarrow> u8 list \<Rightarrow> u8 list list \<Rightarrow> bool" where
  "parsed m c m' w0 ws \<longleftrightarrow> extends m m' \<and> cstring m' (command c) w0 \<and> holds_words m' (arguments c) ws
     \<and> argumentCount c = length ws \<and> new_to m (command c) \<and> fresh_entries m (arguments c) 0 (length ws)
     \<and> whole_blocks c \<and> command c \<noteq> trimmedInput c \<and> load m' (trimmedInput c) \<noteq> None
     \<and> new_to m (trimmedInput c)"

lemma parseInput_line:
  assumes "sep \<noteq> 0" and "cstring m p s" and "line_words sep s w0 ws"
  obtains c m' where "parseInput junk p sep m = Some (Some c, m')" "parsed m c m' w0 ws" "isBackground c = background s"
proof -
  have pre: "length s < 2 ^ 31" "stripped s \<noteq> []" "indentation s + length (stripped s) + 1 < 500" "sep \<notin> set w0"
    "length w0 < 20" "\<forall>w \<in> set ws. argument_word sep w" "length ws \<le> 20"
    using assms(3) unfolding line_words_def by blast+
  have st: "stripped s = w0 @ after_separators sep ws @ []" using assms(3) by (simp add: line_words_def)
  obtain c m1 s0 s' m' where r: "trim junk p m = Some (c, m1)" "isBackground c = background s"
    "s0 = \<lparr>p_input = trimmedInput c, p_command = command c, p_argument = NULL, p_count = 0,
         p_flag = True, p_args = arguments c\<rparr>"
    "parse_loop junk sep s0 m1 = parse_loop junk sep s' m'" "extends m m'" "argument_done s' m'"
    "cstring m' (p_input s') []" "cstring m' (command c) w0" "holds_words m' (p_args s') ws"
    "p_count s' = length ws" "whole_blocks c" "command c \<noteq> trimmedInput c" "load m' (trimmedInput c) \<noteq> None"
    "new_to m (command c)" "fresh_entries m (p_args s') 0 (length ws)" "new_to m (trimmedInput c)"
    by (rule parse_line [OF assms(1,2) pre(1) st pre(2-7)])
  let ?c = "c\<lparr>arguments := p_args s', argumentCount := p_count s'\<rparr>"
  have "parse_loop junk sep s' m' = Some (Some s', m')"
    using r(7) by (subst parse_loop.simps) (simp add: cstring_Nil)
  then have "parseInput junk p sep m = Some (Some ?c, m')" using r(1,3,4) by (simp add: parseInput_def)
  moreover have "parsed m ?c m' w0 ws" using r by (simp add: parsed_def whole_blocks_def)
  ultimately show ?thesis using that [of ?c m'] r(2) by simp
qed

section \<open>Properties\<close>


text \<open>The line \<open>echo a b &\<close>, indented, and a line with 21 arguments.\<close>

definition echo_line :: "u8 list" where
  "echo_line = bytes ''  echo a b &'' @ [0x0A]"

definition long_line :: "u8 list" where
  "long_line = bytes ''ls a b c d e f g h i j k l m n o p q r s t u''"

lemma cstring_bytes_block: "0 \<notin> set s \<Longrightarrow> cstring [Some (s @ [0])] (Ptr 0 0) s"
  by (simp add: cstring_def bytes_at_def block_def nth_append)

lemma echo_line_parts:
  "stripped echo_line = bytes ''echo'' @ after_separators 0x20 [bytes ''a'', bytes ''b'']"
  "indentation echo_line = 2" "background echo_line = 1" "length echo_line = 13" "0 \<notin> set echo_line"
  by (simp_all add: stripped_def unindented_def indentation_def background_def echo_line_def blank_def trailing_def)


text \<open>C32: A twenty-first argument is not refused. Because the guard compares the number of
  arguments already read with \<open>MAX_ARGUMENTS\<close> by \<open>>\<close>, a line with 20 arguments and one more
  separator writes past the array: the parse has no defined result, and \<open>NULL\<close> with the
  message about too many arguments is not what it gives.\<close>

theorem parseInput_overflows_arguments:
  assumes "sep \<noteq> 0" and "cstring m p s" and "length s < 2 ^ 31"
    and "stripped s = w0 @ after_separators sep ws @ sep # rest" and "stripped s \<noteq> []"
    and "indentation s + length (stripped s) + 1 < 500"
    and "sep \<notin> set w0" and "length w0 < 20"
    and "\<forall>w \<in> set ws. argument_word sep w" and "length ws = 20"
  shows "parseInput junk p sep m = None"
proof -
  have l: "length ws \<le> 20" using assms(10) by simp
  obtain c m1 s0 s' m' where r: "trim junk p m = Some (c, m1)" "isBackground c = background s"
    "s0 = \<lparr>p_input = trimmedInput c, p_command = command c, p_argument = NULL, p_count = 0,
         p_flag = True, p_args = arguments c\<rparr>"
    "parse_loop junk sep s0 m1 = parse_loop junk sep s' m'" "extends m m'" "argument_done s' m'"
    "cstring m' (p_input s') (sep # rest)" "cstring m' (command c) w0" "holds_words m' (p_args s') ws"
    "p_count s' = length ws" "whole_blocks c" "command c \<noteq> trimmedInput c" "load m' (trimmedInput c) \<noteq> None" "new_to m (command c)"
    "fresh_entries m (p_args s') 0 (length ws)" "new_to m (trimmedInput c)"
    by (rule parse_line [OF assms(1-9) l])
  obtain k m2 where nb: "new_block junk 20 m' = (k, m2)" by (cases "new_block junk 20 m'") auto
  have "parse_loop junk sep s' m' = None"
    using parse_separator [OF assms(1) r(7,6) _ _ nb] r(9,10) assms(10) by (simp add: holds_words_def)
  then show ?thesis using r(1,3,4) by (simp add: parseInput_def)
qed

lemma long_line_parts:
  "stripped long_line = bytes ''ls'' @ after_separators 0x20 (map (\<lambda>ch. bytes [ch]) ''abcdefghijklmnopqrst'') @ 0x20 # bytes ''u''"
  "indentation long_line = 0" "length long_line = 44" "0 \<notin> set long_line"
  by (simp_all add: stripped_def unindented_def indentation_def long_line_def blank_def trailing_def)

theorem parseInput_overflows_arguments_witness:
  "parseInput (\<lambda>_ _. 7) (Ptr 0 0) 0x20 [Some (long_line @ [0])] = None"
  using parseInput_overflows_arguments [OF _ cstring_bytes_block [OF long_line_parts(4)] _ long_line_parts(1)]
  by (simp add: long_line_parts argument_word_def)

text \<open>Freeing: what was read before stays what it was until its block is freed.\<close>

lemma free_block_load:
  assumes "free_block p m = Some m'" and "load m' q = Some x"
  shows "load m q = Some x"
  using assms by (cases p; cases q) (auto simp: free_block_def block_update split: if_splits option.splits)

lemma free_block_whole:
  assumes "load m (Ptr b 0) \<noteq> None"
  obtains m' where "free_block (Ptr b 0) m = Some m'"
    "\<And>q. load m' q = (case q of NULL \<Rightarrow> None | Ptr b' off \<Rightarrow> if b' = b then None else load m q)"
proof -
  have "block m b \<noteq> None" using assms by (auto split: option.splits)
  then have f: "free_block (Ptr b 0) m = Some (m[b := None])" by (simp add: free_block_def)
  have "load (m[b := None]) q = (case q of NULL \<Rightarrow> None | Ptr b' off \<Rightarrow> if b' = b then None else load m q)" for q
    by (cases q) (auto simp: block_update block_def split: option.splits)
  with f show ?thesis using that by blast
qed

lemma store_freed: "load m p = None \<Longrightarrow> store p v m = None"
  by (cases p) (auto split: option.splits if_splits)

lemma memset_freed:
  assumes "load m p = None" and "p \<noteq> NULL" and "0 < n" and "n < 2 ^ 31"
  shows "memset p c (of_nat n) m = None"
proof -
  obtain k where "n = Suc k" using assms(3) by (cases n) auto
  then have "[0..<n] = 0 # [1..<n]" by (simp add: upt_conv_Cons)
  then show ?thesis using store_freed [OF assms(1)] assms(2) by (simp add: memset_def signed_size [OF assms(4)])
qed

lemma strlen_positive: "strlen m a = Some n \<Longrightarrow> a \<noteq> NULL \<Longrightarrow> load m a \<noteq> Some 0 \<Longrightarrow> 0 < n \<and> n < 2 ^ 31"
  using strlen_loop_Some [of m a 0 n] by (auto simp: strlen_def dest: cstring_head split: list.splits)

lemma free_parsed:
  assumes wb: "whole_blocks c" and d: "command c \<noteq> trimmedInput c" and tl: "load m (trimmedInput c) \<noteq> None"
    and w0: "cstring m (command c) w0" "length w0 < 20"
    and h: "holds_words m (arguments c) ws" "argumentCount c = length ws" "\<forall>w \<in> set ws. argument_word sep w"
  shows "if ws = [] then \<exists>m'. freeCommandArgument c m = Some m' \<and>
      (\<forall>b off. load m' (Ptr b off) = (if Ptr b 0 = trimmedInput c \<or> Ptr b 0 = command c then None else load m (Ptr b off)))
    else freeCommandArgument c m = None"
proof -
  obtain b1 b2 where b: "trimmedInput c = Ptr b1 0" "command c = Ptr b2 0" "b1 \<noteq> b2"
    using wb d by (auto simp: whole_blocks_def)
  obtain m1 where f1: "free_block (Ptr b1 0) m = Some m1"
    and l1: "\<And>q. load m1 q = (case q of NULL \<Rightarrow> None | Ptr b' off \<Rightarrow> if b' = b1 then None else load m q)"
    using free_block_whole tl b(1) by metis
  have c1: "cstring m1 (Ptr b2 0) w0"
    using w0(1) b by (auto simp: cstring_def bytes_at_def l1 simp del: load.simps)
  have sl: "strlen m1 (Ptr b2 0) = Some (length w0)" using strlen_cstring [OF c1] w0(2) by simp
  have "room m1 (Ptr b2 0) (length w0)"
    using cstring_bytes [OF c1] by (simp add: room_def valid_def bytes_at_def del: load.simps)
  then obtain m2 where ms: "memset (Ptr b2 0) 0 (of_nat (length w0)) m1 = Some (Ptr b2 0, m2)"
    and w2: "written_at m1 (Ptr b2 0) (replicate (length w0) (ucast (0 :: i32))) m2"
    using memset_room [of m1 "Ptr b2 0" "length w0" 0] w0(2) by auto
  have "load m1 (Ptr b2 0) \<noteq> None" using cstring_head [OF c1] by simp
  then have "load m2 (Ptr b2 0) \<noteq> None" using w2 by (simp add: written_at_def valid_def del: load.simps)
  then obtain m3 where f3: "free_block (Ptr b2 0) m2 = Some m3"
    and l3: "\<And>q. load m3 q = (case q of NULL \<Rightarrow> None | Ptr b' off \<Rightarrow> if b' = b2 then None else load m2 q)"
    using free_block_whole by metis
  have l2: "load m2 (Ptr b' off) = load m1 (Ptr b' off)" if "b' \<noteq> b2" for b' off
    using w2 that by (simp add: written_at_def outside_def del: load.simps)
  have l: "load m3 (Ptr b' off) = (if b' = b1 \<or> b' = b2 then None else load m (Ptr b' off))" for b' off
    by (simp add: l3 l2 l1 del: load.simps)
  have fr: "freeCommandArgument c m = for_list (\<lambda>i m. do {
         a \<leftarrow> argument_at c i;
         n \<leftarrow> strlen m a;
         (s, m) \<leftarrow> memset (command c) 0 (of_nat n) m;
         if a \<noteq> NULL then free_block a m else Some m
       }) [0..<length ws] m3"
    using f1 sl ms f3 b(1,2) h(2) by (simp add: freeCommandArgument_def)
  show ?thesis
  proof (cases ws)
    case Nil
    then show ?thesis using fr l b by (auto simp del: load.simps)
  next
    case (Cons w vs)
    then obtain a where a: "arguments c ! 0 = Some a" "cstring m a w" "length (arguments c) = 20" "w \<noteq> []"
      using h(1,3) by (auto simp: holds_words_def argument_word_def)
    have av: "argument_at c 0 = Some a" using a by (simp add: argument_at_def)
    have an: "a \<noteq> NULL" using cstring_not_null [OF a(2)] .
    have "load m3 a \<noteq> Some 0"
      using cstring_head [OF a(2)] a(2,4) l an by (cases a; cases w) (auto simp: cstring_Cons simp del: load.simps)
    moreover have "load m3 (command c) = None" "command c \<noteq> NULL" using l b(2) by (simp_all del: load.simps)
    ultimately have "do { n \<leftarrow> strlen m3 a; memset (command c) 0 (of_nat n) m3 } = None"
      using strlen_positive [OF _ an] memset_freed by (cases "strlen m3 a") auto
    then have "do {
         a \<leftarrow> argument_at c 0;
         n \<leftarrow> strlen m3 a;
         (s, m) \<leftarrow> memset (command c) 0 (of_nat n) m3;
         if a \<noteq> NULL then free_block a m else Some m
       } = None"
      using av by (cases "strlen m3 a") auto
    moreover have "[0..<length ws] = 0 # [Suc 0..<length ws]" using Cons by (intro upt_conv_Cons) simp
    ultimately show ?thesis unfolding fr using Cons by simp
  qed
qed



text \<open>C34: A line at the start of its array that has only blanks, newlines and ampersands and
  does not begin with a blank (such as \<open>&\<close> and a newline) makes the trimming run below the
  array: the parse has no defined result.\<close>

theorem parseInput_of_blank_line:
  assumes "cstring m (Ptr b 0) s" and "length s < 2 ^ 31" and "\<forall>x \<in> set s. trailing x"
    and "s = [] \<or> \<not> blank (hd s)"
  shows "parseInput junk (Ptr b 0) sep m = None"
proof -
  obtain cmd m1 where nb1: "new_block junk 20 m = (cmd, m1)" by (cases "new_block junk 20 m") auto
  note b1 = new_block_facts [OF nb1] and n1 = new_to_block [OF nb1]
  obtain m2 where ms1: "memset cmd 0 (of_nat 20) m1 = Some (cmd, m2)" and w2: "written_at m1 cmd (replicate 20 0) m2"
    using memset_room [OF b1(2), of 0] by auto
  have e2: "extends m m2" using extends_written [OF b1(1) n1 w2] .
  obtain tr m3 where nb2: "new_block junk 500 m2 = (tr, m3)" by (cases "new_block junk 500 m2") auto
  note b2 = new_block_facts [OF nb2] and n2 = new_to_block [OF nb2]
  obtain m4 where ms2: "memset tr 0 (of_nat 500) m3 = Some (tr, m4)" and w4: "written_at m3 tr (replicate 500 0) m4"
    using memset_room [OF b2(2), of 0] by auto
  have e3: "extends m m3" and e4: "extends m m4"
    using extends_trans [OF e2] b2(1) extends_written [OF b2(1) n2 w4] by auto
  have sl: "strlen m3 (Ptr b 0) = Some (length s)" using strlen_cstring [OF cstring_extends [OF e3 assms(1)] assms(2)] .
  have c4: "cstring m4 (Ptr b 0) s" using cstring_extends [OF e4 assms(1)] .
  have "takeWhile blank s = []" using assms(4) by (cases s) auto
  then have "trim_left m4 (Ptr b 0) 0 (int (length s) - 1) = Some 0"
    using trim_left_cstring [of m4 "Ptr b 0" 0 s "length s"] c4 by simp
  then have "trim junk (Ptr b 0) m = None"
    using ms1 ms2 sl trim_right_runs_out [OF cstring_bytes [OF c4] assms(3)] by (simp add: trim_def nb1 nb2)
  then show ?thesis by (simp add: parseInput_def)
qed

theorem parseInput_of_blank_line_witness:
  "parseInput (\<lambda>_ _. 7) (Ptr 0 0) 0x20 [Some ([0x26, 0x0A] @ [0])] = None"
  using parseInput_of_blank_line [OF cstring_bytes_block [of "[0x26, 0x0A]"]]
  by (simp add: trailing_def blank_def)

end
