(* ===== verification/Builtins.thy ===== *)
theory Builtins
  imports Process Parser
begin

text \<open>
  The commands the shell of bin/sbush/sbush.c executes itself: \<open>cd\<close>, \<open>pwd\<close>, \<open>echo\<close>, \<open>export\<close>
  and the assignment \<open>NAME=VALUE\<close>, and how it recognises them.
\<close>

section \<open>Operations\<close>

text \<open>The codes.\<close>

abbreviation (input) BUILT_IN_CD :: i32 where "BUILT_IN_CD \<equiv> 1"
abbreviation (input) BUILT_IN_PWD :: i32 where "BUILT_IN_PWD \<equiv> 2"
abbreviation (input) BUILT_IN_EXPORT :: i32 where "BUILT_IN_EXPORT \<equiv> 3"
abbreviation (input) BUILT_IN_ECHO :: i32 where "BUILT_IN_ECHO \<equiv> 4"
abbreviation (input) BUILT_IN_WITHOUT_EXPORT :: i32 where "BUILT_IN_WITHOUT_EXPORT \<equiv> 5"

definition getBuiltInCode :: "'os program \<Rightarrow> commandArgument \<Rightarrow> mem \<Rightarrow> i32 option" where
  "getBuiltInCode P c m = do {
     r \<leftarrow> strcmp m (literal P ''cd'') (command c);
     if r = 0 then Some BUILT_IN_CD else do {
     r \<leftarrow> strcmp m (literal P ''pwd'') (command c);
     if r = 0 then Some BUILT_IN_PWD else do {
     r \<leftarrow> strcmp m (literal P ''export'') (command c);
     if r = 0 then Some BUILT_IN_EXPORT else do {
     r \<leftarrow> strcmp m (literal P ''echo'') (command c);
     if r = 0 then Some BUILT_IN_ECHO else do {
     e \<leftarrow> strchr m (command c) 0x3D;
     if e \<noteq> NULL then Some BUILT_IN_WITHOUT_EXPORT else Some 0 }}}}
   }"

definition executeBuiltInPwd :: "'os program \<Rightarrow> commandArgument \<Rightarrow> 'os shell \<Rightarrow> 'os shell option" where
  "executeBuiltInPwd P c s =
     (if 1 < argumentCount c then do {
        s \<leftarrow> say P ''No argument is allowed for pwd.'' s;
        say P newline s
      }
      else do {
        let (cwd, m) = new_block (junk P) 1024 (memory s);
        (r, m) \<leftarrow> memset cwd 0 1024 m;
        let (path, w) = p_getcwd (procs P) 1024 (world s);
        m \<leftarrow> store_bytes cwd path m;
        s \<leftarrow> custom_fputs P cwd 1 (s\<lparr>memory := m, world := w\<rparr>);
        say P newline s
      })"

definition executeBuiltInEcho :: "'os program \<Rightarrow> commandArgument \<Rightarrow> 'os shell \<Rightarrow> 'os shell option" where
  "executeBuiltInEcho P c s = for_list (\<lambda>i s. do {
       a \<leftarrow> argument_at c i;
       c_dollar \<leftarrow> strchr (memory s) a 0x24;
       if c_dollar \<noteq> NULL then do {
         result \<leftarrow> getenv (memory s) (padd c_dollar 1) (vars s);
         s \<leftarrow> custom_fputs P result 1 s;
         say P newline s
       }
       else Some s
     }) [0..<argumentCount c] s"

definition executeBuiltInExport :: "'os program \<Rightarrow> commandArgument \<Rightarrow> 'os shell \<Rightarrow> 'os shell option" where
  "executeBuiltInExport P c s = for_list (\<lambda>i s. do {
       a \<leftarrow> argument_at c i;
       c_equal \<leftarrow> strchr (memory s) a 0x3D;
       if c_equal \<noteq> NULL then do {
         m \<leftarrow> store c_equal 0 (memory s);
         (r, vs, m) \<leftarrow> setenv (junk P) a (padd c_equal 1) 1 (vars s) m;
         Some (s\<lparr>memory := m, vars := vs\<rparr>)
       }
       else Some s
     }) [0..<argumentCount c] s"

definition executeBuiltInWithoutExport :: "'os program \<Rightarrow> commandArgument \<Rightarrow> 'os shell \<Rightarrow> 'os shell option" where
  "executeBuiltInWithoutExport P c s = do {
     c_equal \<leftarrow> strchr (memory s) (command c) 0x3D;
     s \<leftarrow> (if c_equal \<noteq> NULL then do {
         m \<leftarrow> store c_equal 0 (memory s);
         let val = padd c_equal 1;
         (r, vs, m) \<leftarrow> setenv (junk P) (command c) val 1 (vars s) m;
         r \<leftarrow> strcmp m (command c) (literal P ''PS1'');
         m \<leftarrow> (if r = 0 then do {
             (q, m) \<leftarrow> memset (PS1 P) 0 100 m;
             n \<leftarrow> strlen m val;
             (q, m) \<leftarrow> memcpy (PS1 P) val (of_nat n) m;
             Some m
           } else Some m);
         Some (s\<lparr>memory := m, vars := vs\<rparr>)
       }
       else Some s);
     executeBuiltInExport P c s
   }"

definition executeBuiltInCd :: "'os program \<Rightarrow> commandArgument \<Rightarrow> 'os shell \<Rightarrow> 'os shell option" where
  "executeBuiltInCd P c s =
     (if 1 < argumentCount c then do {
        s \<leftarrow> say P ''Max 1 argument is allowed for cd.'' s;
        say P newline s
      }
      else do {
        target \<leftarrow> (if argumentCount c = 1 then argument_at c 0 else Some (literal P ''/''));
        let (result, w) = p_chdir (procs P) (memory s) target (world s);
        let s = s\<lparr>world := w\<rparr>;
        if result \<noteq> 0 then do {
          s \<leftarrow> say P ''Error in cd'' s;
          say P newline s
        }
        else Some s
      })"

text \<open>The debugging output of a parsed command.\<close>

definition printParsedCommand :: "'os program \<Rightarrow> commandArgument option \<Rightarrow> 'os shell \<Rightarrow> 'os shell option" where
  "printParsedCommand P c_Arg s =
     (case c_Arg of
        Some c \<Rightarrow> do {
          s \<leftarrow> say P ''command : '' s;
          s \<leftarrow> custom_fputs P (command c) 1 s;
          s \<leftarrow> say P newline s;
          for_list (\<lambda>i s. do {
            s \<leftarrow> say P ''Argument '' s;
            s \<leftarrow> say P '' : '' s;
            a \<leftarrow> argument_at c i;
            s \<leftarrow> custom_fputs P a 1 s;
            say P newline s
          }) [0..<argumentCount c] s
        }
      | None \<Rightarrow> do {
          s \<leftarrow> say P ''parsed command is NULL'' s;
          say P newline s
        })"

section \<open>The string literals of the shell\<close>

definition sbush_literals :: "string list" where
  "sbush_literals = [''cd'', ''pwd'', ''export'', ''echo'', ''/'', ''PATH'', ''PS1'', newline,
     ''No argument is allowed for pwd.'', ''Max 1 argument is allowed for cd.'', ''Error in cd'',
     ''error while executing pipes'', ''BuiltIn is not implemented'', ''rootfs/bin/sbush'', ''rootfs/bin/cat'',
     ''Unable to run in bg'' @ newline, ''Command not found.'' @ newline, ''Error while creating pipe'',
     ''Some error occured while forking'', ''Invalid pipe syntex. Try Again'', ''r'', ''#!rootfs/bin/sbush'',
     ''Error while executing other shell '' @ newline, ''exit'' @ newline, ''Exiting as requested'',
     ''Makefile'', ''PATH=/bin/'']"

text \<open>They are in memory.\<close>

definition literals :: "'os program \<Rightarrow> mem \<Rightarrow> bool" where
  "literals P m \<longleftrightarrow> (\<forall>str \<in> set sbush_literals. cstring m (literal P str) (bytes str))"

lemma literals_extends: "literals P m \<Longrightarrow> extends m m' \<Longrightarrow> literals P m'"
  unfolding literals_def using cstring_extends by blast

lemma literal_string: "literals P m \<Longrightarrow> str \<in> set sbush_literals \<Longrightarrow> cstring m (literal P str) (bytes str)"
  by (simp add: literals_def)

lemma known_literals:
  "''cd'' \<in> set sbush_literals" "''pwd'' \<in> set sbush_literals" "''export'' \<in> set sbush_literals"
  "''echo'' \<in> set sbush_literals" "''PS1'' \<in> set sbush_literals" "''PATH'' \<in> set sbush_literals"
  "newline \<in> set sbush_literals" "''rootfs/bin/sbush'' \<in> set sbush_literals" "''rootfs/bin/cat'' \<in> set sbush_literals"
  "''exit'' @ newline \<in> set sbush_literals" "''Exiting as requested'' \<in> set sbush_literals"
  "''Invalid pipe syntex. Try Again'' \<in> set sbush_literals" "''PATH=/bin/'' \<in> set sbush_literals"
  by (simp_all add: sbush_literals_def newline_def)

lemma strcmp_literal:
  assumes "literals P m" and "str \<in> set sbush_literals" and "cstring m q w"
  obtains r where "strcmp m (literal P str) q = Some r" "r = 0 \<longleftrightarrow> bytes str = w"
  using strcmp_eq_0 [OF literal_string [OF assms(1,2)] assms(3)] by blast

lemma bytes_newline [simp]: "bytes newline = [0x0A]"
  by (simp add: newline_def)

text \<open>The literals placed in blocks of their own, for examples.\<close>

definition literal_blocks :: mem where
  "literal_blocks = map (\<lambda>str. Some (bytes str @ [0])) sbush_literals"

definition literal_block :: "string \<Rightarrow> ptr" where
  "literal_block str = Ptr (length (takeWhile (\<lambda>x. x \<noteq> str) sbush_literals)) 0"

lemma literals_in_blocks: "literal P = literal_block \<Longrightarrow> literals P (literal_blocks @ m)"
  unfolding literals_def
proof
  fix str assume P: "literal P = literal_block" and str: "str \<in> set sbush_literals"
  let ?n = "length (takeWhile (\<lambda>x. x \<noteq> str) sbush_literals)"
  have n: "?n < length sbush_literals"
    using str length_takeWhile_le [of "\<lambda>x. x \<noteq> str" sbush_literals] takeWhile_eq_all_conv [of "\<lambda>x. x \<noteq> str" sbush_literals]
    by (metis (no_types, lifting) le_neq_implies_less takeWhile_eq_take take_all order_refl)
  have "sbush_literals ! ?n = str" using nth_length_takeWhile [OF n] by simp
  then have b: "block (literal_blocks @ m) ?n = Some (bytes str @ [0])"
    using n by (simp add: block_def literal_blocks_def nth_append)
  have "list_all (\<lambda>str. 0 \<notin> set (bytes str)) sbush_literals" by (simp add: sbush_literals_def newline_def)
  then have "0 \<notin> set (bytes str)" using str by (simp add: list_all_iff)
  then show "cstring (literal_blocks @ m) (literal P str) (bytes str)"
    using b by (auto simp: P literal_block_def cstring_def bytes_at_def)
qed

section \<open>Recognising a command\<close>

lemma getBuiltInCode_value:
  assumes "literals P m" and "cstring m (command c) w"
  shows "getBuiltInCode P c m = Some (
    if w = bytes ''cd'' then 1 else if w = bytes ''pwd'' then 2 else if w = bytes ''export'' then 3
    else if w = bytes ''echo'' then 4 else if 0x3D \<in> set (takeWhile (\<lambda>x. x \<noteq> 0x0A) w) then 5 else 0)"
proof -
  obtain r1 where r1: "strcmp m (literal P ''cd'') (command c) = Some r1" "r1 = 0 \<longleftrightarrow> bytes ''cd'' = w"
    by (rule strcmp_literal [OF assms(1) known_literals(1) assms(2)])
  obtain r2 where r2: "strcmp m (literal P ''pwd'') (command c) = Some r2" "r2 = 0 \<longleftrightarrow> bytes ''pwd'' = w"
    by (rule strcmp_literal [OF assms(1) known_literals(2) assms(2)])
  obtain r3 where r3: "strcmp m (literal P ''export'') (command c) = Some r3" "r3 = 0 \<longleftrightarrow> bytes ''export'' = w"
    by (rule strcmp_literal [OF assms(1) known_literals(3) assms(2)])
  obtain r4 where r4: "strcmp m (literal P ''echo'') (command c) = Some r4" "r4 = 0 \<longleftrightarrow> bytes ''echo'' = w"
    by (rule strcmp_literal [OF assms(1) known_literals(4) assms(2)])
  obtain e where e: "strchr m (command c) 0x3D = Some e"
    "e \<noteq> NULL \<longleftrightarrow> 0x3D \<in> set (takeWhile (\<lambda>x. x \<noteq> 0x0A) w)"
    using strchr_cstring [OF assms(2), of "0x3D"] cstring_not_null [OF assms(2)] by (cases "command c") (auto simp: Let_def)
  show ?thesis
    unfolding getBuiltInCode_def r1(1) r2(1) r3(1) r4(1) e(1)
    using r1(2) r2(2) r3(2) r4(2) e(2) by (simp del: bytes_Cons add: eq_commute [of w])
qed

text \<open>\<open>getBuiltInCode\<close> looks at the command's bytes only: 1 to 4 for exactly \<open>cd\<close>, \<open>pwd\<close>,
  \<open>export\<close> and \<open>echo\<close>, 5 for any other command with an equals sign in it (in its first line),
  else 0.\<close>

theorem getBuiltInCode_classifies:
  assumes "literals P m" and "cstring m (command c) w"
  shows "getBuiltInCode P c m = Some (
    if w = bytes ''cd'' then 1 else if w = bytes ''pwd'' then 2 else if w = bytes ''export'' then 3
    else if w = bytes ''echo'' then 4 else if 0x3D \<in> set (takeWhile (\<lambda>x. x \<noteq> 0x0A) w) then 5 else 0)"
  using getBuiltInCode_value [OF assms] .

text \<open>An example: one more block of memory after the literals.\<close>

definition with_text :: "u8 list \<Rightarrow> mem" where
  "with_text str = literal_blocks @ [Some (str @ [0])]"

definition a_command :: "ptr \<Rightarrow> commandArgument" where
  "a_command p = \<lparr>trimmedInput = NULL, command = p, arguments = replicate 20 None, isBackground = 0, argumentCount = 0\<rparr>"

lemma length_literals: "length sbush_literals = 27"
  by (simp add: sbush_literals_def)

lemma cstring_in_block: "block m b = Some (str @ [0] @ rest) \<Longrightarrow> 0 \<notin> set str \<Longrightarrow> cstring m (Ptr b 0) str"
  by (simp add: cstring_def bytes_at_def nth_append)

lemma with_text: "0 \<notin> set str \<Longrightarrow> cstring (with_text str) (Ptr 27 0) str"
  by (rule cstring_in_block [where rest = "[]"])
    (simp_all add: with_text_def block_def nth_append literal_blocks_def length_literals)

lemma with_text_literals: "literal P = literal_block \<Longrightarrow> literals P (with_text str)"
  by (simp add: literals_in_blocks with_text_def)

lemma demo_simps [simp]: "literal (demo lit p) = lit" "PS1 (demo lit p) = p" "procs (demo lit p) = demo_procs"
  "junk (demo lit p) = (\<lambda>_ _. 7)"
  by (simp_all add: demo_def)

theorem getBuiltInCode_classifies_witness:
  "getBuiltInCode (demo literal_block NULL) (a_command (Ptr 27 0)) (with_text (bytes ''echo'')) = Some 4
    \<and> getBuiltInCode (demo literal_block NULL) (a_command (Ptr 27 0)) (with_text (bytes ''A=1'')) = Some 5
    \<and> getBuiltInCode (demo literal_block NULL) (a_command (Ptr 27 0)) (with_text (bytes ''ls'')) = Some 0"
  using getBuiltInCode_classifies [of "demo literal_block NULL" "with_text (bytes ''echo'')" "a_command (Ptr 27 0)" "bytes ''echo''"]
    getBuiltInCode_classifies [of "demo literal_block NULL" "with_text (bytes ''A=1'')" "a_command (Ptr 27 0)" "bytes ''A=1''"]
    getBuiltInCode_classifies [of "demo literal_block NULL" "with_text (bytes ''ls'')" "a_command (Ptr 27 0)" "bytes ''ls''"]
  by (simp add: with_text with_text_literals a_command_def)

section \<open>Assigning a variable\<close>

text \<open>\<open>q\<close> is not in the object of \<open>p\<close>.\<close>

definition elsewhere :: "ptr \<Rightarrow> ptr \<Rightarrow> bool" where
  "elsewhere p q \<longleftrightarrow> (\<forall>i. q \<noteq> padd p i)"

definition keys_elsewhere :: "ptr \<Rightarrow> environ_vars \<Rightarrow> bool" where
  "keys_elsewhere p vs \<longleftrightarrow> (\<forall>k v. Some (k, v) \<in> set vs \<longrightarrow> elsewhere p k)"

lemma elsewhere_sym: "elsewhere p q \<Longrightarrow> elsewhere q p"
  unfolding elsewhere_def
proof (intro allI notI)
  fix i assume e: "\<forall>i. q \<noteq> padd p i" and "p = padd q i"
  then have "padd p (- i) = q" by simp
  then show False using e by metis
qed

lemma elsewhere_padd: "elsewhere p q \<Longrightarrow> padd q j \<noteq> padd p i"
proof
  assume e: "elsewhere p q" and "padd q j = padd p i"
  then have "padd (padd q j) (- j) = padd p (i - j)" by simp
  then have "q = padd p (i - j)" by simp
  then show False using e unfolding elsewhere_def by blast
qed

lemma cstring_store_elsewhere:
  assumes "cstring m q s" and "store (padd p i) x m = Some m'" and "elsewhere p q"
  shows "cstring m' q s"
  using assms(1) elsewhere_padd [OF assms(3)] by (simp add: cstring_def bytes_at_def load_store [OF assms(2)])

lemma bindings_store_elsewhere:
  assumes "bindings m vs kvs" and "store (padd p i) x m = Some m'" and "keys_elsewhere p vs"
  shows "bindings m' vs kvs"
proof -
  obtain es where es: "vs = map Some es @ replicate (length vs - length es) None"
    and l: "list_all2 (\<lambda>(k, v) (s, w). cstring m k s \<and> v = w) es kvs"
    using assms(1) by (auto simp: bindings_def)
  have k: "elsewhere p k" if "(k, v) \<in> set es" for k v
  proof -
    have "Some (k, v) \<in> set vs" using that by (subst es) auto
    then show ?thesis using assms(3) unfolding keys_elsewhere_def by blast
  qed
  have "list_all2 (\<lambda>(k, v) (s, w). cstring m' k s \<and> v = w) es kvs"
    using l by (rule list.rel_mono_strong) (auto intro: cstring_store_elsewhere [OF _ assms(2) k])
  then show ?thesis using es by (auto simp: bindings_def)
qed

text \<open>Cutting a string in two at one of its characters.\<close>

lemma cut_string:
  assumes "cstring m a (k @ x # v)"
  obtains m1 where "store (padd a (int (length k))) 0 m = Some m1" "cstring m1 a k"
    "cstring m1 (padd a (int (length k) + 1)) v"
proof -
  have an: "a \<noteq> NULL" using cstring_not_null [OF assms] .
  have parts: "0 \<notin> set k" "bytes_at m a k" "cstring m (padd a (int (length k))) (x # v)"
    using assms by (simp_all add: cstring_split)
  then have "valid m (padd a (int (length k)))" by (simp add: cstring_Cons valid_def)
  then obtain m1 where st: "store (padd a (int (length k))) 0 m = Some m1" using valid_store by blast
  note ld = load_store [OF st]
  have "cstring m1 a k"
    using parts(1,2) an by (auto simp: cstring_def bytes_at_def ld nth_append padd_inject)
  moreover have "cstring m1 (padd a (int (length k) + 1)) v"
    using parts(3) an by (simp add: cstring_Cons) (auto simp: cstring_def bytes_at_def ld padd_inject)
  ultimately show ?thesis using that st by blast
qed

definition table_has_room :: "u8 list \<Rightarrow> (u8 list \<times> ptr) list \<Rightarrow> bool" where
  "table_has_room k kvs \<longleftrightarrow> length kvs < 20 \<or> k \<in> fst ` set kvs"

lemma assign_variable:
  assumes a: "cstring m a (k @ x # v)" and k: "length k + 1 < 2 ^ 31"
    and b: "bindings m vs kvs" "length vs = 20" "table_has_room k kvs" "keys_elsewhere a vs"
  obtains m1 vs' m' where "store (padd a (int (length k))) 0 m = Some m1"
    "setenv j a (padd a (int (length k) + 1)) 1 vs m1 = Some (0, vs', m')"
    "bindings m' vs' (put k (padd a (int (length k) + 1)) kvs)" "length vs' = 20"
    "cstring m' a k" "cstring m' (padd a (int (length k) + 1)) v"
    "extends m1 m'" "keys_old_or_new m1 vs vs'"
    "\<And>q t. cstring m q t \<Longrightarrow> elsewhere a q \<Longrightarrow> cstring m' q t"
proof -
  obtain m1 where m1: "store (padd a (int (length k))) 0 m = Some m1" "cstring m1 a k"
    "cstring m1 (padd a (int (length k) + 1)) v" by (rule cut_string [OF a])
  have b1: "bindings m1 vs kvs" using bindings_store_elsewhere [OF b(1) m1(1) b(4)] .
  obtain vs' m' where s: "set_loop j a (padd a (int (length k) + 1)) vs m1 = Some (0, vs', m')"
    "bindings m' vs' (put k (padd a (int (length k) + 1)) kvs)" "extends m1 m'" "length vs' = length vs"
    "keys_old_or_new m1 vs vs'"
    using set_loop_bindings [OF m1(2) k b1, of j "padd a (int (length k) + 1)"] b(2,3) by (auto simp: table_has_room_def)
  then show ?thesis
    using that [of m1 vs' m'] m1 b(2) cstring_extends [OF s(3)] cstring_store_elsewhere [OF _ m1(1)]
    by (simp add: setenv_def)
qed

lemma strchr_found:
  assumes "cstring m p (l @ c # r)" and "c \<notin> set l" and "0x0A \<notin> set l" and "c \<noteq> 0" and "c \<noteq> 0x0A"
  shows "strchr m p c = Some (padd p (int (length l)))"
proof -
  have "takeWhile (\<lambda>x. x \<noteq> 0x0A) (l @ c # r) = l @ c # takeWhile (\<lambda>x. x \<noteq> 0x0A) r"
    using assms(3,5) by (subst takeWhile_append2) auto
  moreover have "takeWhile (\<lambda>x. x \<noteq> c) (l @ c # zs) = l" for zs
    using assms(2) by (subst takeWhile_append2) auto
  ultimately show ?thesis using strchr_cstring [OF assms(1,4,5)] by (simp add: Let_def)
qed

lemma strchr_none:
  "cstring m p s \<Longrightarrow> c \<noteq> 0 \<Longrightarrow> c \<noteq> 0x0A \<Longrightarrow> c \<notin> set s \<Longrightarrow> strchr m p c = Some NULL"
  using strchr_cstring [of m p s c] by (auto simp: Let_def dest: set_takeWhileD)

section \<open>Output\<close>

lemma put_string_log:
  assumes "write_log (io (procs P)) out" and "cstring (memory s) p str" and "length str < 2 ^ 31"
  obtains w where "put_string P p fd s = Some (s\<lparr>world := w\<rparr>)" "out w = out (world s) @ [(fd, str)]"
proof -
  obtain w where "fputs (io (procs P)) (memory s) p fd (world s) = Some (0, w)" "out w = out (world s) @ [(fd, str)]"
    using fputs_log [OF assms] by blast
  then show ?thesis using that by (simp add: put_string_def)
qed

lemma custom_fputs_log:
  assumes "write_log (io (procs P)) out" and "cstring (memory s) p str" and "length str < 2 ^ 31"
  obtains w where "custom_fputs P p fd s = Some (s\<lparr>world := w\<rparr>)" "out w = out (world s) @ [(fd, str)]"
  using put_string_log [OF assms] cstring_not_null [OF assms(2)] by (metis custom_fputs_def)

lemma say_log:
  assumes "write_log (io (procs P)) out" and "literals P (memory s)" and "str \<in> set sbush_literals"
  obtains w where "say P str s = Some (s\<lparr>world := w\<rparr>)" "out w = out (world s) @ [(1, bytes str)]"
proof -
  have "list_all (\<lambda>str. length str < 2 ^ 31) sbush_literals" by (simp add: sbush_literals_def newline_def)
  then have "length (bytes str) < 2 ^ 31" using assms(3) by (simp add: list_all_iff)
  then show ?thesis
    using custom_fputs_log [OF assms(1) literal_string [OF assms(2,3)], of 1] that by (metis say_def)
qed

section \<open>export and echo\<close>

lemma export_one:
  assumes "argumentCount c = 1" and "argument_at c 0 = Some a"
    and a: "cstring (memory s) a (k @ 0x3D # v)" "0x3D \<notin> set k" "0x0A \<notin> set k" and k: "length k + 1 < 2 ^ 31"
    and b: "bindings (memory s) (vars s) kvs" "length (vars s) = 20" "table_has_room k kvs" "keys_elsewhere a (vars s)"
  obtains vs' m' where "executeBuiltInExport P c s = Some (s\<lparr>memory := m', vars := vs'\<rparr>)"
    "bindings m' vs' (put k (padd a (int (length k) + 1)) kvs)" "length vs' = 20"
    "cstring m' (padd a (int (length k) + 1)) v"
    "\<And>q t. cstring (memory s) q t \<Longrightarrow> elsewhere a q \<Longrightarrow> cstring m' q t"
proof -
  obtain m1 vs' m' where r: "store (padd a (int (length k))) 0 (memory s) = Some m1"
    "setenv (junk P) a (padd a (int (length k) + 1)) 1 (vars s) m1 = Some (0, vs', m')"
    "bindings m' vs' (put k (padd a (int (length k) + 1)) kvs)" "length vs' = 20"
    "cstring m' a k" "cstring m' (padd a (int (length k) + 1)) v" "extends m1 m'" "keys_old_or_new m1 (vars s) vs'"
    "\<And>q t. cstring (memory s) q t \<Longrightarrow> elsewhere a q \<Longrightarrow> cstring m' q t"
    by (rule assign_variable [OF a(1) k b, of "junk P"]) blast
  have "strchr (memory s) a 0x3D = Some (padd a (int (length k)))"
    using strchr_found [OF a(1) _ a(3)] a(2) by simp
  moreover have "padd a (int (length k)) \<noteq> NULL" using cstring_not_null [OF a(1)] by (cases a) auto
  ultimately have "executeBuiltInExport P c s = Some (s\<lparr>memory := m', vars := vs'\<rparr>)"
    using assms(1,2) r(1,2) by (simp add: executeBuiltInExport_def)
  then show ?thesis using that r by blast
qed

lemma echo_one:
  assumes "argumentCount d = 1" and "argument_at d 0 = Some e"
    and e: "cstring (memory s) e (l @ 0x24 # k)" "0x24 \<notin> set l" "0x0A \<notin> set l"
    and b: "bindings (memory s) (vars s) kvs" "length (vars s) = 20"
    and v: "found kvs k = p" "cstring (memory s) p v" "length v < 2 ^ 31"
    and P: "write_log (io (procs P)) out" "cstring (memory s) (literal P newline) [0x0A]"
  shows "\<exists>w. executeBuiltInEcho P d s = Some (s\<lparr>world := w\<rparr>) \<and> out w = out (world s) @ [(1, v), (1, [0x0A])]"
proof -
  have "strchr (memory s) e 0x24 = Some (padd e (int (length l)))"
    using strchr_found [OF e(1) _ e(3)] e(2) by simp
  moreover have "padd e (int (length l)) \<noteq> NULL" using cstring_not_null [OF e(1)] by (cases e) auto
  moreover have "cstring (memory s) (padd e (int (length l) + 1)) k" using e(1) by (simp add: cstring_split cstring_Cons)
  then have "getenv (memory s) (padd e (int (length l) + 1)) (vars s) = Some p"
    using getenv_bindings [OF b] v(1) by simp
  moreover obtain w1 where "custom_fputs P p 1 s = Some (s\<lparr>world := w1\<rparr>)" "out w1 = out (world s) @ [(1, v)]"
    by (rule custom_fputs_log [OF P(1) v(2,3)])
  moreover obtain w2 where "say P newline (s\<lparr>world := w1\<rparr>) = Some (s\<lparr>world := w2\<rparr>)" "out w2 = out w1 @ [(1, [0x0A])]"
    using custom_fputs_log [of P out "s\<lparr>world := w1\<rparr>" "literal P newline" "[0x0A]" 1] P by (auto simp: say_def)
  ultimately show ?thesis using assms(1,2) by (intro exI [of _ w2]) (simp add: executeBuiltInEcho_def)
qed

text \<open>\<open>export NAME=VALUE\<close> and then \<open>echo $NAME\<close>. Given room for the variable and the
  argument's array apart from the keys in the table and the echo's own strings, \<open>export\<close>
  succeeds and \<open>echo\<close> prints exactly the value and a newline (and not what precedes the dollar
  sign).\<close>

theorem export_then_echo:
  assumes "argumentCount c = 1" and "argument_at c 0 = Some a"
    and "cstring (memory s) a (k @ 0x3D # v)" and "0x3D \<notin> set k" and "0x0A \<notin> set k" and "length k + 1 < 2 ^ 31"
    and "bindings (memory s) (vars s) kvs" and "length (vars s) = 20" and "table_has_room k kvs"
    and "keys_elsewhere a (vars s)" and "argumentCount d = 1" and "argument_at d 0 = Some e"
    and "cstring (memory s) e (l @ 0x24 # k)" and "0x24 \<notin> set l" and "0x0A \<notin> set l" and "elsewhere a e"
    and "length v < 2 ^ 31" and "write_log (io (procs P)) out"
    and "literals P (memory s)" and "elsewhere a (literal P newline)"
  shows "\<exists>s1 s2. executeBuiltInExport P c s = Some s1 \<and> executeBuiltInEcho P d s1 = Some s2
    \<and> out (world s2) = out (world s) @ [(1, v), (1, [0x0A])]"
proof -
  let ?p = "padd a (int (length k) + 1)"
  obtain vs' m' where x: "executeBuiltInExport P c s = Some (s\<lparr>memory := m', vars := vs'\<rparr>)"
    "bindings m' vs' (put k ?p kvs)" "length vs' = 20" "cstring m' ?p v"
    "\<And>q t. cstring (memory s) q t \<Longrightarrow> elsewhere a q \<Longrightarrow> cstring m' q t"
    by (rule export_one [OF assms(1-10), of P]) blast
  have "found (put k ?p kvs) k = ?p" by (simp add: found_def map_of_put)
  moreover have "cstring m' e (l @ 0x24 # k)" using x(5) assms(13,16) .
  moreover have "cstring m' (literal P newline) [0x0A]"
    using x(5) [OF literal_string [OF assms(19) known_literals(7)] assms(20)] by simp
  ultimately have "\<exists>w. executeBuiltInEcho P d (s\<lparr>memory := m', vars := vs'\<rparr>) = Some (s\<lparr>memory := m', vars := vs', world := w\<rparr>)
      \<and> out w = out (world s) @ [(1, v), (1, [0x0A])]"
    using echo_one [OF assms(11,12), of "s\<lparr>memory := m', vars := vs'\<rparr>" l k "put k ?p kvs" ?p v P out]
      x(2-4) assms(14,15,17,18) by simp
  then show ?thesis using x(1) by auto
qed

definition export_memory :: mem where
  "export_memory = literal_blocks @ [Some (bytes ''A=1'' @ [0]), Some (bytes ''x$A'' @ [0])]"

lemma export_memory:
  "cstring export_memory (Ptr 27 0) (bytes ''A'' @ 0x3D # bytes ''1'')"
  "cstring export_memory (Ptr 28 0) (bytes ''x'' @ 0x24 # bytes ''A'')"
  by (rule cstring_in_block [where rest = "[]"],
      simp_all add: export_memory_def block_def nth_append literal_blocks_def length_literals)+

definition one_argument :: "ptr \<Rightarrow> commandArgument" where
  "one_argument p = \<lparr>trimmedInput = NULL, command = NULL, arguments = Some p # replicate 19 None, isBackground = 0, argumentCount = 1\<rparr>"

theorem export_then_echo_witness:
  "\<exists>s1 s2. executeBuiltInExport (demo literal_block NULL) (one_argument (Ptr 27 0))
      \<lparr>memory = export_memory, vars = replicate 20 None, world = (([], []), [])\<rparr> = Some s1
    \<and> executeBuiltInEcho (demo literal_block NULL) (one_argument (Ptr 28 0)) s1 = Some s2
    \<and> snd (fst (world s2)) = [(1, bytes ''1''), (1, [0x0A])]"
proof -
  let ?s = "\<lparr>memory = export_memory, vars = replicate 20 None, world = (([], []), [])\<rparr> :: demo_os shell"
  have ks: "elsewhere (Ptr 27 0) (literal_block newline)"
    by (simp add: elsewhere_def literal_block_def sbush_literals_def newline_def)
  have lits: "literals (demo literal_block NULL) export_memory"
    unfolding export_memory_def by (rule literals_in_blocks) simp
  show ?thesis
    using export_then_echo [of "one_argument (Ptr 27 0)" "Ptr 27 0" ?s "bytes ''A''" "bytes ''1''" "[]" "one_argument (Ptr 28 0)"
        "Ptr 28 0" "bytes ''x''" "demo literal_block NULL" "snd \<circ> fst"] ks lits demo_io(2) export_memory
    by (simp add: one_argument_def argument_at_def bindings_Nil table_has_room_def keys_elsewhere_def elsewhere_def demo_procs_def)
qed

end
