(* ===== verification/Shell.thy ===== *)
theory Shell
  imports Builtins
begin

text \<open>
  The shell of bin/sbush/sbush.c above its built-in commands: running external commands,
  pipelines, script files and the interactive loop. A script can start another shell script,
  so \<open>executeFile\<close> and the functions that lead to it recur through each other: they take the
  function that executes a file as the parameter \<open>exec\<close>, and \<open>run_file d\<close> is \<open>executeFile\<close>
  with scripts nested at most \<open>d\<close> deep.
\<close>

section \<open>External commands\<close>

text \<open>An array of pointers, \<open>None\<close> where nothing has been stored.\<close>

definition set_at :: "nat \<Rightarrow> 'a \<Rightarrow> 'a list \<Rightarrow> 'a list option" where
  "set_at i x xs = (if i < length xs then Some (xs[i := x]) else None)"

type_synonym 'os runner = "ptr \<Rightarrow> 'os shell \<Rightarrow> (unit, 'os shell) outcome option"

definition build_argv :: "commandArgument \<Rightarrow> ptr option list \<Rightarrow> ptr option list option" where
  "build_argv c argv = do {
     argv \<leftarrow> set_at 0 (Some (command c)) argv;
     argv \<leftarrow> for_list (\<lambda>index argv.
         if index < length (arguments c) then set_at (index + 1) (arguments c ! index) argv else None)
       [0..<argumentCount c + 1] argv;
     set_at (argumentCount c + 2) (Some NULL) argv
   }"

definition prefix_path :: "'os program \<Rightarrow> ptr \<Rightarrow> commandArgument \<Rightarrow> mem \<Rightarrow> mem option" where
  "prefix_path P path c m = do {
     let (buf, m) = new_block (junk P) 100 m;
     (q, m) \<leftarrow> memset buf 0 100 m;
     n \<leftarrow> strlen m (command c);
     (q, m) \<leftarrow> memcpy buf (command c) (of_nat n) m;
     k \<leftarrow> strlen m path;
     (q, m) \<leftarrow> memcpy (command c) path (of_nat k) m;
     k \<leftarrow> strlen m path;
     n \<leftarrow> strlen m buf;
     (q, m) \<leftarrow> memcpy (padd (command c) (int k)) buf (of_nat n) m;
     n \<leftarrow> strlen m (command c);
     store (padd (command c) (int n)) 0 m
   }"

definition setExecutionArguments ::
  "'os program \<Rightarrow> 'os runner \<Rightarrow> ptr option list \<Rightarrow> ptr option list \<Rightarrow> commandArgument \<Rightarrow> 'os shell \<Rightarrow>
     (ptr option list \<times> ptr option list, 'os shell) outcome option" where
  "setExecutionArguments P exec envp argv c s = do {
     path \<leftarrow> getenv (memory s) (literal P ''PATH'') (vars s);
     envp \<leftarrow> set_at 0 (Some path) envp;
     envp \<leftarrow> set_at 1 (Some NULL) envp;
     argv \<leftarrow> build_argv c argv;
     r \<leftarrow> strcmp (memory s) (command c) (literal P ''rootfs/bin/sbush'');
     binary \<leftarrow> (if r \<noteq> 0 then do {
         r \<leftarrow> strcmp (memory s) (command c) (literal P ''rootfs/bin/cat'');
         Some (r \<noteq> 0)
       } else Some False);
     if binary then do {
       m \<leftarrow> prefix_path P path c (memory s);
       Some (Value (envp, argv) (s\<lparr>memory := m\<rparr>))
     }
     else do {
       a \<leftarrow> argument_at c 0;
       andThen (exec a s) (\<lambda>_ s. Some (Value (envp, argv) s))
     }
   }"

definition executeBinaryInBackGround ::
  "'os program \<Rightarrow> 'os runner \<Rightarrow> commandArgument \<Rightarrow> 'os shell \<Rightarrow> (unit, 'os shell) outcome option" where
  "executeBinaryInBackGround P exec c s =
     andThen (setExecutionArguments P exec (replicate 2 None) (replicate (argumentCount c + 2) None) c s)
       (\<lambda>(envp, argv) s. case p_fork (procs P) (world s) of (pid, w) \<Rightarrow>
          if pid = 0 then
            andThen (execvpe P (command c) argv envp (s\<lparr>world := snd (p_setpgid (procs P) 0 0 w)\<rparr>))
              (\<lambda>r s. do { s \<leftarrow> say P (''Unable to run in bg'' @ newline) s; Some (Value () s) })
          else Some (Value () (s\<lparr>world := w\<rparr>)))"

definition executeBinaryInteractively ::
  "'os program \<Rightarrow> 'os runner \<Rightarrow> commandArgument \<Rightarrow> 'os shell \<Rightarrow> (unit, 'os shell) outcome option" where
  "executeBinaryInteractively P exec c s =
     andThen (setExecutionArguments P exec (replicate 2 None) (replicate (argumentCount c + 2) None) c s)
       (\<lambda>(envp, argv) s. case p_fork (procs P) (world s) of (pid, w) \<Rightarrow>
          if pid = 0 then do {
            file_name \<leftarrow> (case argv of [] \<Rightarrow> None | a # _ \<Rightarrow> a);
            andThen (execvpe P file_name argv envp (s\<lparr>world := w\<rparr>))
              (\<lambda>status s. do {
                s \<leftarrow> (if status \<noteq> 0 then say P (''Command not found.'' @ newline) s else Some s);
                Some (Ended s)
              })
          }
          else do {
            s \<leftarrow> waitForProcessExecution P pid (s\<lparr>world := w\<rparr>);
            Some (Value () s)
          })"

definition executeBinary ::
  "'os program \<Rightarrow> 'os runner \<Rightarrow> commandArgument \<Rightarrow> 'os shell \<Rightarrow> (unit, 'os shell) outcome option" where
  "executeBinary P exec c s =
     (if isBackground c \<noteq> 0 then executeBinaryInBackGround P exec c s else executeBinaryInteractively P exec c s)"

definition executeCommand ::
  "'os program \<Rightarrow> 'os runner \<Rightarrow> commandArgument \<Rightarrow> 'os shell \<Rightarrow> (unit, 'os shell) outcome option" where
  "executeCommand P exec c s = do {
     builtInCode \<leftarrow> getBuiltInCode P c (memory s);
     if builtInCode \<noteq> 0 then do {
       s \<leftarrow> (if builtInCode = 1 then executeBuiltInCd P c s
          else if builtInCode = 2 then executeBuiltInPwd P c s
          else if builtInCode = 3 then executeBuiltInExport P c s
          else if builtInCode = 4 then executeBuiltInEcho P c s
          else if builtInCode = 5 then executeBuiltInWithoutExport P c s
          else do { s \<leftarrow> say P ''BuiltIn is not implemented'' s; say P newline s });
       Some (Value () s)
     }
     else executeBinary P exec c s
   }"

section \<open>Pipelines\<close>

partial_function (option) count_loop :: "mem \<Rightarrow> ptr \<Rightarrow> nat \<Rightarrow> nat option" where
  "count_loop m input count = do {
     x \<leftarrow> load m input;
     if x = 0 then Some count else count_loop m (padd input 1) (if x = 0x7C then count + 1 else count)
   }"

definition countNumberOfPipes :: "mem \<Rightarrow> ptr \<Rightarrow> nat option" where
  "countNumberOfPipes m input = count_loop m input 0"

text \<open>One round of \<open>parsePipeCommand\<close>; its state is \<open>prev\<close>, the commands so far and the memory.\<close>

definition pipe_step ::
  "'os program \<Rightarrow> ptr \<times> commandArgument option list \<times> mem \<Rightarrow> (ptr \<times> commandArgument option list \<times> mem) option" where
  "pipe_step P st = (case st of (prev, c_Args, m) \<Rightarrow> do {
     next_bar \<leftarrow> strchr m prev 0x7C;
     m \<leftarrow> (if next_bar \<noteq> NULL then store next_bar 0 m else Some m);
     (c, m) \<leftarrow> parseInput (junk P) prev 0x20 m;
     if next_bar \<noteq> NULL then Some (padd next_bar 1, c_Args @ [c], m)
     else do {
       next_end \<leftarrow> strchr m prev 0;
       Some (padd next_end 1, c_Args @ [c], m)
     }
   })"

definition parsePipeCommand :: "'os program \<Rightarrow> nat \<Rightarrow> ptr \<Rightarrow> mem \<Rightarrow> (commandArgument option list \<times> mem) option" where
  "parsePipeCommand P numOfPipes input m = do {
     (prev, c_Args, m) \<leftarrow> for_list (\<lambda>i. pipe_step P) [0..<numOfPipes + 1] (input, [], m);
     Some (c_Args, m)
   }"

text \<open>Both loops run over the indices up to \<open>numOfPipes\<close>, that is over the whole array.\<close>

fun isValidateParsedPipeInput :: "mem \<Rightarrow> commandArgument option list \<Rightarrow> bool option" where
  "isValidateParsedPipeInput m [] = Some True"
| "isValidateParsedPipeInput m (None # c_Args) = None"
| "isValidateParsedPipeInput m (Some c # c_Args) = do {
     n \<leftarrow> strlen m (command c);
     if n = 0 then Some False else isValidateParsedPipeInput m c_Args
   }"

definition freeAllParsedCommandArguments :: "commandArgument option list \<Rightarrow> mem \<Rightarrow> mem option" where
  "freeAllParsedCommandArguments c_Args m =
     for_list (\<lambda>c m. case c of None \<Rightarrow> Some m | Some c \<Rightarrow> freeCommandArgument c m) c_Args m"

function runPiping ::
  "'os program \<Rightarrow> 'os runner \<Rightarrow> commandArgument option list \<Rightarrow> nat \<Rightarrow> nat \<Rightarrow> i32 \<Rightarrow> 'os shell \<Rightarrow>
     (unit, 'os shell) outcome option" where
  "runPiping P exec c_Args numberOfCommands currentCommandIndex file_desc s =
     (if currentCommandIndex + 1 \<le> numberOfCommands then
        if currentCommandIndex + 1 = numberOfCommands then do {
          s \<leftarrow> duplicateFileDescriptorsFromInputToOutput P file_desc 0 s;
          c \<leftarrow> (if currentCommandIndex < length c_Args then c_Args ! currentCommandIndex else None);
          andThen (executeBinary P exec c s) (\<lambda>_ s. Some (gracefulExit s))
        }
        else case p_pipe (procs P) (world s) of (r, fd, w) \<Rightarrow> do {
          s \<leftarrow> (if r = -1 then say P ''Error while creating pipe'' (s\<lparr>world := w\<rparr>) else Some (s\<lparr>world := w\<rparr>));
          case p_fork (procs P) (world s) of (pid, w) \<Rightarrow>
            let s = s\<lparr>world := w\<rparr>
            in if pid = -1 then do {
              s \<leftarrow> say P ''Some error occured while forking'' s;
              s \<leftarrow> say P newline s;
              Some (gracefulExit s)
            }
            else if pid = 0 then do {
              (fd0, fd1) \<leftarrow> fd;
              s \<leftarrow> duplicateFileDescriptorsFromInputToOutput P file_desc 0
                (s\<lparr>world := snd (p_close (procs P) fd0 (world s))\<rparr>);
              s \<leftarrow> duplicateFileDescriptorsFromInputToOutput P fd1 1 s;
              c \<leftarrow> (if currentCommandIndex < length c_Args then c_Args ! currentCommandIndex else None);
              andThen (executeBinary P exec c s) (\<lambda>_ s. Some (gracefulExit s))
            }
            else do {
              (fd0, fd1) \<leftarrow> fd;
              runPiping P exec c_Args numberOfCommands (currentCommandIndex + 1) fd0
                (s\<lparr>world := snd (p_close (procs P) fd1 (world s))\<rparr>)
            }
        }
      else Some (Value () s))"
  by pat_completeness auto

termination
  by (relation "measure (\<lambda>(P, exec, c_Args, n, i, fd, s). n - i)") auto

declare runPiping.simps [simp del]

section \<open>Command lines\<close>

definition execute_pipeline ::
  "'os program \<Rightarrow> 'os runner \<Rightarrow> ptr \<Rightarrow> 'os shell \<Rightarrow> (unit, 'os shell) outcome option" where
  "execute_pipeline P exec input s = do {
     numOfPipes \<leftarrow> countNumberOfPipes (memory s) input;
     (c_Args, m) \<leftarrow> parsePipeCommand P numOfPipes input (memory s);
     let s = s\<lparr>memory := m\<rparr>;
     ok \<leftarrow> isValidateParsedPipeInput m c_Args;
     andThen
       (if ok then case p_fork (procs P) (world s) of (c_pid, w) \<Rightarrow>
          if c_pid = 0 then
            andThen (runPiping P exec c_Args (numOfPipes + 1) 0 0 (s\<lparr>world := w\<rparr>)) (\<lambda>_ s. Some (Ended s))
          else do {
            s \<leftarrow> waitForProcessExecution P c_pid (s\<lparr>world := w\<rparr>);
            Some (Value () s)
          }
        else do {
          s \<leftarrow> say P ''Invalid pipe syntex. Try Again'' s;
          s \<leftarrow> say P newline s;
          Some (Value () s)
        })
       (\<lambda>_ s. do {
          m \<leftarrow> freeAllParsedCommandArguments c_Args (memory s);
          Some (Value () (s\<lparr>memory := m\<rparr>))
        })
   }"

definition parseAndExecuteCommand ::
  "'os program \<Rightarrow> 'os runner \<Rightarrow> ptr \<Rightarrow> 'os shell \<Rightarrow> (unit, 'os shell) outcome option" where
  "parseAndExecuteCommand P exec input s = do {
     ch \<leftarrow> strchr (memory s) input 0x7C;
     if ch \<noteq> NULL then execute_pipeline P exec input s
     else do {
       (c, m) \<leftarrow> parseInput (junk P) input 0x20 (memory s);
       c \<leftarrow> c;
       andThen (executeCommand P exec c (s\<lparr>memory := m\<rparr>)) (\<lambda>_ s. do {
         m \<leftarrow> freeCommandArgument c (memory s);
         Some (Value () (s\<lparr>memory := m\<rparr>))
       })
     }
   }"

section \<open>Script files\<close>

text \<open>\<open>currentLine == NULL || strlen(currentLine) == 0 || *currentLine == 0 || *currentLine == '\n'\<close>\<close>

definition no_line :: "mem \<Rightarrow> ptr \<Rightarrow> bool option" where
  "no_line m currentLine = (if currentLine = NULL then Some True
     else do {
       n \<leftarrow> strlen m currentLine;
       x \<leftarrow> load m currentLine;
       Some (n = 0 \<or> x = 0 \<or> x = 0x0A)
     })"

definition get_line :: "'os program \<Rightarrow> ptr \<Rightarrow> i32 \<Rightarrow> i32 \<Rightarrow> 'os shell \<Rightarrow> (ptr \<times> 'os shell) option" where
  "get_line P buf n fp s = do {
     (p, m, w) \<leftarrow> fgets (io (procs P)) buf n fp (memory s) (world s);
     Some (p, s\<lparr>memory := m, world := w\<rparr>)
   }"

partial_function (option) script_loop ::
  "'os program \<Rightarrow> 'os runner \<Rightarrow> i32 \<Rightarrow> ptr \<Rightarrow> ptr \<Rightarrow> 'os shell \<Rightarrow> (unit, 'os shell) outcome option" where
  "script_loop P exec fp line currentLine s = do {
     stop \<leftarrow> no_line (memory s) currentLine;
     if stop then Some (Value () s)
     else do {
       (q, m) \<leftarrow> memset line 0 150 (memory s);
       (currentLine, s) \<leftarrow> get_line P line 150 fp (s\<lparr>memory := m\<rparr>);
       skip \<leftarrow> no_line (memory s) currentLine;
       if skip then script_loop P exec fp line currentLine s
       else do {
         r \<leftarrow> parseAndExecuteCommand P exec currentLine s;
         case r of Ended s \<Rightarrow> Some (Ended s)
         | Value _ s \<Rightarrow> script_loop P exec fp line currentLine s
       }
     }
   }"

definition executeFile :: "'os program \<Rightarrow> 'os runner \<Rightarrow> 'os runner" where
  "executeFile P exec file_path s = do {
     (fp, s) \<leftarrow> fopen P file_path (literal P ''r'') s;
     let (line, m) = new_block (junk P) 150 (memory s);
     let (newLine, m) = new_block (junk P) 150 m;
     (q, m) \<leftarrow> memset newLine 0 150 m;
     path \<leftarrow> getenv m (literal P ''PATH'') (vars s);
     let envp = [Some path, Some NULL];
     (currentLine, s) \<leftarrow> get_line P line 150 fp (s\<lparr>memory := m\<rparr>);
     n \<leftarrow> strlen (memory s) currentLine;
     m \<leftarrow> store (padd currentLine (int n - 1)) 0 (memory s);
     r \<leftarrow> strcmp m currentLine (literal P ''#!rootfs/bin/sbush'');
     let isSbush = (r = 0);
     let (q, s) = fclose P fp (s\<lparr>memory := m\<rparr>);
     x0 \<leftarrow> load (memory s) line;
     script \<leftarrow> (if x0 = 0x23 then do { x1 \<leftarrow> load (memory s) (padd line 1); Some (x1 = 0x21) } else Some False);
     if \<not> script then Some (Value () s)
     else if isSbush then do {
       (fp1, s) \<leftarrow> fopen P file_path (literal P ''r'') s;
       (currentLine, s) \<leftarrow> get_line P line 150 fp1 s;
       andThen (script_loop P exec fp1 line currentLine s) (\<lambda>_ s. Some (Value () (snd (fclose P fp1 s))))
     }
     else andThen (execvpe P (padd line 2) [Some (padd line 2), Some file_path, Some NULL] envp s) (\<lambda>status s. do {
       s \<leftarrow> (if status \<noteq> 0 then say P (''Error while executing other shell '' @ newline) s else Some s);
       Some (Value () s)
     })
   }"

fun run_file :: "'os program \<Rightarrow> nat \<Rightarrow> 'os runner" where
  "run_file P 0 = (\<lambda>file_path s. None)"
| "run_file P (Suc d) = executeFile P (run_file P d)"

section \<open>The interactive loop\<close>

abbreviation (input) BUFFER_SIZE :: "'a :: numeral" where "BUFFER_SIZE \<equiv> 1000"

partial_function (option) interactive ::
  "'os program \<Rightarrow> 'os runner \<Rightarrow> ptr \<Rightarrow> 'os shell \<Rightarrow> (i32, 'os shell) outcome option" where
  "interactive P exec buffer s = do {
     s \<leftarrow> custom_fputs P (PS1 P) 1 s;
     (q, m) \<leftarrow> memset buffer 0 BUFFER_SIZE (memory s);
     (input, s) \<leftarrow> get_line P buffer BUFFER_SIZE 0 (s\<lparr>memory := m\<rparr>);
     again \<leftarrow> (if input = NULL then Some True else do { x \<leftarrow> load (memory s) input; Some (x = 0x0A) });
     if again then interactive P exec buffer s
     else do {
       r \<leftarrow> strcmp (memory s) input (literal P (''exit'' @ newline));
       if r = 0 then do {
         s \<leftarrow> say P ''Exiting as requested'' s;
         s \<leftarrow> say P newline s;
         Some (Value 1 s)
       }
       else do {
         r \<leftarrow> parseAndExecuteCommand P exec input s;
         case r of Ended s \<Rightarrow> Some (Ended s) | Value _ s \<Rightarrow> interactive P exec buffer s
       }
     }
   }"

text \<open>The command that \<open>main\<close> builds from the first string of its environment. The field
  \<open>arguments\<close> stays unset but for its second entry.\<close>

definition environment_command :: "'os program \<Rightarrow> ptr \<Rightarrow> mem \<Rightarrow> (commandArgument \<times> mem) option" where
  "environment_command P env0 m = do {
     n \<leftarrow> strlen m env0;
     let (cmd, m) = new_block (junk P) (n + 1) m;
     (q, m) \<leftarrow> memset cmd 0 (of_nat (n + 1)) m;
     (q, m) \<leftarrow> memcpy cmd env0 (of_nat n) m;
     Some (\<lparr>trimmedInput = NULL, command = cmd, arguments = (replicate 20 None)[1 := Some NULL],
            isBackground = 0, argumentCount = 0\<rparr>, m)
   }"

definition shell_main ::
  "'os program \<Rightarrow> nat \<Rightarrow> nat \<Rightarrow> ptr list \<Rightarrow> ptr \<Rightarrow> 'os shell \<Rightarrow> (i32, 'os shell) outcome option" where
  "shell_main P depth argc argv env0 s = do {
     (c, m) \<leftarrow> environment_command P env0 (memory s);
     andThen (executeCommand P (run_file P depth) c (s\<lparr>memory := m\<rparr>)) (\<lambda>_ s.
       if argc = 1 then
         let (buffer, m) = new_block (junk P) BUFFER_SIZE (memory s)
         in interactive P (run_file P depth) buffer (s\<lparr>memory := m\<rparr>)
       else if 1 < argc then do {
         file_path \<leftarrow> (if 1 < length argv then Some (argv ! 1) else None);
         andThen (run_file P depth file_path s) (\<lambda>_ s. Some (Value 0 s))
       }
       else Some (Value 0 s))
   }"

section \<open>Entry\<close>

text \<open>\<open>_start\<close> of crt/crt1.c.\<close>

definition user_start :: "'os program \<Rightarrow> nat \<Rightarrow> 'os shell \<Rightarrow> (unit, 'os shell) outcome option" where
  "user_start P depth s =
     andThen (shell_main P depth 1 [literal P ''Makefile''] (literal P ''PATH=/bin/'') s) (\<lambda>r s. Some (Ended s))"

section \<open>The argument vector\<close>

lemma argv_loop:
  "for_list (\<lambda>index argv.
      if index < length as then set_at (index + 1) (as ! index) argv else None) [0..<n] argv =
    (if n \<le> length as \<and> (n = 0 \<or> n < length argv)
     then Some (take 1 argv @ take n as @ drop (n + 1) argv) else None)"
proof (induction n)
  case 0
  show ?case by simp
next
  case (Suc n)
  show ?case
  proof (cases "Suc n \<le> length as \<and> Suc n < length argv")
    case True
    then have "drop (n + 1) argv = argv ! (n + 1) # drop (n + 2) argv" by (simp add: Cons_nth_drop_Suc)
    moreover have "length (take 1 argv) = 1" using True by simp
    ultimately have "(take 1 argv @ take n as @ drop (n + 1) argv)[n + 1 := as ! n]
        = take 1 argv @ (take n as @ [as ! n]) @ drop (n + 2) argv"
      using True by (simp add: list_update_append)
    then show ?thesis using Suc True by (auto simp: for_list_append set_at_def take_Suc_conv_app_nth)
  next
    case False
    then show ?thesis using Suc by (auto simp: for_list_append set_at_def)
  qed
qed

lemma build_argv_value:
  "build_argv c argv =
    (if argumentCount c + 3 \<le> length argv \<and> argumentCount c < length (arguments c)
     then Some (Some (command c) # take (argumentCount c + 1) (arguments c) @ Some NULL # drop (argumentCount c + 3) argv)
     else None)"
proof (cases argv)
  case Nil
  then show ?thesis by (simp add: build_argv_def set_at_def)
next
  case (Cons a as)
  have s0: "set_at 0 (Some (command c)) argv = Some (Some (command c) # as)" using Cons by (simp add: set_at_def)
  show ?thesis
  proof (cases "argumentCount c + 1 \<le> length (arguments c) \<and> argumentCount c + 1 < length argv")
    case True
    let ?n = "argumentCount c"
    have l: "for_list (\<lambda>index argv.
        if index < length (arguments c) then set_at (index + 1) (arguments c ! index) argv else None)
        [0..<?n + 1] (Some (command c) # as) = Some (Some (command c) # take (?n + 1) (arguments c) @ drop (?n + 1) as)"
      using argv_loop [of "arguments c" "?n + 1" "Some (command c) # as"] True Cons by simp
    show ?thesis
    proof (cases "?n + 3 \<le> length argv")
      case True': True
      then have "drop (?n + 1) as = as ! (?n + 1) # drop (?n + 2) as" using Cons by (simp add: Cons_nth_drop_Suc)
      then show ?thesis unfolding build_argv_def s0 using True True' Cons l
        by (simp add: set_at_def list_update_append min_absorb2 numeral_3_eq_3)
    next
      case False
      then show ?thesis unfolding build_argv_def s0 using True Cons l by (simp add: set_at_def min_absorb2)
    qed
  next
    case False
    then show ?thesis unfolding build_argv_def s0
      using argv_loop [of "arguments c" "argumentCount c + 1" "Some (command c) # as"] Cons by auto
  qed
qed

text \<open>The argument vector of an external command with \<open>n\<close> arguments. Building it is defined
  exactly if the array has \<open>n + 3\<close> places and the command one more argument slot than it uses;
  it then holds the command, the \<open>n\<close> arguments, the next slot (which has not been set, so the
  list the program gets does not end where it should) and a null pointer.\<close>

theorem build_argv_exactly:
  "build_argv c argv =
    (if argumentCount c + 3 \<le> length argv \<and> argumentCount c < length (arguments c)
     then Some (Some (command c) # take (argumentCount c + 1) (arguments c) @ Some NULL # drop (argumentCount c + 3) argv)
     else None)"
  by (rule build_argv_value)

text \<open>No external command gets as far as its \<open>fork\<close>: the array the shell gives it is one place
  too small.\<close>

lemma setExecutionArguments_overflows:
  "length argv < argumentCount c + 3 \<Longrightarrow> setExecutionArguments P exec envp argv c s = None"
  by (simp add: setExecutionArguments_def build_argv_value)

lemma executeBinary_overflows: "executeBinary P exec c s = None"
  by (simp add: executeBinary_def executeBinaryInBackGround_def executeBinaryInteractively_def
      setExecutionArguments_overflows)

end
