(* ===== verification/Lines.thy ===== *)
theory Lines
  imports Shell
begin

text \<open>
  What the shell of bin/sbush does with whole command lines: the composition of the parser,
  the built-in commands, the environment and the freeing of the parsed command.
\<close>

section \<open>Assignments\<close>

lemma without_export:
  assumes a: "cstring (memory s) (command c) (k @ 0x3D # v)" "0x3D \<notin> set k" "0x0A \<notin> set k" "length k + 1 < 2 ^ 31"
    and ps1: "k \<noteq> bytes ''PS1''"
    and b: "bindings (memory s) (vars s) kvs" "length (vars s) = 20" "table_has_room k kvs" "keys_elsewhere (command c) (vars s)"
    and P: "cstring (memory s) (literal P ''PS1'') (bytes ''PS1'')" "elsewhere (command c) (literal P ''PS1'')"
    and n: "argumentCount c = 0"
  obtains m1 vs' m' where "executeBuiltInWithoutExport P c s = Some (s\<lparr>memory := m', vars := vs'\<rparr>)"
    "store (padd (command c) (int (length k))) 0 (memory s) = Some m1"
    "bindings m' vs' (put k (padd (command c) (int (length k) + 1)) kvs)" "length vs' = 20"
    "cstring m' (command c) k" "cstring m' (padd (command c) (int (length k) + 1)) v"
    "extends m1 m'" "keys_old_or_new m1 (vars s) vs'"
    "\<And>q t. cstring (memory s) q t \<Longrightarrow> elsewhere (command c) q \<Longrightarrow> cstring m' q t"
proof -
  let ?a = "command c"
  obtain m1 vs' m' where r: "store (padd ?a (int (length k))) 0 (memory s) = Some m1"
    "setenv (junk P) ?a (padd ?a (int (length k) + 1)) 1 (vars s) m1 = Some (0, vs', m')"
    "bindings m' vs' (put k (padd ?a (int (length k) + 1)) kvs)" "length vs' = 20"
    "cstring m' ?a k" "cstring m' (padd ?a (int (length k) + 1)) v" "extends m1 m'" "keys_old_or_new m1 (vars s) vs'"
    "\<And>q t. cstring (memory s) q t \<Longrightarrow> elsewhere ?a q \<Longrightarrow> cstring m' q t"
    by (rule assign_variable [OF a(1,4) b, of "junk P"]) blast
  have "strchr (memory s) ?a 0x3D = Some (padd ?a (int (length k)))"
    using strchr_found [OF a(1) _ a(3)] a(2) by simp
  moreover have "padd ?a (int (length k)) \<noteq> NULL" using cstring_not_null [OF a(1)] by (cases ?a) auto
  moreover have "cstring m' (literal P ''PS1'') (bytes ''PS1'')" using r(9) [OF P] .
  then obtain x where "strcmp m' ?a (literal P ''PS1'') = Some x" "x \<noteq> 0"
    using strcmp_eq_0 [OF r(5)] ps1 by blast
  ultimately have "executeBuiltInWithoutExport P c s = Some (s\<lparr>memory := m', vars := vs'\<rparr>)"
    using r(1,2) n by (simp add: executeBuiltInWithoutExport_def executeBuiltInExport_def)
  then show ?thesis using that r by blast
qed

lemma new_elsewhere: "new_to m p \<Longrightarrow> load m q = Some x \<Longrightarrow> elsewhere p q"
  by (simp add: new_to_def elsewhere_def)

lemma bindings_key_loaded: "bindings m vs kvs \<Longrightarrow> Some (k, v) \<in> set vs \<Longrightarrow> load m k \<noteq> None"
proof -
  assume "bindings m vs kvs" and k: "Some (k, v) \<in> set vs"
  then obtain es where es: "vs = map Some es @ replicate (length vs - length es) None"
    and l: "list_all2 (\<lambda>(k, v) (s, w). cstring m k s \<and> v = w) es kvs" by (auto simp: bindings_def)
  have "(k, v) \<in> set es" using k by (subst (asm) es) auto
  then obtain s where "cstring m k s" using l by (fastforce simp: list_all2_conv_all_nth in_set_conv_nth)
  from cstring_head [OF this] show ?thesis by simp
qed

lemma keys_elsewhere_new: "bindings m vs kvs \<Longrightarrow> new_to m p \<Longrightarrow> keys_elsewhere p vs"
  unfolding keys_elsewhere_def using bindings_key_loaded new_elsewhere by blast

lemma keys_elsewhere_old_or_new:
  assumes "keys_old_or_new m vs vs'" and "keys_elsewhere p vs" and "load m p \<noteq> None"
  shows "keys_elsewhere p vs'"
  unfolding keys_elsewhere_def
proof (intro allI impI)
  fix k v assume "Some (k, v) \<in> set vs'"
  then consider w where "Some (k, w) \<in> set vs" | "\<forall>q x i. load m q = Some x \<longrightarrow> q \<noteq> padd k i"
    using assms(1) unfolding keys_old_or_new_def by blast
  then show "elsewhere p k"
  proof cases
    case 1
    then show ?thesis using assms(2) unfolding keys_elsewhere_def by blast
  next
    case 2
    obtain x where "load m p = Some x" using assms(3) by blast
    then have ne: "p \<noteq> padd k i" for i using 2 by blast
    show ?thesis unfolding elsewhere_def
    proof
      fix i show "k \<noteq> padd p i"
      proof
        assume "k = padd p i"
        then have "p = padd k (- i)" by simp
        then show False using ne by blast
      qed
    qed
  qed
qed

text \<open>A table whose keys are not in the two freed blocks is the same after freeing.\<close>

lemma bindings_after_free:
  assumes b: "bindings m vs kvs" and k: "keys_elsewhere p vs" "keys_elsewhere q vs"
    and l: "\<And>b off. load m' (Ptr b off) = (if Ptr b 0 = p \<or> Ptr b 0 = q then None else load m (Ptr b off))"
  shows "bindings m' vs kvs"
proof -
  obtain es where es: "vs = map Some es @ replicate (length vs - length es) None"
    and li: "list_all2 (\<lambda>(k, v) (s, w). cstring m k s \<and> v = w) es kvs"
    using b by (auto simp: bindings_def)
  have "cstring m' k s" if "(k, v) \<in> set es" and c: "cstring m k s" for k v s
  proof -
    have "Some (k, v) \<in> set vs" using that(1) by (subst es) auto
    then have e: "elsewhere p k" "elsewhere q k" using k unfolding keys_elsewhere_def by blast+
    have "load m' (padd k i) = load m (padd k i)" for i
    proof (cases k)
      case NULL
      then show ?thesis using cstring_not_null [OF c] by simp
    next
      case (Ptr b off)
      then have "Ptr b 0 \<noteq> p" "Ptr b 0 \<noteq> q"
        using e unfolding elsewhere_def by (metis add_0 padd.simps(2))+
      then show ?thesis using Ptr l by (simp del: load.simps)
    qed
    then show ?thesis using c by (simp add: cstring_def bytes_at_def)
  qed
  then have "list_all2 (\<lambda>(k, v) (s, w). cstring m' k s \<and> v = w) es kvs"
    using li by (elim list.rel_mono_strong) auto
  then show ?thesis using es by (auto simp: bindings_def)
qed

lemma extends_after_free:
  assumes "extends m m1" and "new_to m p" and "new_to m q"
    and "\<And>b off. load m2 (Ptr b off) = (if Ptr b 0 = p \<or> Ptr b 0 = q then None else load m1 (Ptr b off))"
  shows "extends m m2"
  unfolding extends_def
proof (intro allI impI)
  fix a x assume a: "load m a = Some x"
  then obtain b off where ab: "a = Ptr b off" by (cases a) auto
  have "Ptr b off \<noteq> padd p off" "Ptr b off \<noteq> padd q off" using a assms(2,3) ab by (auto simp: new_to_def simp del: load.simps)
  then have "Ptr b 0 \<noteq> p" "Ptr b 0 \<noteq> q" by auto
  moreover have "load m1 a = Some x" using assms(1) a by (simp only: extends_def)
  ultimately show "load m2 a = Some x" using assms(4) [of b off] ab by simp
qed

lemma assignment_code:
  assumes "literals P m" and "cstring m (command c) (k @ 0x3D # v)" and "0x0A \<notin> set k"
  shows "getBuiltInCode P c m = Some 5"
proof -
  have "0x3D \<in> set (takeWhile (\<lambda>x. x \<noteq> 0x0A) (k @ 0x3D # v))"
    using assms(3) by (subst takeWhile_append2) auto
  moreover have "k @ 0x3D # v \<noteq> w" if "0x3D \<notin> set w" for w using that by auto
  ultimately show ?thesis using getBuiltInCode_value [OF assms(1,2)] by simp
qed

lemma assignment_line:
  assumes lits: "literals P (memory s)" and str: "cstring (memory s) input str" "0x7C \<notin> set str"
    and l: "line_words 0x20 str (k @ 0x3D # v) []" and k: "0x3D \<notin> set k" "0x0A \<notin> set k" "k \<noteq> bytes ''PS1''"
    and b: "bindings (memory s) (vars s) kvs" "length (vars s) = 20" "table_has_room k kvs"
  obtains s' p where "parseAndExecuteCommand P exec input s = Some (Value () s')" "world s' = world s"
    "bindings (memory s') (vars s') (put k p kvs)" "length (vars s') = 20" "load (memory s') p = None"
    "extends (memory s) (memory s')"
    "\<And>q. keys_elsewhere q (vars s) \<Longrightarrow> load (memory s) q \<noteq> None \<Longrightarrow> keys_elsewhere q (vars s')"
proof -
  have len: "length k + 1 < 2 ^ 31" using l by (simp add: line_words_def)
  have "strchr (memory s) input 0x7C = Some NULL" using strchr_none [OF str(1)] str(2) by simp
  moreover obtain c m where p: "parseInput (junk P) input 0x20 (memory s) = Some (Some c, m)"
    "parsed (memory s) c m (k @ 0x3D # v) []" "isBackground c = background str"
    by (rule parseInput_line [OF _ str(1) l]) simp
  note pf = p(2) [unfolded parsed_def]
  let ?s = "s\<lparr>memory := m\<rparr>" and ?a = "command c"
  have e: "extends (memory s) m" and cs: "cstring (memory ?s) ?a (k @ 0x3D # v)" and n: "argumentCount c = 0"
    using pf by simp_all
  have lm: "literals P (memory ?s)" using literals_extends [OF lits e] by simp
  have bm: "bindings (memory ?s) (vars ?s) kvs" using bindings_extends [OF e b(1)] by simp
  have ka: "keys_elsewhere ?a (vars s)" "keys_elsewhere (trimmedInput c) (vars s)"
    using keys_elsewhere_new [OF b(1)] pf by auto
  have ps1: "elsewhere ?a (literal P ''PS1'')"
    using cstring_head [OF literal_string [OF lits known_literals(5)]] new_elsewhere pf by blast
  obtain m1 vs' m' where w: "executeBuiltInWithoutExport P c ?s = Some (?s\<lparr>memory := m', vars := vs'\<rparr>)"
    "store (padd ?a (int (length k))) 0 (memory ?s) = Some m1"
    "bindings m' vs' (put k (padd ?a (int (length k) + 1)) kvs)" "length vs' = 20" "cstring m' ?a k"
    "cstring m' (padd ?a (int (length k) + 1)) v" "extends m1 m'" "keys_old_or_new m1 (vars ?s) vs'"
    "\<And>q t. cstring (memory ?s) q t \<Longrightarrow> elsewhere ?a q \<Longrightarrow> cstring m' q t"
    by (rule without_export [OF cs k(1,2) len k(3) bm _ b(3) _ literal_string [OF lm known_literals(5)] ps1 n])
      (use b(2) ka in auto)
  have ex: "executeCommand P exec c ?s = Some (Value () (?s\<lparr>memory := m', vars := vs'\<rparr>))"
    using assignment_code [OF lm cs k(2)] w(1) by (simp add: executeCommand_def)
  have l1: "load m1 ?a \<noteq> None" "load m1 (trimmedInput c) \<noteq> None"
    using cstring_head [OF cs] pf valid_after_store [OF w(2)] by (auto simp: valid_def)
  then have l2: "load m' (trimmedInput c) \<noteq> None" using w(7) by (auto simp: extends_def)
  have ke: "keys_elsewhere ?a vs'" "keys_elsewhere (trimmedInput c) vs'"
    using keys_elsewhere_old_or_new [OF w(8)] ka l1 by auto
  obtain m2 where f: "freeCommandArgument c m' = Some m2"
    "\<And>b off. load m2 (Ptr b off) = (if Ptr b 0 = trimmedInput c \<or> Ptr b 0 = ?a then None else load m' (Ptr b off))"
    using free_parsed [of c m' k "[]" 0] pf l2 w(5) l n by (auto simp: holds_words_def line_words_def)
  obtain b2 where a: "?a = Ptr b2 0" using pf by (auto simp: whole_blocks_def)
  have bf: "bindings m2 vs' (put k (padd ?a (int (length k) + 1)) kvs)"
    by (rule bindings_after_free [OF w(3) ke(2,1) f(2)])
  have "load m2 (padd ?a (int (length k) + 1)) = None" using f(2) a by (simp del: load.simps)
  moreover have "parseAndExecuteCommand P exec input s = Some (Value () (?s\<lparr>memory := m2, vars := vs'\<rparr>))"
    using \<open>strchr (memory s) input 0x7C = Some NULL\<close> p(1) ex f(1) by (simp add: parseAndExecuteCommand_def)
  moreover have e1: "extends (memory s) m1" by (rule extends_store [OF e _ w(2) [simplified]]) (use pf in auto)
  have "extends (memory s) m2"
    by (rule extends_after_free [OF extends_trans [OF e1 w(7)] _ _ f(2)]) (use pf in auto)
  moreover have "keys_elsewhere q vs'" if "keys_elsewhere q (vars s)" "load (memory s) q \<noteq> None" for q
  proof -
    have "load m1 q \<noteq> None" using that(2) e1 by (auto simp: extends_def)
    then show ?thesis using keys_elsewhere_old_or_new [OF w(8)] that(1) by simp
  qed
  ultimately show ?thesis using that [of "?s\<lparr>memory := m2, vars := vs'\<rparr>"] bf w(4) by simp
qed


definition assignment_text :: "u8 list" where
  "assignment_text = bytes ''A=12'' @ [0x0A]"


section \<open>External commands\<close>

text \<open>C15: External commands. A line (without a bar) whose command is none of the built-in ones
  and has no equals sign has no defined result: the shell overruns the argument vector it
  builds before it forks, with any number of arguments, in the foreground and the background.
  And so does every command run on its own or as the last of a pipeline.\<close>

theorem external_commands_undefined:
  assumes "literals P (memory s)" and "cstring (memory s) input str" and "0x7C \<notin> set str"
    and "line_words 0x20 str w0 ws" and "w0 \<notin> {bytes ''cd'', bytes ''pwd'', bytes ''export'', bytes ''echo''}"
    and "0x3D \<notin> set w0"
  shows "parseAndExecuteCommand P exec input s = None \<and> (\<forall>c s'. executeBinary P exec c s' = None)"
proof -
  have "strchr (memory s) input 0x7C = Some NULL" using strchr_none [OF assms(2)] assms(3) by simp
  moreover obtain c m where p: "parseInput (junk P) input 0x20 (memory s) = Some (Some c, m)"
    "parsed (memory s) c m w0 ws" "isBackground c = background str"
    by (rule parseInput_line [OF _ assms(2,4)]) simp
  have "literals P m" "cstring m (command c) w0"
    using p(2) literals_extends [OF assms(1)] by (auto simp: parsed_def)
  from getBuiltInCode_value [OF this] have "getBuiltInCode P c m = Some 0"
    using assms(5,6) by (auto dest: set_takeWhileD simp del: bytes_Cons)
  ultimately show ?thesis
    using p(1) by (simp add: parseAndExecuteCommand_def executeCommand_def executeBinary_overflows)
qed

definition ls_text :: "u8 list" where
  "ls_text = bytes ''ls -l'' @ [0x0A]"

theorem external_commands_undefined_witness:
  "parseAndExecuteCommand (demo literal_block NULL) (\<lambda>_ _. None) (Ptr 27 0)
      \<lparr>memory = with_text ls_text, vars = replicate 20 None, world = (([], []), [])\<rparr> = None"
proof -
  let ?s = "\<lparr>memory = with_text ls_text, vars = replicate 20 None, world = (([], []), [])\<rparr> :: demo_os shell"
  have l: "line_words 0x20 ls_text (bytes ''ls'') [bytes ''-l'']"
    by (simp add: line_words_def stripped_def unindented_def indentation_def ls_text_def blank_def trailing_def argument_word_def)
  have t: "cstring (memory ?s) (Ptr 27 0) ls_text" using with_text [of ls_text] by (simp add: ls_text_def)
  show ?thesis
    using external_commands_undefined [OF _ t _ l, of "demo literal_block NULL" "\<lambda>_ _. None"]
    by (simp add: with_text_literals ls_text_def)
qed

section \<open>Start-up\<close>

lemma startup:
  assumes "literals P (memory s)" and "cstring (memory s) env0 (k @ 0x3D # v)" and "length (k @ 0x3D # v) + 1 < 2 ^ 31"
    and "0x3D \<notin> set k" and "0x0A \<notin> set k" and "k \<noteq> bytes ''PS1''"
    and "bindings (memory s) (vars s) kvs" and "length (vars s) = 20" and "table_has_room k kvs"
  obtains c m s' p where "environment_command P env0 (memory s) = Some (c, m)"
    "executeCommand P exec c (s\<lparr>memory := m\<rparr>) = Some (Value () s')" "cstring (memory s') p v"
    "bindings (memory s') (vars s') (put k p kvs)" "length (vars s') = 20" "world s' = world s"
    "\<And>q t. cstring (memory s) q t \<Longrightarrow> cstring (memory s') q t" "extends (memory s) (memory s')"
    "\<And>q. load (memory s) q \<noteq> None \<Longrightarrow> keys_elsewhere q (vars s) \<Longrightarrow> keys_elsewhere q (vars s')"
proof -
  let ?t = "k @ 0x3D # v"
  obtain a m' where n: "new_entry (junk P) env0 env0 (memory s) = Some ((a, env0), m')" "extends (memory s) m'" "cstring m' a ?t"
    "\<And>q x i. load (memory s) q = Some x \<Longrightarrow> q \<noteq> padd a i"
    by (rule new_entry_string [OF assms(2,3)]) blast
  have na: "new_to (memory s) a" using n(4) by (auto simp: new_to_def)
  define c where "c = \<lparr>trimmedInput = NULL, command = a, arguments = (replicate 20 None)[1 := Some NULL],
            isBackground = 0, argumentCount = 0\<rparr>"
  have ec: "environment_command P env0 (memory s) = Some (c, m')"
    using n(1) by (auto simp: environment_command_def new_entry_def c_def bind_eq_Some_conv split: prod.splits)
  let ?s = "s\<lparr>memory := m'\<rparr>"
  have lm: "literals P (memory ?s)" using literals_extends [OF assms(1) n(2)] by simp
  have bm: "bindings (memory ?s) (vars ?s) kvs" using bindings_extends [OF n(2) assms(7)] by simp
  have cs: "cstring (memory ?s) (command c) ?t" using n(3) by (simp add: c_def)
  have len: "length k + 1 < 2 ^ 31" using assms(3) by simp
  have ka: "keys_elsewhere (command c) (vars ?s)" using keys_elsewhere_new [OF assms(7) na] by (simp add: c_def)
  have ps1: "elsewhere (command c) (literal P ''PS1'')"
    using cstring_head [OF literal_string [OF assms(1) known_literals(5)]] new_elsewhere [OF na] by (simp add: c_def)
  have cn: "argumentCount c = 0" by (simp add: c_def)
  obtain m1 vs' m2 where w: "executeBuiltInWithoutExport P c ?s = Some (?s\<lparr>memory := m2, vars := vs'\<rparr>)"
    "store (padd (command c) (int (length k))) 0 (memory ?s) = Some m1"
    "bindings m2 vs' (put k (padd (command c) (int (length k) + 1)) kvs)" "length vs' = 20" "cstring m2 (command c) k"
    "cstring m2 (padd (command c) (int (length k) + 1)) v" "extends m1 m2" "keys_old_or_new m1 (vars ?s) vs'"
    "\<And>q t. cstring (memory ?s) q t \<Longrightarrow> elsewhere (command c) q \<Longrightarrow> cstring m2 q t"
    by (rule without_export [OF cs assms(4,5) len assms(6) bm _ assms(9) ka literal_string [OF lm known_literals(5)] ps1 cn])
      (use assms(8) in auto)
  have "executeCommand P exec c ?s = Some (Value () (?s\<lparr>memory := m2, vars := vs'\<rparr>))"
    using assignment_code [OF lm cs assms(5)] w(1) by (simp add: executeCommand_def)
  moreover have "cstring m2 q t" if "cstring (memory s) q t" for q t
    using w(9) [of q t] cstring_extends [OF n(2) that] cstring_head [OF that] new_elsewhere [OF na] by (simp add: c_def)
  moreover have x1: "extends (memory s) m1"
    by (rule extends_store [OF n(2) _ w(2) [simplified]]) (use na in \<open>simp add: c_def\<close>)
  then have "extends (memory s) m2" using extends_trans w(7) by blast
  moreover have "keys_elsewhere q vs'" if "load (memory s) q \<noteq> None" "keys_elsewhere q (vars s)" for q
  proof -
    have "load m1 q \<noteq> None" using that(1) x1 by (auto simp: extends_def)
    then show ?thesis using keys_elsewhere_old_or_new [OF w(8)] that(2) by simp
  qed
  ultimately show ?thesis
    using that [of c m' "?s\<lparr>memory := m2, vars := vs'\<rparr>" "padd (command c) (int (length k) + 1)"] ec w(3,4,6) by simp
qed

text \<open>At start-up the shell runs the first string of its environment, \<open>NAME=VALUE\<close>, as a
  command. Within the first 2 GB of text it ends with \<open>getenv(NAME)\<close> a pointer to the string
  \<open>VALUE\<close> and every other variable as it was (this value is not freed: the command it is part
  of is not).\<close>

theorem startup_sets_variable:
  assumes "literals P (memory s)" and "cstring (memory s) env0 (k @ 0x3D # v)" and "length (k @ 0x3D # v) + 1 < 2 ^ 31"
    and "0x3D \<notin> set k" and "0x0A \<notin> set k" and "k \<noteq> bytes ''PS1''"
    and "bindings (memory s) (vars s) kvs" and "length (vars s) = 20" and "table_has_room k kvs"
  shows "\<exists>c m s' p. environment_command P env0 (memory s) = Some (c, m)
    \<and> executeCommand P exec c (s\<lparr>memory := m\<rparr>) = Some (Value () s') \<and> cstring (memory s') p v
    \<and> (\<forall>q t. cstring (memory s') q t \<longrightarrow> getenv (memory s') q (vars s') = Some (if t = k then p else found kvs t))"
proof -
  obtain c m s' p where r: "environment_command P env0 (memory s) = Some (c, m)"
    "executeCommand P exec c (s\<lparr>memory := m\<rparr>) = Some (Value () s')" "cstring (memory s') p v"
    "bindings (memory s') (vars s') (put k p kvs)" "length (vars s') = 20" "world s' = world s"
    "\<And>q t. cstring (memory s) q t \<Longrightarrow> cstring (memory s') q t"
    by (rule startup [OF assms]) blast
  have "found (put k p kvs) t = (if t = k then p else found kvs t)" for t
    by (simp add: found_def map_of_put)
  then show ?thesis using r(1-3) getenv_bindings [OF r(4,5)]
    by (intro exI [of _ c] exI [of _ m] exI [of _ s'] exI [of _ p]) simp
qed

theorem startup_sets_variable_witness:
  "\<exists>c m s' p. environment_command (demo literal_block NULL) (Ptr 27 0) (with_text (bytes ''PATH=/bin/'')) = Some (c, m)
    \<and> executeCommand (demo literal_block NULL) (\<lambda>_ _. None) c \<lparr>memory = m, vars = replicate 20 None, world = (([], []), [])\<rparr> = Some (Value () s')
    \<and> cstring (memory s') p (bytes ''/bin/'')"
proof -
  let ?s = "\<lparr>memory = with_text (bytes ''PATH=/bin/''), vars = replicate 20 None, world = (([], []), [])\<rparr> :: demo_os shell"
  have t: "cstring (memory ?s) (Ptr 27 0) (bytes ''PATH'' @ 0x3D # bytes ''/bin/'')"
    using with_text [of "bytes ''PATH=/bin/''"] by simp
  show ?thesis
    using startup_sets_variable [OF _ t, of "demo literal_block NULL" "[]" "\<lambda>_ _. None"]
    by (auto simp: with_text_literals bindings_Nil table_has_room_def)
qed

end
