(* ===== verification/Pipes.thy ===== *)
theory Pipes
  imports Lines
begin

text \<open>
  Pipelines of bin/sbush/sbush.c: counting the bars of a line, cutting it into its
  commands, and what becomes of running them.
\<close>

section \<open>Counting\<close>

lemma count_loop_cstring: "cstring m p s \<Longrightarrow> count_loop m p n = Some (n + count_list s 0x7C)"
proof (induction s arbitrary: p n)
  case Nil
  then show ?case by (subst count_loop.simps) (simp add: cstring_Nil)
next
  case (Cons x s)
  then show ?case by (subst count_loop.simps) (auto simp: cstring_Cons)
qed

section \<open>Cutting\<close>

text \<open>The line of the commands \<open>strs\<close>.\<close>

fun piped :: "u8 list list \<Rightarrow> u8 list" where
  "piped [] = []"
| "piped [str] = str"
| "piped (str # strs) = str @ 0x7C # piped strs"

lemma count_piped: "strs \<noteq> [] \<Longrightarrow> \<forall>str \<in> set strs. 0x7C \<notin> set str \<Longrightarrow> count_list (piped strs) 0x7C + 1 = length strs"
  by (induction strs rule: piped.induct) (auto simp: count_list_0_iff)

text \<open>A segment of a line: its bytes, the command and the arguments it splits into.\<close>

type_synonym segment = "u8 list \<times> u8 list \<times> u8 list list"

definition good_segment :: "segment \<Rightarrow> bool" where
  "good_segment g = (case g of (str, w0, ws) \<Rightarrow> line_words 0x20 str w0 ws \<and> 0x7C \<notin> set str)"

text \<open>The parsed command of a segment, in memory apart from the line.\<close>

definition held :: "ptr \<Rightarrow> mem \<Rightarrow> commandArgument option \<Rightarrow> segment \<Rightarrow> bool" where
  "held input m r g \<longleftrightarrow> (case g of (str, w0, ws) \<Rightarrow> \<exists>c. r = Some c \<and> cstring m (command c) w0
     \<and> holds_words m (arguments c) ws \<and> argumentCount c = length ws \<and> isBackground c = background str
     \<and> elsewhere input (command c) \<and> (\<forall>i < length ws. \<exists>a. arguments c ! i = Some a \<and> elsewhere input a))"

lemma held_extends: "held input m r g \<Longrightarrow> extends m m' \<Longrightarrow> held input m' r g"
  unfolding held_def using cstring_extends holds_words_extends by (auto split: prod.splits)

lemma holds_words_store:
  assumes "holds_words m as ws" and "store (padd input j) x m = Some m'"
    and "\<forall>i < length ws. \<exists>a. as ! i = Some a \<and> elsewhere input a"
  shows "holds_words m' as ws"
  using assms cstring_store_elsewhere [OF _ assms(2)] unfolding holds_words_def by fastforce

lemma held_store: "held input m r g \<Longrightarrow> store (padd input j) x m = Some m' \<Longrightarrow> held input m' r g"
  unfolding held_def using cstring_store_elsewhere holds_words_store by (auto split: prod.splits)

lemma held_parsed:
  assumes p: "parsed m c m' w0 ws" and b: "isBackground c = background str" and l: "load m input \<noteq> None"
  shows "held input m' (Some c) (str, w0, ws)"
proof -
  obtain x where "load m input = Some x" using l by blast
  then have e: "elsewhere input p" if "new_to m p" for p using new_elsewhere [OF that] elsewhere_sym by blast
  then show ?thesis using p b by (auto simp: parsed_def held_def fresh_entries_def)
qed

lemma pipe_step_last:
  assumes "cstring m (padd input j) str" and "good_segment (str, w0, ws)" and "load m input \<noteq> None"
  obtains prev r m' where "pipe_step P (padd input j, rs, m) = Some (prev, rs @ [r], m')" "extends m m'"
    "held input m' r (str, w0, ws)"
proof -
  have l: "line_words 0x20 str w0 ws" "0x7C \<notin> set str" using assms(2) by (simp_all add: good_segment_def)
  have s: "strchr m (padd input j) 0x7C = Some NULL" using strchr_none [OF assms(1)] l(2) by simp
  obtain c m' where c: "parseInput (junk P) (padd input j) 0x20 m = Some (Some c, m')" "parsed m c m' w0 ws"
    "isBackground c = background str"
    by (rule parseInput_line [OF _ assms(1) l(1)]) simp
  have e: "extends m m'" using c(2) by (simp add: parsed_def)
  have "strchr m' (padd input j) 0 = Some NULL"
    using strchr_terminator [OF cstring_extends [OF e assms(1)]] by simp
  then show ?thesis
    using that [of NULL "Some c" m'] s c(1) e held_parsed [OF c(2,3) assms(3)] by (simp add: pipe_step_def)
qed

lemma pipe_step_bar:
  assumes c: "cstring m (padd input j) (str @ 0x7C # rest)" and g: "good_segment (str, w0, ws)" "0x0A \<notin> set str"
    and l: "load m input \<noteq> None"
  obtains r m1 m' where "pipe_step P (padd input j, rs, m) = Some (padd input (j + int (length str) + 1), rs @ [r], m')"
    "store (padd input (j + int (length str))) 0 m = Some m1" "extends m1 m'" "held input m' r (str, w0, ws)"
    "cstring m' (padd input (j + int (length str) + 1)) rest" "load m' input \<noteq> None"
proof -
  have lw: "line_words 0x20 str w0 ws" "0x7C \<notin> set str" using g(1) by (simp_all add: good_segment_def)
  obtain m1 where m1: "store (padd (padd input j) (int (length str))) 0 m = Some m1" "cstring m1 (padd input j) str"
    "cstring m1 (padd (padd input j) (int (length str) + 1)) rest" by (rule cut_string [OF c])
  have s: "strchr m (padd input j) 0x7C = Some (padd input (j + int (length str)))"
    using strchr_found [OF c lw(2) g(2)] by simp
  have n: "padd input (j + int (length str)) \<noteq> NULL" using cstring_not_null [OF c] by (cases input) auto
  have l1: "load m1 input \<noteq> None" using l valid_after_store [OF m1(1), of input] by (simp add: valid_def)
  obtain c1 m' where c1: "parseInput (junk P) (padd input j) 0x20 m1 = Some (Some c1, m')" "parsed m1 c1 m' w0 ws"
    "isBackground c1 = background str"
    by (rule parseInput_line [OF _ m1(2) lw(1)]) simp
  have e: "extends m1 m'" using c1(2) by (simp add: parsed_def)
  have "load m' input \<noteq> None" using l1 e by (auto simp: extends_def)
  moreover have "pipe_step P (padd input j, rs, m) = Some (padd input (j + int (length str) + 1), rs @ [Some c1], m')"
    using s n m1(1) c1(1) by (simp add: pipe_step_def add.assoc)
  moreover have "cstring m' (padd input (j + int (length str) + 1)) rest"
    using cstring_extends [OF e m1(3)] by (simp add: add.assoc)
  moreover have "store (padd input (j + int (length str))) 0 m = Some m1" using m1(1) by simp
  ultimately show ?thesis using that e held_parsed [OF c1(2,3) l1] by blast
qed

lemma for_list_length: "length is = Suc n \<Longrightarrow>
  for_list (\<lambda>i. f) is s = Option.bind (f s) (for_list (\<lambda>i. f) (tl is))"
  by (cases "is") auto

lemma parse_segments:
  "gs \<noteq> [] \<Longrightarrow> \<forall>g \<in> set gs. good_segment g \<Longrightarrow> \<forall>g \<in> set (butlast gs). 0x0A \<notin> set (fst g) \<Longrightarrow>
     cstring m (padd input j) (piped (map fst gs)) \<Longrightarrow> load m input \<noteq> None \<Longrightarrow> list_all2 (held input m) rs gs0 \<Longrightarrow>
     length is = length gs \<Longrightarrow>
     \<exists>prev rs' m'. for_list (\<lambda>i. pipe_step P) is (padd input j, rs, m) = Some (prev, rs @ rs', m')
       \<and> list_all2 (held input m') (rs @ rs') (gs0 @ gs)"
proof (induction gs arbitrary: m j rs gs0 "is")
  case Nil
  then show ?case by simp
next
  case (Cons g gs)
  obtain str w0 ws where g: "g = (str, w0, ws)" by (cases g) auto
  have gg: "good_segment (str, w0, ws)" using Cons.prems(2) g by simp
  have fl: "for_list (\<lambda>i. pipe_step P) is s = Option.bind (pipe_step P s) (for_list (\<lambda>i. pipe_step P) (tl is))" for s
    using for_list_length Cons.prems(7) by (metis length_Cons)
  show ?case
  proof (cases gs)
    case Nil
    then have "cstring m (padd input j) str" using Cons.prems(4) g by simp
    then obtain prev r m' where r: "pipe_step P (padd input j, rs, m) = Some (prev, rs @ [r], m')" "extends m m'"
      "held input m' r (str, w0, ws)"
      by (rule pipe_step_last [OF _ gg Cons.prems(5)])
    have "list_all2 (held input m') rs gs0"
      using Cons.prems(6) by (rule list_all2_mono) (rule held_extends [OF _ r(2)])
    moreover have "tl is = []" using Cons.prems(7) Nil by (cases "is") auto
    ultimately show ?thesis using r g Nil fl by (intro exI [of _ prev] exI [of _ "[r]"] exI [of _ m']) (simp add: list_all2_appendI)
  next
    case (Cons g2 gs2)
    then have c: "cstring m (padd input j) (str @ 0x7C # piped (map fst gs))" using Cons.prems(4) g by simp
    have nl: "0x0A \<notin> set str" using Cons.prems(3) Cons g by simp
    obtain r m1 m' where r: "pipe_step P (padd input j, rs, m) = Some (padd input (j + int (length str) + 1), rs @ [r], m')"
      "store (padd input (j + int (length str))) 0 m = Some m1" "extends m1 m'" "held input m' r (str, w0, ws)"
      "cstring m' (padd input (j + int (length str) + 1)) (piped (map fst gs))" "load m' input \<noteq> None"
      by (rule pipe_step_bar [OF c gg nl Cons.prems(5)])
    have "list_all2 (held input m') rs gs0"
      using Cons.prems(6) by (rule list_all2_mono) (rule held_extends [OF held_store [OF _ r(2)] r(3)])
    then have h: "list_all2 (held input m') (rs @ [r]) (gs0 @ [g])" using r(4) g by (simp add: list_all2_appendI)
    have pre: "gs \<noteq> []" "\<forall>g \<in> set gs. good_segment g" "\<forall>g \<in> set (butlast gs). 0x0A \<notin> set (fst g)" "length (tl is) = length gs"
      using Cons.prems(2,3,7) Cons by auto
    obtain prev rs' m2 where "for_list (\<lambda>i. pipe_step P) (tl is) (padd input (j + int (length str) + 1), rs @ [r], m')
        = Some (prev, (rs @ [r]) @ rs', m2)" "list_all2 (held input m2) ((rs @ [r]) @ rs') ((gs0 @ [g]) @ gs)"
      using Cons.IH [OF pre(1-3) r(5,6) h pre(4)] by blast
    then show ?thesis using r(1) fl by (intro exI [of _ prev] exI [of _ "r # rs'"] exI [of _ m2]) simp
  qed
qed

lemma parse_pipeline:
  assumes "gs \<noteq> []" and "\<forall>g \<in> set gs. good_segment g" and "\<forall>g \<in> set (butlast gs). 0x0A \<notin> set (fst g)"
    and "cstring m input (piped (map fst gs))"
  shows "\<exists>c_Args m'. countNumberOfPipes m input = Some (length gs - 1)
    \<and> parsePipeCommand P (length gs - 1) input m = Some (c_Args, m') \<and> list_all2 (held input m') c_Args gs"
proof -
  have "\<forall>str \<in> set (map fst gs). 0x7C \<notin> set str" using assms(2) by (auto simp: good_segment_def)
  then have n: "countNumberOfPipes m input = Some (length gs - 1)"
    using count_loop_cstring [OF assms(4), of 0] count_piped [of "map fst gs"] assms(1)
    by (simp add: countNumberOfPipes_def)
  have l: "load m input \<noteq> None" using cstring_head [OF assms(4)] by simp
  have len: "length [0..<length gs - 1 + 1] = length gs" using assms(1) by (cases gs) auto
  obtain prev rs m' where "for_list (\<lambda>i. pipe_step P) [0..<length gs - 1 + 1] (padd input 0, [], m) = Some (prev, [] @ rs, m')"
    "list_all2 (held input m') ([] @ rs) ([] @ gs)"
    using parse_segments [OF assms(1-3) _ l, where j = 0 and rs = "[]" and ?gs0.0 = "[]" and P = P, OF _ _ len] assms(4) by auto
  then show ?thesis using n by (intro exI [of _ rs] exI [of _ m']) (simp add: parsePipeCommand_def)
qed

text \<open>C9: A pipeline's line. For commands that parse (and have no bar, and no newline but in the
  last one), \<open>countNumberOfPipes\<close> gives one less than their number, and \<open>parsePipeCommand\<close>
  returns exactly these commands with their arguments, in order, each with its own memory:
  cutting the line at the bars and parsing the later commands leaves the earlier ones
  intact.\<close>

theorem parsePipeCommand_splits_line:
  assumes "gs \<noteq> []" and "\<forall>g \<in> set gs. good_segment g" and "\<forall>g \<in> set (butlast gs). 0x0A \<notin> set (fst g)"
    and "cstring m input (piped (map fst gs))"
  shows "\<exists>c_Args m'. countNumberOfPipes m input = Some (length gs - 1)
    \<and> parsePipeCommand P (length gs - 1) input m = Some (c_Args, m') \<and> list_all2 (held input m') c_Args gs"
  by (rule parse_pipeline [OF assms])

definition pipe_segments :: "segment list" where
  "pipe_segments = [(bytes ''ls -l '', bytes ''ls'', [bytes ''-l'']), (bytes '' cat'' @ [0x0A], bytes ''cat'', [])]"

theorem parsePipeCommand_splits_line_witness:
  "\<exists>c_Args m'. countNumberOfPipes [Some (bytes ''ls -l | cat'' @ [0x0A, 0])] (Ptr 0 0) = Some 1
    \<and> parsePipeCommand (demo literal_block NULL) 1 (Ptr 0 0) [Some (bytes ''ls -l | cat'' @ [0x0A, 0])] = Some (c_Args, m')
    \<and> list_all2 (held (Ptr 0 0) m') c_Args pipe_segments"
proof -
  have g: "pipe_segments \<noteq> []" "\<forall>g \<in> set pipe_segments. good_segment g"
    "\<forall>g \<in> set (butlast pipe_segments). 0x0A \<notin> set (fst g)"
    by (simp_all add: pipe_segments_def good_segment_def line_words_def stripped_def unindented_def indentation_def
        blank_def trailing_def argument_word_def)
  have "cstring [Some (bytes ''ls -l | cat'' @ [0x0A, 0])] (Ptr 0 0) (piped (map fst pipe_segments))"
    by (simp add: pipe_segments_def cstring_Cons cstring_Nil block_def)
  from parsePipeCommand_splits_line [OF g this, of "demo literal_block NULL"]
  show ?thesis by (simp add: pipe_segments_def)
qed

section \<open>Running\<close>

lemma validate_held:
  "list_all2 (held input m) rs gs \<Longrightarrow> \<forall>g \<in> set gs. fst (snd g) \<noteq> [] \<and> length (fst (snd g)) < 2 ^ 31 \<Longrightarrow>
    isValidateParsedPipeInput m rs = Some True"
proof (induction rs gs rule: list_all2_induct)
  case Nil
  then show ?case by simp
next
  case (Cons r rs g gs)
  obtain c where c: "r = Some c" "cstring m (command c) (fst (snd g))"
    using Cons.hyps(1) by (auto simp: held_def split: prod.splits)
  then show ?case using Cons strlen_cstring [OF c(2)] by simp
qed

text \<open>What \<open>runPiping\<close> comes to from the \<open>i\<close>-th of \<open>i + k + 1\<close> commands on.\<close>

lemma runPiping_never_runs:
  "runPiping P exec cs (i + Suc k) i fd s = None
    \<or> (\<exists>s' w w'. runPiping P exec cs (i + Suc k) i fd s = Some (Ended s') \<and> p_fork (procs P) w = (-1, w'))"
proof (induction k arbitrary: i fd s)
  case 0
  then show ?case by (subst (1 2) runPiping.simps) (auto simp: executeBinary_overflows bind_eq_None_conv)
next
  case (Suc k)
  let ?n = "i + Suc (Suc k)"
  obtain r fds w where pp: "p_pipe (procs P) (world s) = (r, fds, w)" by (metis prod_cases3)
  let ?after = "if r = -1 then say P ''Error while creating pipe'' (s\<lparr>world := w\<rparr>) else Some (s\<lparr>world := w\<rparr>)"
  show ?case
  proof (cases ?after)
    case None
    then show ?thesis using pp by (subst (1 2) runPiping.simps) simp
  next
    case (Some s1)
    obtain pid w2 where pf: "p_fork (procs P) (world s1) = (pid, w2)" by fastforce
    consider "pid = -1" | "pid = 0" | "pid \<noteq> -1" "pid \<noteq> 0" "fds = None"
      | fd0 fd1 where "pid \<noteq> -1" "pid \<noteq> 0" "fds = Some (fd0, fd1)" by (cases fds) auto
    then show ?thesis
    proof cases
      case 1
      then have "p_fork (procs P) (world s1) = (-1, w2)" using pf by simp
      moreover have "runPiping P exec cs ?n i fd s = None \<or> (\<exists>s'. runPiping P exec cs ?n i fd s = Some (Ended s'))"
        using pp Some pf 1
        by (subst (1 2) runPiping.simps) (auto simp: gracefulExit_def bind_eq_None_conv bind_eq_Some_conv)
      ultimately show ?thesis by blast
    next
      case 2
      have "runPiping P exec cs ?n i fd s = None"
        using pp Some pf 2
        by (subst runPiping.simps) (auto simp: executeBinary_overflows bind_eq_None_conv split: prod.splits)
      then show ?thesis by blast
    next
      case 3
      then have "runPiping P exec cs ?n i fd s = None" using pp Some pf by (subst runPiping.simps) simp
      then show ?thesis by blast
    next
      case 4
      then have "runPiping P exec cs ?n i fd s
          = runPiping P exec cs ((i + 1) + Suc k) (i + 1) fd0 (s1\<lparr>world := snd (p_close (procs P) fd1 w2)\<rparr>)"
        using pp Some pf by (subst runPiping.simps) simp
      then show ?thesis using Suc.IH [of "i + 1" fd0 "s1\<lparr>world := snd (p_close (procs P) fd1 w2)\<rparr>"] by simp
    qed
  qed
qed



end
