(* ===== verification/Session.thy ===== *)
theory Session
  imports Lines
begin

text \<open>
  The interactive session of bin/sbush: what the loop of \<open>main\<close> does with the lines of its
  input, at the end of the input and on \<open>exit\<close>.
\<close>

section \<open>A terminal\<close>

text \<open>Input and output do not disturb each other.\<close>

definition terminal :: "'os sys \<Rightarrow> ('os \<Rightarrow> u8 list) \<Rightarrow> ('os \<Rightarrow> (i32 \<times> u8 list) list) \<Rightarrow> bool" where
  "terminal sys rest out \<longleftrightarrow> byte_stream sys 0 rest \<and> write_log sys out
     \<and> (\<forall>fd n w. out (snd (sys_read sys fd n w)) = out w) \<and> (\<forall>fd bs w. rest (snd (sys_write sys fd bs w)) = rest w)"

text \<open>The part of it that output needs.\<close>

definition log_apart :: "'os sys \<Rightarrow> ('os \<Rightarrow> u8 list) \<Rightarrow> ('os \<Rightarrow> (i32 \<times> u8 list) list) \<Rightarrow> bool" where
  "log_apart sys rest out \<longleftrightarrow> write_log sys out \<and> (\<forall>fd bs w. rest (snd (sys_write sys fd bs w)) = rest w)"

lemma terminal_log: "terminal sys rest out \<Longrightarrow> log_apart sys rest out"
  by (simp add: terminal_def log_apart_def)

lemma fgetc_out:
  "(\<forall>fd n w. out (snd (sys_read sys fd n w)) = out w) \<Longrightarrow> fgetc sys fd w = Some (c, w') \<Longrightarrow> out w' = out w"
proof -
  assume a: "\<forall>fd n w. out (snd (sys_read sys fd n w)) = out w" and f: "fgetc sys fd w = Some (c, w')"
  have "w' = snd (sys_read sys fd 1 w)"
    using f by (auto simp: fgetc_def split: prod.splits option.splits list.splits)
  then show ?thesis using a by simp
qed

lemma fgets_loop_out:
  assumes "\<forall>fd n w. out (snd (sys_read sys fd n w)) = out w"
  shows "fgets_loop sys fd n (ch, c, m, w) = Some (ch', c', m', w') \<Longrightarrow> out w' = out w"
proof (induction n arbitrary: ch c m w)
  case 0
  then show ?case by simp
next
  case (Suc n)
  then obtain d w1 where g: "fgetc sys fd w = Some (d, w1)" by (auto simp: bind_eq_Some_conv)
  have o1: "out w1 = out w" by (rule fgetc_out [OF assms g])
  show ?case
  proof (cases "d = EOF")
    case True
    then show ?thesis using Suc.prems g o1 by simp
  next
    case False
    then obtain m1 where "store ch (ucast d) m = Some m1" using Suc.prems g by (auto simp: bind_eq_Some_conv)
    then show ?thesis using Suc.prems Suc.IH [of "padd ch 1" "Some d" m1 w1] False g o1
      by (simp add: Let_def split: if_splits)
  qed
qed

lemma fgets_out:
  assumes "\<forall>fd n w. out (snd (sys_read sys fd n w)) = out w" and "fgets sys s k fd m w = Some (p, m', w')"
  shows "out w' = out w"
proof -
  obtain ch c m1 w1 where l: "fgets_loop sys fd (nat (sint k - 1)) (s, None, m, w) = Some (ch, c, m1, w1)" and "w' = w1"
    using assms(2) by (auto simp: fgets_def bind_eq_Some_conv split: if_splits option.splits)
  then show ?thesis using fgets_loop_out [OF assms(1) l] by simp
qed

lemma fputs_rest:
  assumes "\<forall>fd bs w. rest (snd (sys_write sys fd bs w)) = rest w" and "fputs sys m p fd w = Some (r, w')"
  shows "rest w' = rest w"
  using assms by (auto simp: fputs_def bind_eq_Some_conv)

section \<open>One round of the loop\<close>

text \<open>The prompt and the literals are in memory, apart from the input buffer.\<close>

definition ready :: "'os program \<Rightarrow> ptr \<Rightarrow> u8 list \<Rightarrow> mem \<Rightarrow> bool" where
  "ready P buffer prompt m \<longleftrightarrow> room m buffer 1000 \<and> cstring m (PS1 P) prompt \<and> length prompt < 2 ^ 31
     \<and> literals P m \<and> elsewhere buffer (PS1 P) \<and> (\<forall>str \<in> set sbush_literals. elsewhere buffer (literal P str))"

lemma cstring_outside_buffer:
  assumes "cstring m q str" and "elsewhere buffer q" and "\<forall>x. outside x buffer n \<longrightarrow> load m' x = load m x"
  shows "cstring m' q str"
proof -
  have "outside (padd q i) buffer n" for i
    using elsewhere_padd [OF assms(2)] by (simp add: outside_def)
  then show ?thesis using assms(1,3) by (simp add: cstring_def bytes_at_def)
qed

lemma ready_outside:
  assumes "ready P buffer prompt m" and "\<forall>x. outside x buffer 1000 \<longrightarrow> load m' x = load m x" and "\<forall>x. valid m' x = valid m x"
  shows "ready P buffer prompt m'"
proof -
  have "literals P m'"
    using assms(1) cstring_outside_buffer [OF _ _ assms(2)] unfolding ready_def literals_def by blast
  moreover have "cstring m' (PS1 P) prompt"
    using assms(1) cstring_outside_buffer [OF _ _ assms(2)] unfolding ready_def by blast
  ultimately show ?thesis using assms(1,3) by (simp add: ready_def room_def)
qed

lemma written_outside: "written_at m p xs m' \<Longrightarrow> length xs \<le> n \<Longrightarrow> outside x p n \<Longrightarrow> load m' x = load m x"
  by (auto simp: written_at_def outside_def)

lemma interactive_round_outside:
  assumes r: "ready P buffer prompt (memory s)" and t: "terminal (io (procs P)) rest out"
  obtains s0 m s1 where "custom_fputs P (PS1 P) 1 s = Some s0" "memset buffer 0 1000 (memory s0) = Some (buffer, m)"
    "get_line P buffer 1000 0 (s0\<lparr>memory := m\<rparr>) =
       Some (if snd (take_line 999 (rest (world s))) then NULL else buffer, s1)"
    "ready P buffer prompt (memory s1)" "bytes_at (memory s1) buffer (fst (take_line 999 (rest (world s))) @ [0])"
    "rest (world s1) = line_rest 999 (rest (world s))" "out (world s1) = out (world s) @ [(1, prompt)]" "vars s1 = vars s"
    "\<forall>x. outside x buffer 1000 \<longrightarrow> load (memory s1) x = load (memory s) x"
    "\<And>f :: _ \<Rightarrow> u8 list. \<forall>fd n w. f (snd (sys_read (io (procs P)) fd n w)) = f w \<Longrightarrow>
       \<forall>fd bs w. f (snd (sys_write (io (procs P)) fd bs w)) = f w \<Longrightarrow> f (world s1) = f (world s)"
proof -
  let ?sys = "io (procs P)"
  have tb: "byte_stream ?sys 0 rest" and tw: "write_log ?sys out"
    and ro: "\<forall>fd n w. out (snd (sys_read ?sys fd n w)) = out w"
    and wr: "\<forall>fd bs w. rest (snd (sys_write ?sys fd bs w)) = rest w" using t by (simp_all add: terminal_def)
  have ps: "cstring (memory s) (PS1 P) prompt" "length prompt < 2 ^ 31" and rm: "room (memory s) buffer 1000"
    using r by (simp_all add: ready_def)
  obtain w0 where f: "fputs ?sys (memory s) (PS1 P) 1 (world s) = Some (0, w0)" "out w0 = out (world s) @ [(1, prompt)]"
    using fputs_log [OF tw ps] by blast
  have c: "custom_fputs P (PS1 P) 1 s = Some (s\<lparr>world := w0\<rparr>)"
    using f(1) cstring_not_null [OF ps(1)] by (simp add: custom_fputs_def put_string_def)
  have r0: "rest w0 = rest (world s)" by (rule fputs_rest [OF wr f(1)])
  obtain m where ms: "memset buffer 0 (of_nat 1000) (memory s) = Some (buffer, m)"
    and wm: "written_at (memory s) buffer (replicate 1000 (ucast (0 :: i32))) m"
    using memset_room [OF rm, of 0] by auto
  have rd: "ready P buffer prompt m"
    by (rule ready_outside [OF r]) (use wm written_outside [OF wm] in \<open>auto simp: written_at_def\<close>)
  then have rm1: "room m buffer 1000" by (simp add: ready_def)
  obtain m' w' where g: "fgets ?sys buffer (of_nat 1000) 0 m w0 =
      Some (if snd (take_line (1000 - 1) (rest w0)) then NULL else buffer, m', w')"
    and wg: "written_at m buffer (fst (take_line (1000 - 1) (rest w0)) @ [0]) m'"
    and rg: "rest w' = line_rest (1000 - 1) (rest w0)"
    using fgets_stream [OF tb _ _ rm1, where os = w0] by auto
  have lw: "length (fst (take_line (1000 - 1) (rest w0)) @ [0]) \<le> 1000"
    using length_take_line [of "1000 - 1" "rest w0"] by simp
  have rd': "ready P buffer prompt m'"
    by (rule ready_outside [OF rd]) (use wg written_outside [OF wg lw] in \<open>auto simp: written_at_def\<close>)
  have "load m x = load (memory s) x" if "outside x buffer 1000" for x
    by (rule written_outside [OF wm _ that]) simp
  then have "\<forall>x. outside x buffer 1000 \<longrightarrow> load m' x = load (memory s) x"
    using written_outside [OF wg lw] by simp
  moreover have "f w' = f (world s)" if "\<forall>fd n w. f (snd (sys_read ?sys fd n w)) = f w"
    "\<forall>fd bs w. f (snd (sys_write ?sys fd bs w)) = f w" for f :: "_ \<Rightarrow> u8 list"
    using fgets_out [OF that(1) g] fputs_rest [OF that(2) f(1)] by simp
  moreover have "out w' = out w0" by (rule fgets_out [OF ro g])
  ultimately show ?thesis
    using that [of "s\<lparr>world := w0\<rparr>" m "s\<lparr>memory := m', world := w'\<rparr>"] c ms g rd' wg rg r0 f(2)
    by (simp add: get_line_def written_at_def)
qed

lemma interactive_round:
  assumes r: "ready P buffer prompt (memory s)" and t: "terminal (io (procs P)) rest out"
  obtains s0 m s1 where "custom_fputs P (PS1 P) 1 s = Some s0" "memset buffer 0 1000 (memory s0) = Some (buffer, m)"
    "get_line P buffer 1000 0 (s0\<lparr>memory := m\<rparr>) =
       Some (if snd (take_line 999 (rest (world s))) then NULL else buffer, s1)"
    "ready P buffer prompt (memory s1)" "bytes_at (memory s1) buffer (fst (take_line 999 (rest (world s))) @ [0])"
    "rest (world s1) = line_rest 999 (rest (world s))" "out (world s1) = out (world s) @ [(1, prompt)]" "vars s1 = vars s"
  by (rule interactive_round_outside [OF assms]) blast

section \<open>The end of a session\<close>

lemma take_line_end: "take_line (Suc n) [] = ([], True)" "line_rest (Suc n) [] = []"
  by simp_all

lemma take_line_exit:
  "take_line (Suc (Suc (Suc (Suc (Suc n))))) (bytes ''exit'' @ 0x0A # later) = (bytes ''exit'' @ [0x0A], False)"
  "line_rest (Suc (Suc (Suc (Suc (Suc n))))) (bytes ''exit'' @ 0x0A # later) = later"
  by simp_all

lemmas end_of_input = take_line_end [of 998, simplified]
lemmas exit_line = take_line_exit [of 994, simplified]

lemma interactive_again:
  assumes "ready P buffer prompt (memory s)" and "terminal (io (procs P)) rest out" and "rest (world s) = []"
  obtains s1 where "interactive P exec buffer s = interactive P exec buffer s1" "ready P buffer prompt (memory s1)"
    "rest (world s1) = []" "out (world s1) = out (world s) @ [(1, prompt)]"
proof -
  obtain s0 m s1 where r: "custom_fputs P (PS1 P) 1 s = Some s0" "memset buffer 0 1000 (memory s0) = Some (buffer, m)"
    "get_line P buffer 1000 0 (s0\<lparr>memory := m\<rparr>) =
       Some (if snd (take_line 999 (rest (world s))) then NULL else buffer, s1)"
    "ready P buffer prompt (memory s1)" "bytes_at (memory s1) buffer (fst (take_line 999 (rest (world s))) @ [0])"
    "rest (world s1) = line_rest 999 (rest (world s))" "out (world s1) = out (world s) @ [(1, prompt)]" "vars s1 = vars s"
    by (rule interactive_round [OF assms(1,2)])
  note tl = end_of_input
  then have "get_line P buffer 1000 0 (s0\<lparr>memory := m\<rparr>) = Some (NULL, s1)" using r(3) assms(3) by simp
  then have "interactive P exec buffer s = interactive P exec buffer s1"
    using r(1,2) by (subst interactive.simps) simp
  then show ?thesis using that r(4,6,7) tl assms(3) by simp
qed

lemma interactive_rounds:
  assumes "ready P buffer prompt (memory s)" and "terminal (io (procs P)) rest out" and "rest (world s) = []"
  shows "\<exists>s1. interactive P exec buffer s = interactive P exec buffer s1 \<and> ready P buffer prompt (memory s1)
    \<and> rest (world s1) = [] \<and> out (world s1) = out (world s) @ replicate n (1, prompt)"
proof (induction n)
  case 0
  then show ?case using assms by (intro exI [of _ s]) simp
next
  case (Suc n)
  then obtain s1 where s1: "interactive P exec buffer s = interactive P exec buffer s1" "ready P buffer prompt (memory s1)"
    "rest (world s1) = []" "out (world s1) = out (world s) @ replicate n (1, prompt)" by blast
  obtain s2 where "interactive P exec buffer s1 = interactive P exec buffer s2" "ready P buffer prompt (memory s2)"
    "rest (world s2) = []" "out (world s2) = out (world s1) @ [(1, prompt)]"
    by (rule interactive_again [OF s1(2) assms(2) s1(3)])
  then show ?case using s1 by (intro exI [of _ s2]) (simp flip: replicate_append_same)
qed

lemma interactive_never_returns:
  assumes "interactive P exec buffer s = Some r"
  shows "\<not> (ready P buffer prompt (memory s) \<and> terminal (io (procs P)) rest out \<and> rest (world s) = [])"
proof -
  let ?R = "\<lambda>(((P, exec), buffer), s) r.
    \<not> (ready P buffer prompt (memory s) \<and> terminal (io (procs P)) rest out \<and> rest (world s) = [])"
  have "?R (((P, exec), buffer), s) r"
  proof (rule interactive.raw_induct [where Pa = ?R, OF _ assms])
    fix loop P exec buffer s r
    assume ih: "\<And>P exec buffer s r. loop P exec buffer s = Some r \<Longrightarrow> ?R (((P, exec), buffer), s) r"
      and step: "do {
         s \<leftarrow> custom_fputs P (PS1 P) 1 s;
         (q, m) \<leftarrow> memset buffer 0 1000 (memory s);
         (input, s) \<leftarrow> get_line P buffer 1000 0 (s\<lparr>memory := m\<rparr>);
         again \<leftarrow> (if input = NULL then Some True else do { x \<leftarrow> load (memory s) input; Some (x = 0x0A) });
         if again then loop P exec buffer s
         else do {
           r \<leftarrow> strcmp (memory s) input (literal P (''exit'' @ newline));
           if r = 0 then do {
             s \<leftarrow> say P ''Exiting as requested'' s;
             s \<leftarrow> say P newline s;
             Some (Value 1 s)
           }
           else do {
             r \<leftarrow> parseAndExecuteCommand P exec input s;
             case r of Ended s \<Rightarrow> Some (Ended s) | Value _ s \<Rightarrow> loop P exec buffer s
           }
         }
       } = Some r"
    show "?R (((P, exec), buffer), s) r"
    proof (clarify)
      assume c: "ready P buffer prompt (memory s)" "terminal (io (procs P)) rest out" "rest (world s) = []"
      obtain s0 m s1 where r: "custom_fputs P (PS1 P) 1 s = Some s0" "memset buffer 0 1000 (memory s0) = Some (buffer, m)"
        "get_line P buffer 1000 0 (s0\<lparr>memory := m\<rparr>) =
           Some (if snd (take_line 999 (rest (world s))) then NULL else buffer, s1)"
        "ready P buffer prompt (memory s1)" "bytes_at (memory s1) buffer (fst (take_line 999 (rest (world s))) @ [0])"
        "rest (world s1) = line_rest 999 (rest (world s))" "out (world s1) = out (world s) @ [(1, prompt)]" "vars s1 = vars s"
        by (rule interactive_round [OF c(1,2)])
      have "loop P exec buffer s1 = Some r" using step r(1-3) c(3) by (simp add: end_of_input)
      from ih [OF this] show False using r(4,6) c by (simp add: end_of_input)
    qed
  qed
  then show ?thesis by simp
qed

text \<open>An example: the prompt and the buffer in blocks after the literals.\<close>

definition session_memory :: mem where
  "session_memory = literal_blocks @ [Some (bytes ''sbush~>'' @ [0]), Some (replicate 1000 7)]"

definition session_shell :: "u8 list \<Rightarrow> demo_os shell" where
  "session_shell input = \<lparr>memory = session_memory, vars = replicate 20 None, world = ((input, []), [])\<rparr>"

lemma session_terminal: "terminal (io (procs (demo lit p))) (fst \<circ> fst) (snd \<circ> fst)"
  using demo_io by (auto simp: terminal_def demo_procs_def demo_io_def file_sys_def split: prod.splits)

lemma session_ready: "ready (demo literal_block (Ptr 27 0)) (Ptr 28 0) (bytes ''sbush~>'') (memory (session_shell input))"
proof -
  have n: "length literal_blocks = 27" by (simp add: literal_blocks_def length_literals)
  have "literals (demo literal_block (Ptr 27 0)) session_memory"
    unfolding session_memory_def by (rule literals_in_blocks) simp
  moreover have "room session_memory (Ptr 28 0) 1000"
    by (simp add: room_def valid_def session_memory_def block_def nth_append n)
  moreover have "cstring session_memory (Ptr 27 0) (bytes ''sbush~>'')"
    by (rule cstring_in_block [where rest = "[]"]) (simp_all add: session_memory_def block_def nth_append n)
  moreover have "elsewhere (Ptr 28 0) (literal_block str)" if "str \<in> set sbush_literals" for str
  proof -
    have "length (takeWhile (\<lambda>x. x \<noteq> str) sbush_literals) \<noteq> 28"
      using length_takeWhile_le [of "\<lambda>x. x \<noteq> str" sbush_literals] by (auto simp: length_literals)
    then show ?thesis by (simp add: elsewhere_def literal_block_def)
  qed
  ultimately show ?thesis by (simp add: ready_def session_shell_def elsewhere_def)
qed



lemma interactive_exits:
  assumes "ready P buffer prompt (memory s)" and "terminal (io (procs P)) rest out"
    and "rest (world s) = bytes ''exit'' @ 0x0A # later"
  shows "\<exists>s1. interactive P exec buffer s = Some (Value 1 s1) \<and> rest (world s1) = later
    \<and> out (world s1) = out (world s) @ [(1, prompt), (1, bytes ''Exiting as requested''), (1, [0x0A])]"
proof -
  obtain s0 m s1 where r: "custom_fputs P (PS1 P) 1 s = Some s0" "memset buffer 0 1000 (memory s0) = Some (buffer, m)"
    "get_line P buffer 1000 0 (s0\<lparr>memory := m\<rparr>) =
       Some (if snd (take_line 999 (rest (world s))) then NULL else buffer, s1)"
    "ready P buffer prompt (memory s1)" "bytes_at (memory s1) buffer (fst (take_line 999 (rest (world s))) @ [0])"
    "rest (world s1) = line_rest 999 (rest (world s))" "out (world s1) = out (world s) @ [(1, prompt)]" "vars s1 = vars s"
    by (rule interactive_round [OF assms(1,2)])
  note tl = exit_line
  have g: "get_line P buffer 1000 0 (s0\<lparr>memory := m\<rparr>) = Some (buffer, s1)" using r(3) assms(3) tl by simp
  have c: "cstring (memory s1) buffer (bytes (''exit'' @ newline))"
    using r(5) assms(3) tl by (simp add: cstring_def newline_def)
  have l: "literals P (memory s1)" using r(4) by (simp add: ready_def)
  obtain x where x: "strcmp (memory s1) buffer (literal P (''exit'' @ newline)) = Some x" "x = 0"
    using strcmp_eq_0 [OF c literal_string [OF l known_literals(10)]] by blast
  have tw: "write_log (io (procs P)) out" and wr: "\<forall>fd bs w. rest (snd (sys_write (io (procs P)) fd bs w)) = rest w"
    using assms(2) by (simp_all add: terminal_def)
  obtain w2 where s2: "say P ''Exiting as requested'' s1 = Some (s1\<lparr>world := w2\<rparr>)"
    "out w2 = out (world s1) @ [(1, bytes ''Exiting as requested'')]"
    by (rule say_log [OF tw l known_literals(11)])
  have l2: "literals P (memory (s1\<lparr>world := w2\<rparr>))" using l by simp
  obtain w3 where s3: "say P newline (s1\<lparr>world := w2\<rparr>) = Some (s1\<lparr>world := w3\<rparr>)"
    "out w3 = out w2 @ [(1, [0x0A])]"
    using say_log [OF tw l2 known_literals(7)] by auto
  have rs: "rest (world b) = rest (world a)" if "say P str a = Some b" for str a b
    using that fputs_rest [OF wr] by (auto simp: say_def custom_fputs_def put_string_def bind_eq_Some_conv split: if_splits)
  have "rest w3 = later" using rs [OF s2(1)] rs [OF s3(1)] r(6) assms(3) tl by simp
  moreover have "buffer \<noteq> NULL" "load (memory s1) buffer \<noteq> Some 0x0A"
    using cstring_not_null [OF c] cstring_head [OF c] by simp_all
  moreover obtain y where "load (memory s1) buffer = Some y" using cstring_head [OF c] by blast
  ultimately show ?thesis
    using r(1,2,7) g x s2 s3 by (subst interactive.simps) auto
qed

text \<open>Typing \<open>exit\<close>. If the next line of the input is \<open>exit\<close>, the loop prints its prompt and
  the message, returns 1 and leaves the rest of the input unread.\<close>

theorem interactive_exit:
  assumes "ready P buffer prompt (memory s)" and "terminal (io (procs P)) rest out"
    and "rest (world s) = bytes ''exit'' @ 0x0A # later"
  shows "\<exists>s1. interactive P exec buffer s = Some (Value 1 s1) \<and> rest (world s1) = later
    \<and> out (world s1) = out (world s) @ [(1, prompt), (1, bytes ''Exiting as requested''), (1, [0x0A])]"
  using interactive_exits [OF assms] .

theorem interactive_exit_witness:
  "\<exists>s1. interactive (demo literal_block (Ptr 27 0)) (\<lambda>_ _. None) (Ptr 28 0) (session_shell (bytes ''exit'' @ 0x0A # bytes ''x''))
      = Some (Value 1 s1) \<and> fst (fst (world s1)) = bytes ''x''"
  using interactive_exit [OF session_ready session_terminal, of "bytes ''exit'' @ 0x0A # bytes ''x''" "bytes ''x''" "\<lambda>_ _. None"]
  by (auto simp: session_shell_def)

section \<open>From start to end\<close>

lemma ready_new_buffer:
  assumes "new_block j 1000 m = (buffer, m')" and "cstring m (PS1 P) prompt" and "length prompt < 2 ^ 31" and "literals P m"
  shows "ready P buffer prompt m'"
proof -
  note b = new_block_facts [OF assms(1)] and n = new_to_block [OF assms(1)]
  have e: "elsewhere buffer q" if "cstring m q t" for q t
    using cstring_head [OF that] new_elsewhere [OF n] by simp
  have "elsewhere buffer (literal P str)" if "str \<in> set sbush_literals" for str
    using e literal_string [OF assms(4) that] by blast
  then show ?thesis
    using b(1,2) assms(2-4) e [OF assms(2)] cstring_extends [OF b(1)] literals_extends [OF assms(4) b(1)]
    by (simp add: ready_def)
qed

lemma session_starts:
  assumes "literals P (memory s)" and "cstring (memory s) (PS1 P) prompt" and "length prompt < 2 ^ 31"
    and "vars s = replicate 20 None"
  obtains buffer s1 p where
    "user_start P depth s = andThen (interactive P (run_file P depth) buffer s1) (\<lambda>r s. Some (Ended s))"
    "ready P buffer prompt (memory s1)" "world s1 = world s" "keys_elsewhere buffer (vars s1)"
    "bindings (memory s1) (vars s1) (put (bytes ''PATH'') p [])" "length (vars s1) = 20" "cstring (memory s1) p (bytes ''/bin/'')"
    "extends (memory s) (memory s1)" "\<And>q. load (memory s) q \<noteq> None \<Longrightarrow> keys_elsewhere q (vars s1)"
    "\<And>q. load (memory s) q \<noteq> None \<Longrightarrow> elsewhere buffer q"
proof -
  have env: "cstring (memory s) (literal P ''PATH=/bin/'') (bytes ''PATH'' @ 0x3D # bytes ''/bin/'')"
    using literal_string [OF assms(1) known_literals(13)] by simp
  have b: "bindings (memory s) (vars s) []" using assms(4) by (simp add: bindings_Nil)
  obtain c m s' p where u: "environment_command P (literal P ''PATH=/bin/'') (memory s) = Some (c, m)"
    "executeCommand P (run_file P depth) c (s\<lparr>memory := m\<rparr>) = Some (Value () s')" "cstring (memory s') p (bytes ''/bin/'')"
    "bindings (memory s') (vars s') (put (bytes ''PATH'') p [])" "length (vars s') = 20" "world s' = world s"
    "\<And>q t. cstring (memory s) q t \<Longrightarrow> cstring (memory s') q t" "extends (memory s) (memory s')"
    "\<And>q. load (memory s) q \<noteq> None \<Longrightarrow> keys_elsewhere q (vars s) \<Longrightarrow> keys_elsewhere q (vars s')"
    by (rule startup [OF assms(1) env _ _ _ _ b, of "run_file P depth"])
      (use assms(4) in \<open>simp_all add: table_has_room_def\<close>)
  obtain buffer m1 where nb: "new_block (junk P) 1000 (memory s') = (buffer, m1)"
    by (cases "new_block (junk P) 1000 (memory s')") auto
  have "literals P (memory s')" using assms(1) u(7) by (simp add: literals_def)
  then have "ready P buffer prompt m1" using ready_new_buffer [OF nb u(7) [OF assms(2)] assms(3)] by simp
  moreover have "keys_elsewhere buffer (vars s')" by (rule keys_elsewhere_new [OF u(4) new_to_block [OF nb]])
  moreover note new_block_facts(1) [OF nb]
  moreover have "extends (memory s) m1" using extends_trans u(8) new_block_facts(1) [OF nb] by blast
  moreover have "keys_elsewhere q (vars s')" if "load (memory s) q \<noteq> None" for q
    using u(9) [OF that] assms(4) by (simp add: keys_elsewhere_def)
  moreover have "elsewhere buffer q" if "load (memory s) q \<noteq> None" for q
    using that u(8) new_elsewhere [OF new_to_block [OF nb]] unfolding extends_def by blast
  ultimately show ?thesis
    using that [of buffer "s'\<lparr>memory := m1\<rparr>" p] u(1,2,5,6) nb bindings_extends [OF _ u(4)] cstring_extends [OF _ u(3)]
    by (simp add: user_start_def shell_main_def)
qed

text \<open>A whole session. Started by \<open>_start\<close> with an empty table of variables and a terminal
  on which the user types \<open>exit\<close>, the shell sets \<open>PATH\<close>, prints its prompt and the message and
  ends, within defined behaviour and without reading further.\<close>

theorem session_ends_on_exit:
  assumes "literals P (memory s)" and "cstring (memory s) (PS1 P) prompt" and "length prompt < 2 ^ 31"
    and "vars s = replicate 20 None" and "terminal (io (procs P)) rest out"
    and "rest (world s) = bytes ''exit'' @ 0x0A # later"
  shows "\<exists>s1. user_start P depth s = Some (Ended s1) \<and> rest (world s1) = later
    \<and> out (world s1) = out (world s) @ [(1, prompt), (1, bytes ''Exiting as requested''), (1, [0x0A])]"
proof -
  obtain buffer s0 p where s0: "user_start P depth s = andThen (interactive P (run_file P depth) buffer s0) (\<lambda>r s. Some (Ended s))"
    "ready P buffer prompt (memory s0)" "world s0 = world s"
    by (rule session_starts [OF assms(1-4), of depth]) blast
  have "rest (world s0) = bytes ''exit'' @ 0x0A # later" using assms(6) s0(3) by simp
  from interactive_exits [OF s0(2) assms(5) this, of "run_file P depth"] s0(1,3) show ?thesis by auto
qed

theorem session_ends_on_exit_witness:
  "\<exists>s1. user_start (demo literal_block (Ptr 27 0)) 0 (session_shell (bytes ''exit'' @ 0x0A # [])) = Some (Ended s1)
     \<and> fst (fst (world s1)) = []"
proof -
  have r: "ready (demo literal_block (Ptr 27 0)) (Ptr 28 0) (bytes ''sbush~>'') (memory (session_shell (bytes ''exit'' @ 0x0A # [])))"
    by (rule session_ready)
  then have "literals (demo literal_block (Ptr 27 0)) (memory (session_shell (bytes ''exit'' @ 0x0A # [])))"
    "cstring (memory (session_shell (bytes ''exit'' @ 0x0A # []))) (PS1 (demo literal_block (Ptr 27 0))) (bytes ''sbush~>'')"
    "length (bytes ''sbush~>'') < 2 ^ 31"
    by (simp_all add: ready_def)
  from session_ends_on_exit [OF this _ session_terminal, of "[]" 0]
  show ?thesis by (auto simp: session_shell_def)
qed

end
