(* ===== verification/Pwd.thy ===== *)
theory Pwd
  imports Session
begin

text \<open>
  The command \<open>pwd\<close> of bin/sbush, the one command with an output that a session can execute
  again and again: what its line prints, what it leaves of the memory, and sessions made of
  such lines.
\<close>

section \<open>The command\<close>

text \<open>What the system answers to \<open>getcwd\<close>: a path that fits, without touching the terminal.\<close>

definition working_directory ::
  "'os procs \<Rightarrow> ('os \<Rightarrow> u8 list) \<Rightarrow> ('os \<Rightarrow> (i32 \<times> u8 list) list) \<Rightarrow> u8 list \<Rightarrow> bool" where
  "working_directory sys rest out cwd \<longleftrightarrow> 0 \<notin> set cwd \<and> length cwd < 1024
     \<and> (\<forall>w. \<exists>w'. p_getcwd sys 1024 w = (cwd, w') \<and> out w' = out w \<and> rest w' = rest w)"

lemma say_rest:
  assumes "\<forall>fd bs w. rest (snd (sys_write (io (procs P)) fd bs w)) = rest w" and "custom_fputs P p 1 s = Some s'"
  shows "rest (world s') = rest (world s)"
  using assms(2) fputs_rest [OF assms(1)]
  by (auto simp: custom_fputs_def put_string_def bind_eq_Some_conv split: if_splits)

lemma path_buffer:
  assumes "0 \<notin> set cwd" and "length cwd < 1024"
  obtains buf m1 m2 m3 where "new_block j 1024 m = (buf, m1)" "memset buf 0 1024 m1 = Some (buf, m2)"
    "store_bytes buf cwd m2 = Some m3" "cstring m3 buf cwd" "extends m m3"
proof -
  obtain buf m1 where nb: "new_block j 1024 m = (buf, m1)" by (cases "new_block j 1024 m") auto
  note f = new_block_facts [OF nb] and n = new_to_block [OF nb]
  obtain m2 where ms: "memset buf 0 (of_nat 1024) m1 = Some (buf, m2)"
    and w2: "written_at m1 buf (replicate 1024 (ucast (0 :: i32))) m2"
    using memset_room [OF f(2), of 0] by auto
  have "room m2 buf (length cwd)" using room_mono [OF f(2), of "length cwd"] w2 assms(2)
    by (simp add: room_def written_at_def)
  then obtain m3 where st: "store_bytes buf cwd m2 = Some m3" and w3: "written_at m2 buf cwd m3"
    using store_bytes_room by blast
  have "load m2 (padd buf (int (length cwd))) = Some (replicate 1024 (ucast (0 :: i32)) ! length cwd)"
    using w2 assms(2) by (simp only: written_at_def bytes_at_def length_replicate)
  then have "load m2 (padd buf (int (length cwd))) = Some 0" using assms(2) nth_replicate [of "length cwd" 1024 "ucast (0 :: i32)"]
    by (simp del: nth_replicate)
  moreover have "outside (padd buf (int (length cwd))) buf (length cwd)"
    using f(3) by (simp add: outside_def padd_inject)
  ultimately have "load m3 (padd buf (int (length cwd))) = Some 0" using w3 by (simp add: written_at_def)
  then have "cstring m3 buf cwd"
    using w3 assms(1) by (simp add: cstring_def bytes_at_append bytes_at_Cons written_at_def)
  moreover have "extends m m3" using extends_written [OF extends_written [OF f(1) n w2] n w3] .
  ultimately show ?thesis using that nb ms st by simp
qed

lemma executeBuiltInPwd_prints:
  assumes wd': "0 \<notin> set cwd" "length cwd < 1024"
    and w1: "p_getcwd (procs P) 1024 (world s) = (cwd, w1)" "out w1 = out (world s)" "rest w1 = rest (world s)"
    and t: "log_apart (io (procs P)) rest out"
    and l: "literals P (memory s)" and c: "argumentCount c \<le> 1"
  obtains m w where "executeBuiltInPwd P c s = Some (s\<lparr>memory := m, world := w\<rparr>)" "extends (memory s) m"
    "out w = out (world s) @ [(1, cwd), (1, [0x0A])]" "rest w = rest (world s)"
    "\<And>f :: _ \<Rightarrow> u8 list. f w1 = f (world s) \<Longrightarrow> \<forall>fd bs w. f (snd (sys_write (io (procs P)) fd bs w)) = f w \<Longrightarrow>
       f w = f (world s)"
proof -
  have tw: "write_log (io (procs P)) out" and wr: "\<forall>fd bs w. rest (snd (sys_write (io (procs P)) fd bs w)) = rest w"
    using t by (simp_all add: log_apart_def)
  obtain buf m1 m2 m3 where b: "new_block (junk P) 1024 (memory s) = (buf, m1)" "memset buf 0 1024 m1 = Some (buf, m2)"
    "store_bytes buf cwd m2 = Some m3" "cstring m3 buf cwd" "extends (memory s) m3"
    by (rule path_buffer [OF wd'])
  have len: "length cwd < 2 ^ 31" using wd'(2) by simp
  obtain w2 where w2: "fputs (io (procs P)) m3 buf 1 w1 = Some (0, w2)" "out w2 = out w1 @ [(1, cwd)]"
    using fputs_log [OF tw b(4) len] by blast
  let ?s2 = "s\<lparr>memory := m3, world := w2\<rparr>"
  have p2: "custom_fputs P buf 1 (s\<lparr>memory := m3, world := w1\<rparr>) = Some ?s2"
    using w2(1) cstring_not_null [OF b(4)] by (simp add: custom_fputs_def put_string_def)
  have l2: "literals P (memory ?s2)" using literals_extends [OF l b(5)] by simp
  obtain w3 where w3: "say P newline ?s2 = Some (?s2\<lparr>world := w3\<rparr>)" "out w3 = out w2 @ [(1, [0x0A])]"
    using say_log [OF tw l2 known_literals(7)] by auto
  have keeps: "f w3 = f (world s)" if "f w1 = f (world s)" "\<forall>fd bs w. f (snd (sys_write (io (procs P)) fd bs w)) = f w"
    for f :: "_ \<Rightarrow> u8 list"
    using say_rest [OF that(2) p2] say_rest [OF that(2), of "literal P newline" ?s2 "?s2\<lparr>world := w3\<rparr>"] w3(1) that(1)
    by (simp add: say_def)
  moreover have "executeBuiltInPwd P c s = Some (s\<lparr>memory := m3, world := w3\<rparr>)"
    using c b(1-3) w1(1) p2 w3(1) by (simp add: executeBuiltInPwd_def)
  ultimately show ?thesis using that b(5) w1(2) w2(2) w3(2) keeps [OF w1(3) wr] by simp
qed

section \<open>Its line\<close>

text \<open>Any line of one word: it is parsed, executed and its memory given back.\<close>

lemma word_line:
  assumes str: "cstring (memory s) input str" "0x7C \<notin> set str" and lw: "line_words 0x20 str w0 []"
    and ex: "\<And>c m. parsed (memory s) c m w0 [] \<Longrightarrow>
      \<exists>s1. executeCommand P exec c (s\<lparr>memory := m\<rparr>) = Some (Value () s1) \<and> extends m (memory s1) \<and> Q s1"
  obtains s1 m' where "parseAndExecuteCommand P exec input s = Some (Value () (s1\<lparr>memory := m'\<rparr>))" "extends (memory s) m'" "Q s1"
proof -
  have bar: "strchr (memory s) input 0x7C = Some NULL" using strchr_none [OF str(1)] str(2) by simp
  obtain c m where p: "parseInput (junk P) input 0x20 (memory s) = Some (Some c, m)"
    "parsed (memory s) c m w0 []" "isBackground c = background str"
    by (rule parseInput_line [OF _ str(1) lw]) simp
  note pf = p(2) [unfolded parsed_def]
  have e: "extends (memory s) m" and cs: "cstring m (command c) w0" and n: "argumentCount c = 0" using pf by simp_all
  obtain s1 where x: "executeCommand P exec c (s\<lparr>memory := m\<rparr>) = Some (Value () s1)" "extends m (memory s1)" "Q s1"
    using ex [OF p(2)] by blast
  have len: "length w0 < 20" using lw by (simp add: line_words_def)
  have "load (memory s1) (trimmedInput c) \<noteq> None" using pf x(2) by (auto simp: extends_def)
  then obtain m2 where f: "freeCommandArgument c (memory s1) = Some m2"
    "\<And>b off. load m2 (Ptr b off) = (if Ptr b 0 = trimmedInput c \<or> Ptr b 0 = command c then None else load (memory s1) (Ptr b off))"
    using free_parsed [of c "memory s1" w0 "[]" 0] pf cstring_extends [OF x(2) cs] holds_words_extends [OF _ x(2)] len by auto
  have "extends (memory s) m2"
    by (rule extends_after_free [OF extends_trans [OF e x(2)] _ _ f(2)]) (use pf in auto)
  moreover have "parseAndExecuteCommand P exec input s = Some (Value () (s1\<lparr>memory := m2\<rparr>))"
    using bar p(1) x(1) f(1) by (simp add: parseAndExecuteCommand_def)
  ultimately show ?thesis using that x(3) by blast
qed

lemma pwd_line:
  assumes wd': "0 \<notin> set cwd" "length cwd < 1024"
    and w1: "p_getcwd (procs P) 1024 (world s) = (cwd, w1)" "out w1 = out (world s)" "rest w1 = rest (world s)"
    and t: "log_apart (io (procs P)) rest out"
    and l: "literals P (memory s)" and str: "cstring (memory s) input str" "0x7C \<notin> set str"
    and lw: "line_words 0x20 str (bytes ''pwd'') []"
  obtains s' where "parseAndExecuteCommand P exec input s = Some (Value () s')" "extends (memory s) (memory s')"
    "vars s' = vars s" "out (world s') = out (world s) @ [(1, cwd), (1, [0x0A])]" "rest (world s') = rest (world s)"
    "\<And>f :: _ \<Rightarrow> u8 list. f w1 = f (world s) \<Longrightarrow> \<forall>fd bs w. f (snd (sys_write (io (procs P)) fd bs w)) = f w \<Longrightarrow>
       f (world s') = f (world s)"
proof -
  let ?Q = "\<lambda>s1. vars s1 = vars s \<and> out (world s1) = out (world s) @ [(1, cwd), (1, [0x0A])] \<and> rest (world s1) = rest (world s)
    \<and> (\<forall>f :: _ \<Rightarrow> u8 list. f w1 = f (world s) \<longrightarrow> (\<forall>fd bs w. f (snd (sys_write (io (procs P)) fd bs w)) = f w) \<longrightarrow>
       f (world s1) = f (world s))"
  have "\<exists>s1. executeCommand P exec c (s\<lparr>memory := m\<rparr>) = Some (Value () s1) \<and> extends m (memory s1) \<and> ?Q s1"
    if "parsed (memory s) c m (bytes ''pwd'') []" for c m
  proof -
    let ?s = "s\<lparr>memory := m\<rparr>"
    have e: "extends (memory s) m" and cs: "cstring m (command c) (bytes ''pwd'')" and n: "argumentCount c = 0"
      using that by (simp_all add: parsed_def)
    have lm: "literals P (memory ?s)" using literals_extends [OF l e] by simp
    have "getBuiltInCode P c (memory ?s) = Some 2" using getBuiltInCode_value [OF lm, of c "bytes ''pwd''"] cs by simp
    moreover obtain m1 w where x: "executeBuiltInPwd P c ?s = Some (?s\<lparr>memory := m1, world := w\<rparr>)" "extends (memory ?s) m1"
      "out w = out (world ?s) @ [(1, cwd), (1, [0x0A])]" "rest w = rest (world ?s)"
      "\<And>f :: _ \<Rightarrow> u8 list. f w1 = f (world ?s) \<Longrightarrow> \<forall>fd bs w. f (snd (sys_write (io (procs P)) fd bs w)) = f w \<Longrightarrow>
         f w = f (world ?s)"
      by (rule executeBuiltInPwd_prints [where s = ?s and ?w1.0 = w1 and c = c, OF wd' _ _ _ t lm]) (use n w1 in auto)
    ultimately have "executeCommand P exec c ?s = Some (Value () (?s\<lparr>memory := m1, world := w\<rparr>))"
      by (simp add: executeCommand_def)
    then show ?thesis using x(2-5) by (intro exI [of _ "?s\<lparr>memory := m1, world := w\<rparr>"]) simp
  qed
  then obtain s1 m' where "parseAndExecuteCommand P exec input s = Some (Value () (s1\<lparr>memory := m'\<rparr>))" "extends (memory s) m'" "?Q s1"
    by (rule word_line [OF str lw]) blast+
  then show ?thesis using that by simp
qed

section \<open>Sessions\<close>

lemma ready_extends: "ready P buffer prompt m \<Longrightarrow> extends m m' \<Longrightarrow> ready P buffer prompt m'"
  using literals_extends cstring_extends by (auto simp: ready_def room_def valid_def extends_def)

definition pwd_text :: "u8 list" where
  "pwd_text = bytes ''pwd'' @ [0x0A]"

lemma take_line_pwd:
  "take_line (Suc (Suc (Suc (Suc n)))) (pwd_text @ later) = (pwd_text, False)"
  "line_rest (Suc (Suc (Suc (Suc n)))) (pwd_text @ later) = later"
  by (simp_all add: pwd_text_def)

lemmas pwd_input = take_line_pwd [of 995, simplified]

lemma pwd_round:
  assumes wd: "working_directory (procs P) rest out cwd" and t: "terminal (io (procs P)) rest out"
    and r: "ready P buffer prompt (memory s)" and i: "rest (world s) = pwd_text @ later"
  obtains s1 where "interactive P exec buffer s = interactive P exec buffer s1" "ready P buffer prompt (memory s1)"
    "rest (world s1) = later" "out (world s1) = out (world s) @ [(1, prompt), (1, cwd), (1, [0x0A])]"
proof -
  obtain s0 m s1 where q: "custom_fputs P (PS1 P) 1 s = Some s0" "memset buffer 0 1000 (memory s0) = Some (buffer, m)"
    "get_line P buffer 1000 0 (s0\<lparr>memory := m\<rparr>) =
       Some (if snd (take_line 999 (rest (world s))) then NULL else buffer, s1)"
    "ready P buffer prompt (memory s1)" "bytes_at (memory s1) buffer (fst (take_line 999 (rest (world s))) @ [0])"
    "rest (world s1) = line_rest 999 (rest (world s))" "out (world s1) = out (world s) @ [(1, prompt)]" "vars s1 = vars s"
    by (rule interactive_round [OF r t])
  have g: "get_line P buffer 1000 0 (s0\<lparr>memory := m\<rparr>) = Some (buffer, s1)" using q(3) i pwd_input by simp
  have c: "cstring (memory s1) buffer pwd_text"
    using q(5) i pwd_input by (simp add: cstring_def pwd_text_def)
  have l: "literals P (memory s1)" using q(4) by (simp add: ready_def)
  obtain x where x: "strcmp (memory s1) buffer (literal P (''exit'' @ newline)) = Some x" "x \<noteq> 0"
    using strcmp_eq_0 [OF c literal_string [OF l known_literals(10)]] by (auto simp: pwd_text_def newline_def)
  have wd': "0 \<notin> set cwd" "length cwd < 1024" using wd by (simp_all add: working_directory_def)
  obtain w1 where w1: "p_getcwd (procs P) 1024 (world s1) = (cwd, w1)" "out w1 = out (world s1)" "rest w1 = rest (world s1)"
    using wd unfolding working_directory_def by blast
  have lw: "line_words 0x20 pwd_text (bytes ''pwd'') []"
    by (simp add: line_words_def stripped_def unindented_def indentation_def pwd_text_def blank_def trailing_def)
  obtain s2 where s2: "parseAndExecuteCommand P exec buffer s1 = Some (Value () s2)" "extends (memory s1) (memory s2)"
    "vars s2 = vars s1" "out (world s2) = out (world s1) @ [(1, cwd), (1, [0x0A])]" "rest (world s2) = rest (world s1)"
    by (rule pwd_line [OF wd' w1 terminal_log [OF t] l c _ lw, of exec]) (auto simp: pwd_text_def)
  have "buffer \<noteq> NULL" "load (memory s1) buffer = Some 0x70"
    using cstring_not_null [OF c] cstring_head [OF c] by (simp_all add: pwd_text_def)
  then have "interactive P exec buffer s = interactive P exec buffer s2"
    using q(1,2) g x s2(1) by (subst interactive.simps) simp
  moreover have "rest (world s2) = later" using s2(5) q(6) i pwd_input by simp
  ultimately show ?thesis using that ready_extends [OF q(4) s2(2)] s2(4) q(7) by simp
qed

lemma pwd_rounds:
  assumes wd: "working_directory (procs P) rest out cwd" and t: "terminal (io (procs P)) rest out"
  shows "ready P buffer prompt (memory s) \<Longrightarrow> rest (world s) = concat (replicate n pwd_text) @ later \<Longrightarrow>
    \<exists>s1. interactive P exec buffer s = interactive P exec buffer s1 \<and> ready P buffer prompt (memory s1)
      \<and> rest (world s1) = later
      \<and> out (world s1) = out (world s) @ concat (replicate n [(1, prompt), (1, cwd), (1, [0x0A])])"
proof (induction n arbitrary: s)
  case 0
  then show ?case by (intro exI [of _ s]) simp
next
  case (Suc n)
  have "rest (world s) = pwd_text @ (concat (replicate n pwd_text) @ later)" using Suc.prems(2) by simp
  from pwd_round [OF wd t Suc.prems(1) this]
  obtain s1 where s1: "interactive P exec buffer s = interactive P exec buffer s1" "ready P buffer prompt (memory s1)"
    "rest (world s1) = concat (replicate n pwd_text) @ later"
    "out (world s1) = out (world s) @ [(1, prompt), (1, cwd), (1, [0x0A])]" by metis
  from Suc.IH [OF s1(2,3)] show ?case using s1(1,4) by auto
qed

text \<open>A session of \<open>pwd\<close> lines. Any number of lines \<open>pwd\<close> and then \<open>exit\<close>: the loop runs
  within defined behaviour - parsing, executing and freeing every line -, prints the prompt,
  the working directory and a newline for each of them, then the prompt and the message,
  and returns 1 with the rest of the input unread.\<close>

theorem pwd_session:
  assumes "working_directory (procs P) rest out cwd" and "terminal (io (procs P)) rest out"
    and "ready P buffer prompt (memory s)"
    and "rest (world s) = concat (replicate n (bytes ''pwd'' @ [0x0A])) @ bytes ''exit'' @ 0x0A # later"
  shows "\<exists>s1. interactive P exec buffer s = Some (Value 1 s1) \<and> rest (world s1) = later
    \<and> out (world s1) = out (world s) @ concat (replicate n [(1, prompt), (1, cwd), (1, [0x0A])])
        @ [(1, prompt), (1, bytes ''Exiting as requested''), (1, [0x0A])]"
proof -
  obtain s1 where s1: "interactive P exec buffer s = interactive P exec buffer s1" "ready P buffer prompt (memory s1)"
    "rest (world s1) = bytes ''exit'' @ 0x0A # later"
    "out (world s1) = out (world s) @ concat (replicate n [(1, prompt), (1, cwd), (1, [0x0A])])"
    using pwd_rounds [OF assms(1,2,3), of n] assms(4) unfolding pwd_text_def by blast
  from interactive_exits [OF s1(2) assms(2) s1(3), of exec] show ?thesis using s1(1,4) by auto
qed

theorem pwd_session_witness:
  "\<exists>s1. interactive (demo literal_block (Ptr 27 0)) (\<lambda>_ _. None) (Ptr 28 0)
      (session_shell (concat (replicate 2 (bytes ''pwd'' @ [0x0A])) @ bytes ''exit'' @ 0x0A # [])) = Some (Value 1 s1)
    \<and> (1, bytes ''/'') \<in> set (snd (fst (world s1)))"
proof -
  have wd: "working_directory (procs (demo literal_block (Ptr 27 0))) (fst \<circ> fst) (snd \<circ> fst) (bytes ''/'')"
    by (simp add: working_directory_def demo_def demo_procs_def)
  obtain s1 where "interactive (demo literal_block (Ptr 27 0)) (\<lambda>_ _. None) (Ptr 28 0)
      (session_shell (concat (replicate 2 (bytes ''pwd'' @ [0x0A])) @ bytes ''exit'' @ 0x0A # [])) = Some (Value 1 s1)"
    "(snd \<circ> fst) (world s1) = (snd \<circ> fst) (world (session_shell (concat (replicate 2 (bytes ''pwd'' @ [0x0A])) @ bytes ''exit'' @ 0x0A # [])))
       @ concat (replicate 2 [(1, bytes ''sbush~>''), (1, bytes ''/''), (1, [0x0A])])
       @ [(1, bytes ''sbush~>''), (1, bytes ''Exiting as requested''), (1, [0x0A])]"
    using pwd_session [OF wd session_terminal session_ready, of _ 2 "[]" "\<lambda>_ _. None"]
    by (metis (no_types, lifting) comp_apply fst_conv session_shell_def shell.select_convs(3))
  then show ?thesis by (auto simp: numeral_2_eq_2)
qed

end
