(* ===== verification/Copies.thy ===== *)
theory Copies
  imports Lines
begin

text \<open>
  What the routines that write strings change: only the object they are given. With that, what
  is elsewhere in memory - strings, the table of variables - is known to stay.
\<close>

section \<open>What a routine changes\<close>

text \<open>\<open>m'\<close> has the bytes of \<open>m\<close> outside the object of \<open>p\<close>.\<close>

definition changes_only :: "ptr \<Rightarrow> mem \<Rightarrow> mem \<Rightarrow> bool" where
  "changes_only p m m' \<longleftrightarrow> (\<forall>q. elsewhere p q \<longrightarrow> load m' q = load m q)"

lemma changes_only_refl [simp]: "changes_only p m m"
  by (simp add: changes_only_def)

lemma changes_only_store: "changes_only p m m1 \<Longrightarrow> store (padd p i) x m1 = Some m2 \<Longrightarrow> changes_only p m m2"
  by (simp add: changes_only_def load_store elsewhere_def)

lemma memset_changes_only:
  assumes "memset p c n m = Some (q, m')"
  shows "changes_only p m m'"
proof (cases "p = NULL")
  case True
  then show ?thesis using assms by (simp add: memset_def)
next
  case False
  let ?I = "\<lambda>(ch, u). changes_only p m u \<and> (\<exists>i. ch = padd p i)"
  let ?f = "\<lambda>i (ch, m). do { m \<leftarrow> store ch (ucast c) m; Some (padd ch 1, m) }"
  obtain ch where r: "for_list ?f [0..<nat (sint (ucast n :: i32))] (p, m) = Some (ch, m')"
    using assms False by (auto simp: memset_def bind_eq_Some_conv)
  have "?I (p, m)" by (auto intro: exI [of _ 0])
  moreover have "?I u'" if "?I u" and "?f i u = Some u'" for i u u'
    using that changes_only_store by (fastforce simp: bind_eq_Some_conv)
  ultimately have "?I (ch, m')" by (rule for_list_some_inv [OF r])
  then show ?thesis by simp
qed

lemma memcpy_changes_only:
  assumes "memcpy p src n m = Some (q, m')"
  shows "changes_only p m m'"
proof (cases "src = NULL")
  case True
  then show ?thesis using assms by (simp add: memcpy_def)
next
  case False
  let ?I = "\<lambda>(d, s, u). changes_only p m u \<and> (\<exists>i. d = padd p i)"
  let ?f = "\<lambda>i (destination, source, m). do {
             x \<leftarrow> load m source;
             m \<leftarrow> store destination x m;
             Some (padd destination 1, padd source 1, m) }"
  obtain s where r: "for_list ?f [0..<nat (sint (ucast n :: i32))] (p, src, m) = Some (q, s, m')"
    using assms False by (auto simp: memcpy_def bind_eq_Some_conv)
  have "?I (p, src, m)" by (auto intro: exI [of _ 0])
  moreover have "?I u'" if "?I u" and "?f i u = Some u'" for i u u'
    using that changes_only_store by (fastforce simp: bind_eq_Some_conv)
  ultimately have "?I (q, s, m')" by (rule for_list_some_inv [OF r])
  then show ?thesis by simp
qed

lemma store_bytes_changes_only: "store_bytes (padd p i) xs m1 = Some m2 \<Longrightarrow> changes_only p m m1 \<Longrightarrow> changes_only p m m2"
proof (induction xs arbitrary: i m1)
  case Nil
  then show ?case by simp
next
  case (Cons x xs)
  then obtain u where "store (padd p i) x m1 = Some u" "store_bytes (padd p (i + 1)) xs u = Some m2"
    by (auto simp: bind_eq_Some_conv)
  then show ?case using Cons.IH Cons.prems(2) changes_only_store by blast
qed

lemma extends_changes_only: "extends m m1 \<Longrightarrow> new_to m p \<Longrightarrow> changes_only p m1 m2 \<Longrightarrow> extends m m2"
  using new_elsewhere by (simp add: extends_def changes_only_def)

lemma changes_only_trans: "changes_only p m m1 \<Longrightarrow> changes_only p m1 m2 \<Longrightarrow> changes_only p m m2"
  by (simp add: changes_only_def)

lemma written_changes_only: "written_at m p xs m' \<Longrightarrow> changes_only p m m'"
  by (simp add: changes_only_def written_at_def outside_def elsewhere_def)

lemma cstring_changes_only: "changes_only p m m' \<Longrightarrow> elsewhere p q \<Longrightarrow> cstring m q s \<Longrightarrow> cstring m' q s"
  using elsewhere_padd [of p q] by (simp add: changes_only_def elsewhere_def cstring_def bytes_at_def)

lemma elsewhere_offset: "elsewhere p q \<Longrightarrow> elsewhere p (padd q j)"
  using elsewhere_padd [of p q j] by (simp add: elsewhere_def)

lemma bindings_changes_only:
  assumes b: "bindings m vs kvs" and c: "changes_only p m m'" and k: "keys_elsewhere p vs"
  shows "bindings m' vs kvs"
proof -
  obtain es where es: "vs = map Some es @ replicate (length vs - length es) None"
    and li: "list_all2 (\<lambda>(k, v) (s, w). cstring m k s \<and> v = w) es kvs" using b by (auto simp: bindings_def)
  have "cstring m' k t" if "(k, v) \<in> set es" "cstring m k t" for k v t
  proof -
    have "Some (k, v) \<in> set vs" using that(1) by (subst es) simp
    then have "elsewhere p k" using k unfolding keys_elsewhere_def by blast
    then show ?thesis using cstring_changes_only [OF c] that(2) by blast
  qed
  then have "list_all2 (\<lambda>(k, v) (s, w). cstring m' k s \<and> v = w) es kvs"
    by (intro list.rel_mono_strong [OF li]) auto
  then show ?thesis using es unfolding bindings_def by blast
qed

section \<open>Clearing and copying\<close>

text \<open>\<open>memset(p, 0, n); memcpy(p, src, strlen(src))\<close>, the way the shell and libc copy a string.\<close>

lemma bytes_at_string: "bytes_at m p (s @ replicate (Suc k) 0) \<Longrightarrow> 0 \<notin> set s \<Longrightarrow> cstring m p s"
  using bytes_at_append [of m p "s @ [0]" "replicate k 0"] by (simp add: cstring_def)

lemma clear_copy:
  assumes r: "room m p n" "n < 2 ^ 31" and s: "cstring m src s" "length s < n" and e: "elsewhere p src"
  obtains m1 m2 where "memset p 0 (of_nat n) m = Some (p, m1)" "cstring m1 src s"
    "memcpy p src (of_nat (length s)) m1 = Some (padd p (int (length s)), m2)"
    "bytes_at m2 p (s @ replicate (n - length s) 0)" "changes_only p m m2" "\<And>q. valid m2 q = valid m q"
proof -
  obtain m1 where m1: "memset p 0 (of_nat n) m = Some (p, m1)" and w1: "written_at m p (replicate n 0) m1"
    using memset_room [OF r, of 0] by auto
  have s1: "cstring m1 src s" by (rule cstring_changes_only [OF written_changes_only [OF w1] e s(1)])
  have "disjoint_runs src p (length s)"
    using elsewhere_padd [OF e] by (simp add: disjoint_runs_def outside_def)
  moreover have "room m1 p (length s)" using room_mono [OF r(1), of "length s"] s(2) w1 by (simp add: room_def written_at_def)
  ultimately obtain m2 where m2: "memcpy p src (of_nat (length s)) m1 = Some (padd p (int (length s)), m2)"
    and w2: "written_at m1 p s m2"
    using memcpy_room [OF cstring_bytes [OF s1] cstring_not_null [OF s1]] r(2) s(2) by force
  have pn: "p \<noteq> NULL" using room_not_null [of m p "n - 1"] r(1) s(2) by simp
  have "load m2 (padd p (int (length s + i))) = Some 0" if "i < n - length s" for i
  proof -
    have "outside (padd p (int (length s + i))) p (length s)" using pn by (simp add: outside_def padd_inject)
    then have "load m2 (padd p (int (length s + i))) = load m1 (padd p (int (length s + i)))" using w2 by (simp add: written_at_def)
    also have "\<dots> = Some 0" using w1 that unfolding written_at_def bytes_at_def by (metis add.commute length_replicate less_diff_conv nth_replicate)
    finally show ?thesis .
  qed
  then have "bytes_at m2 (padd p (int (length s))) (replicate (n - length s) 0)" by (simp add: bytes_at_def)
  then have "bytes_at m2 p (s @ replicate (n - length s) 0)" using w2 by (simp add: bytes_at_append written_at_def)
  moreover have "changes_only p m m2" using written_changes_only [OF w1] written_changes_only [OF w2] changes_only_trans by blast
  moreover have "valid m2 q = valid m q" for q using w1 w2 by (simp add: written_at_def)
  ultimately show ?thesis using that m1 m2 s1 by blast
qed

end
