(* ===== verification/Interpreter.thy ===== *)
theory Interpreter
  imports Pwd Copies
begin

text \<open>
  A specification of the shell as an interpreter of commands, and the refinement: on a session
  whose lines are commands without arguments the code of bin/sbush does what the interpreter
  says, from \<open>_start\<close> to \<open>exit\<close>. Commands with arguments are not among them: the shell uses
  freed memory after executing one.
\<close>

section \<open>The specification\<close>

text \<open>The commands, the word on their line, and what they do: the output, the working directory
  and the names of the variables that are set.\<close>

datatype command = Blank | Print_directory | Go_to_root | Echo | Export | Assign "u8 list" "u8 list"

primrec word :: "command \<Rightarrow> u8 list" where
  "word Blank = []"
| "word Print_directory = bytes ''pwd''"
| "word Go_to_root = bytes ''cd''"
| "word Echo = bytes ''echo''"
| "word Export = bytes ''export''"
| "word (Assign k v) = k @ 0x3D # v"

definition command_text :: "command \<Rightarrow> u8 list" where
  "command_text c = word c @ [0x0A]"

definition clean :: "u8 list \<Rightarrow> bool" where
  "clean w \<longleftrightarrow> list_all (\<lambda>x. x \<notin> {0, 0x0A, 0x20, 0x26, 0x7C, 0xFF}) w"

primrec proper :: "command \<Rightarrow> bool" where
  "proper Blank = True"
| "proper Print_directory = True"
| "proper Go_to_root = True"
| "proper Echo = True"
| "proper Export = True"
| "proper (Assign k v) = (clean k \<and> clean v \<and> 0x3D \<notin> set k \<and> k \<noteq> bytes ''PS1'' \<and> length k + length v < 19)"

definition prints :: "u8 list \<Rightarrow> command \<Rightarrow> (i32 \<times> u8 list) list" where
  "prints dir c = (if c = Print_directory then [(1, dir), (1, [0x0A])] else [])"

definition next_dir :: "u8 list \<Rightarrow> command \<Rightarrow> u8 list" where
  "next_dir dir c = (if c = Go_to_root then bytes ''/'' else dir)"

primrec assigned :: "command \<Rightarrow> u8 list set" where
  "assigned Blank = {}"
| "assigned Print_directory = {}"
| "assigned Go_to_root = {}"
| "assigned Echo = {}"
| "assigned Export = {}"
| "assigned (Assign k v) = {k}"

fun transcript :: "u8 list \<Rightarrow> u8 list \<Rightarrow> command list \<Rightarrow> (i32 \<times> u8 list) list" where
  "transcript prompt dir [] = []"
| "transcript prompt dir (c # cs) = (1, prompt) # prints dir c @ transcript prompt (next_dir dir c) cs"

section \<open>Lines of one word\<close>

lemma clean_notin: "clean w \<Longrightarrow> x \<in> {0, 0x0A, 0x20, 0x26, 0x7C, 0xFF} \<Longrightarrow> x \<notin> set w"
  by (auto simp: clean_def list_all_iff)

lemma clean_append [simp]: "clean (v @ w) \<longleftrightarrow> clean v \<and> clean w"
  by (simp add: clean_def)

lemma clean_Cons [simp]: "clean (x # w) \<longleftrightarrow> x \<notin> {0, 0x0A, 0x20, 0x26, 0x7C, 0xFF} \<and> clean w"
  by (simp add: clean_def)

lemma clean_Nil [simp]: "clean []"
  by (simp add: clean_def)

lemma proper_word:
  "proper c \<Longrightarrow> clean (word c) \<and> length (word c) < 20 \<and> word c \<noteq> bytes ''exit'' \<and> (word c = [] \<longleftrightarrow> c = Blank)"
proof (cases c)
  case (Assign k v)
  have "0x3D \<in> set (word c)" "0x3D \<notin> set (bytes ''exit'')" by (simp_all add: Assign)
  then have "word c \<noteq> bytes ''exit''" by metis
  moreover assume "proper c"
  ultimately show ?thesis by (simp add: Assign)
qed simp_all

lemma line_words_word:
  assumes "clean w" and "length w < 20" and "w \<noteq> []"
  shows "line_words 0x20 (w @ [0x0A]) w []"
proof -
  have b: "\<not> blank x \<and> \<not> trailing x" if "x \<in> set w" for x
    using that clean_notin [OF assms(1), of x] by (auto simp: blank_def trailing_def)
  have "\<not> blank (hd (w @ [0x0A]))" "\<not> trailing (hd (rev w))"
    using assms(3) b [of "hd w"] b [of "last w"] by (simp_all add: hd_rev)
  then have u: "unindented (w @ [0x0A]) = w @ [0x0A]" "indentation (w @ [0x0A]) = 0" and "dropWhile trailing (rev w) = rev w"
    by (simp_all add: unindented_def indentation_def dropWhile_eq_self_iff takeWhile_eq_Nil_iff)
  then have s: "stripped (w @ [0x0A]) = w" by (simp add: stripped_def trailing_def [of "0x0A"])
  show ?thesis using assms clean_notin [OF assms(1)] by (simp add: line_words_def s u(2))
qed

lemma take_line_word:
  "0x0A \<notin> set w \<Longrightarrow> 0xFF \<notin> set w \<Longrightarrow> length w < n \<Longrightarrow>
    take_line n (w @ 0x0A # later) = (w @ [0x0A], False) \<and> line_rest n (w @ 0x0A # later) = later"
proof (induction w arbitrary: n)
  case Nil
  then show ?case by (cases n) simp_all
next
  case (Cons x w)
  then obtain k where "n = Suc k" by (cases n) auto
  then show ?case using Cons by simp
qed

section \<open>What a command leaves\<close>

text \<open>The table of variables has the names \<open>K\<close>.\<close>

definition has_names :: "'os shell \<Rightarrow> u8 list set \<Rightarrow> bool" where
  "has_names s K \<longleftrightarrow> (\<exists>kvs. bindings (memory s) (vars s) kvs \<and> length (vars s) = 20
     \<and> distinct (map fst kvs) \<and> fst ` set kvs = K)"

lemma has_names_extends:
  "has_names s K \<Longrightarrow> extends (memory s) (memory s') \<Longrightarrow> vars s' = vars s \<Longrightarrow> has_names s' K"
  unfolding has_names_def using bindings_extends by metis

text \<open>What the system says about directories.\<close>

definition directories ::
  "'os procs \<Rightarrow> ('os \<Rightarrow> u8 list) \<Rightarrow> ('os \<Rightarrow> (i32 \<times> u8 list) list) \<Rightarrow> ('os \<Rightarrow> u8 list) \<Rightarrow> bool" where
  "directories sys rest out cwd \<longleftrightarrow>
     (\<forall>w. 0 \<notin> set (cwd w) \<and> length (cwd w) < 1024
        \<and> (\<exists>w'. p_getcwd sys 1024 w = (cwd w, w') \<and> out w' = out w \<and> rest w' = rest w \<and> cwd w' = cwd w))
     \<and> (\<forall>m p w. cstring m p (bytes ''/'') \<longrightarrow>
        (\<exists>w'. p_chdir sys m p w = (0, w') \<and> out w' = out w \<and> rest w' = rest w \<and> cwd w' = bytes ''/''))
     \<and> (\<forall>fd n w. cwd (snd (sys_read (io sys) fd n w)) = cwd w)
     \<and> (\<forall>fd bs w. cwd (snd (sys_write (io sys) fd bs w)) = cwd w)"

text \<open>A command line has been executed: the new state against the old.\<close>

definition executed ::
  "('os \<Rightarrow> u8 list) \<Rightarrow> ('os \<Rightarrow> (i32 \<times> u8 list) list) \<Rightarrow> ('os \<Rightarrow> u8 list) \<Rightarrow> u8 list set \<Rightarrow> command \<Rightarrow>
     'os shell \<Rightarrow> 'os shell \<Rightarrow> bool" where
  "executed rest out cwd K c s s' \<longleftrightarrow> extends (memory s) (memory s') \<and> has_names s' (K \<union> assigned c)
     \<and> (\<forall>q. keys_elsewhere q (vars s) \<longrightarrow> load (memory s) q \<noteq> None \<longrightarrow> keys_elsewhere q (vars s'))
     \<and> out (world s') = out (world s) @ prints (cwd (world s)) c \<and> rest (world s') = rest (world s)
     \<and> cwd (world s') = next_dir (cwd (world s)) c"

lemma builtin_line:
  assumes l: "literals P (memory s)" and n: "has_names s K" and w0: "clean w0" "length w0 < 20" "w0 \<noteq> []"
    and i: "cstring (memory s) input (w0 @ [0x0A])"
    and ex: "\<And>c m. literals P m \<Longrightarrow> cstring m (command c) w0 \<Longrightarrow> argumentCount c = 0 \<Longrightarrow>
      \<exists>w. executeCommand P exec c (s\<lparr>memory := m\<rparr>) = Some (Value () (s\<lparr>memory := m, world := w\<rparr>)) \<and> R w"
  obtains s' where "parseAndExecuteCommand P exec input s = Some (Value () s')" "extends (memory s) (memory s')"
    "vars s' = vars s" "R (world s')" "has_names s' K"
proof -
  have bar: "0x7C \<notin> set (w0 @ [0x0A])" using clean_notin [OF w0(1)] by simp
  have "\<exists>s1. executeCommand P exec c (s\<lparr>memory := m\<rparr>) = Some (Value () s1) \<and> extends m (memory s1)
      \<and> (vars s1 = vars s \<and> R (world s1))" if "parsed (memory s) c m w0 []" for c m
  proof -
    have "literals P m" using that literals_extends [OF l] by (simp add: parsed_def)
    moreover have "cstring m (command c) w0" "argumentCount c = 0" using that by (simp_all add: parsed_def)
    ultimately obtain w where "executeCommand P exec c (s\<lparr>memory := m\<rparr>) = Some (Value () (s\<lparr>memory := m, world := w\<rparr>))" "R w"
      using ex by blast
    then show ?thesis by (intro exI [of _ "s\<lparr>memory := m, world := w\<rparr>"]) simp
  qed
  then obtain s1 m' where r: "parseAndExecuteCommand P exec input s = Some (Value () (s1\<lparr>memory := m'\<rparr>))" "extends (memory s) m'"
    "vars s1 = vars s \<and> R (world s1)"
    by (rule word_line [OF i bar line_words_word [OF w0]]) blast+
  then show ?thesis using that [of "s1\<lparr>memory := m'\<rparr>"] has_names_extends [OF n, of "s1\<lparr>memory := m'\<rparr>"] by simp
qed

lemma assign_runs:
  assumes l: "literals P (memory s)" and n: "has_names s K" and pc: "proper (Assign k v)" and room: "card (insert k K) \<le> 20"
    and i: "cstring (memory s) input (command_text (Assign k v))"
  obtains s' where "parseAndExecuteCommand P exec input s = Some (Value () s')" "world s' = world s"
    "has_names s' (insert k K)" "extends (memory s) (memory s')"
    "\<And>q. keys_elsewhere q (vars s) \<Longrightarrow> load (memory s) q \<noteq> None \<Longrightarrow> keys_elsewhere q (vars s')"
proof -
  obtain kvs where kvs: "bindings (memory s) (vars s) kvs" "length (vars s) = 20" "distinct (map fst kvs)" "fst ` set kvs = K"
    using n by (auto simp: has_names_def)
  have "length kvs = card K" using distinct_card [OF kvs(3)] kvs(4) by simp
  then have tr: "table_has_room k kvs" using room kvs(4) by (cases "k \<in> K") (auto simp: table_has_room_def)
  have cw: "clean (k @ 0x3D # v)" "length (k @ 0x3D # v) < 20" "k @ 0x3D # v \<noteq> []" using pc by simp_all
  have k: "0x3D \<notin> set k" "0x0A \<notin> set k" "k \<noteq> bytes ''PS1''" using pc clean_notin [of k] by simp_all
  have bar: "0x7C \<notin> set ((k @ 0x3D # v) @ [0x0A])" using clean_notin [OF cw(1)] by simp
  have i': "cstring (memory s) input ((k @ 0x3D # v) @ [0x0A])" using i by (simp add: command_text_def)
  obtain s' p where r: "parseAndExecuteCommand P exec input s = Some (Value () s')" "world s' = world s"
    "bindings (memory s') (vars s') (put k p kvs)" "length (vars s') = 20" "load (memory s') p = None"
    "extends (memory s) (memory s')"
    "\<And>q. keys_elsewhere q (vars s) \<Longrightarrow> load (memory s) q \<noteq> None \<Longrightarrow> keys_elsewhere q (vars s')"
    by (rule assignment_line [OF l i' bar line_words_word [OF cw] k kvs(1,2) tr]) blast
  have "has_names s' (insert k K)"
    unfolding has_names_def using r(3,4) distinct_put [OF kvs(3)] fst_put kvs(4) by metis
  then show ?thesis using that r by blast
qed

lemma command_runs:
  assumes d: "directories (procs P) rest out cwd" and t: "log_apart (io (procs P)) rest out" and l: "literals P (memory s)"
    and n: "has_names s K" and pc: "proper c" "c \<noteq> Blank" and room: "card (K \<union> assigned c) \<le> 20"
    and i: "cstring (memory s) input (command_text c)"
  obtains s' where "parseAndExecuteCommand P exec input s = Some (Value () s')" "executed rest out cwd K c s s'"
proof -
  have w: "clean (word c)" "length (word c) < 20" "word c \<noteq> []" using proper_word [OF pc(1)] pc(2) by simp_all
  note i' = i [unfolded command_text_def]
  note ret = that
  have quiet: thesis
    if ex: "(\<And>(ca :: commandArgument) m. literals P m \<Longrightarrow> cstring m (command ca) (word c) \<Longrightarrow> argumentCount ca = 0 \<Longrightarrow>
      \<exists>w. executeCommand P exec ca (s\<lparr>memory := m\<rparr>) = Some (Value () (s\<lparr>memory := m, world := w\<rparr>))
        \<and> (out w = out (world s) @ prints (cwd (world s)) c \<and> rest w = rest (world s) \<and> cwd w = next_dir (cwd (world s)) c))"
      and none: "assigned c = {}"
  proof -
    obtain s' where s': "parseAndExecuteCommand P exec input s = Some (Value () s')" "extends (memory s) (memory s')"
      "vars s' = vars s" "out (world s') = out (world s) @ prints (cwd (world s)) c \<and> rest (world s') = rest (world s)
         \<and> cwd (world s') = next_dir (cwd (world s)) c" "has_names s' K"
      by (rule builtin_line [OF l n w i' ex]) blast+
    have "executed rest out cwd K c s s'" using s'(2-5) by (simp add: executed_def none)
    with s'(1) show ?thesis by (rule ret)
  qed
  show ?thesis
  proof (cases c)
    case Blank
    then show ?thesis using pc(2) by simp
  next
    case Print_directory
    have i2: "cstring (memory s) input (bytes ''pwd'' @ [0x0A])" using i' Print_directory by simp
    obtain w1 where w1: "0 \<notin> set (cwd (world s))" "length (cwd (world s)) < 1024"
      "p_getcwd (procs P) 1024 (world s) = (cwd (world s), w1)" "out w1 = out (world s)" "rest w1 = rest (world s)" "cwd w1 = cwd (world s)"
      using d unfolding directories_def by blast
    have cw: "\<forall>fd bs w. cwd (snd (sys_write (io (procs P)) fd bs w)) = cwd w" using d by (simp add: directories_def)
    have lw: "line_words 0x20 (bytes ''pwd'' @ [0x0A]) (bytes ''pwd'') []" using line_words_word [OF w] Print_directory by simp
    have bar: "0x7C \<notin> set (bytes ''pwd'' @ [0x0A])" by simp
    obtain s' where s': "parseAndExecuteCommand P exec input s = Some (Value () s')" "extends (memory s) (memory s')"
      "vars s' = vars s" "out (world s') = out (world s) @ [(1, cwd (world s)), (1, [0x0A])]" "rest (world s') = rest (world s)"
      "\<And>f :: _ \<Rightarrow> u8 list. f w1 = f (world s) \<Longrightarrow> \<forall>fd bs w. f (snd (sys_write (io (procs P)) fd bs w)) = f w \<Longrightarrow>
         f (world s') = f (world s)"
      by (rule pwd_line [OF w1(1-5) t l i2 bar lw, of exec]) blast
    have "has_names s' K" by (rule has_names_extends [OF n s'(2,3)])
    then have "executed rest out cwd K c s s'"
      using s'(2-5) s'(6) [OF w1(6) cw] Print_directory by (simp add: executed_def prints_def next_dir_def)
    then show ?thesis using that s'(1) by blast
  next
    case Go_to_root
    show ?thesis
    proof (rule quiet)
      fix ca :: commandArgument and m assume m: "literals P m" "cstring m (command ca) (word c)" "argumentCount ca = 0"
      have "cstring m (literal P ''/'') (bytes ''/'')" by (rule literal_string [OF m(1)]) (simp add: sbush_literals_def)
      then obtain w' where w': "p_chdir (procs P) m (literal P ''/'') (world s) = (0, w')" "out w' = out (world s)"
        "rest w' = rest (world s)" "cwd w' = bytes ''/''" using d unfolding directories_def by blast
      have "getBuiltInCode P ca m = Some 1" using getBuiltInCode_value [OF m(1,2)] Go_to_root by simp
      then show "\<exists>w. executeCommand P exec ca (s\<lparr>memory := m\<rparr>) = Some (Value () (s\<lparr>memory := m, world := w\<rparr>))
        \<and> (out w = out (world s) @ prints (cwd (world s)) c \<and> rest w = rest (world s) \<and> cwd w = next_dir (cwd (world s)) c)"
        using w' m(3) Go_to_root by (intro exI [of _ w']) (simp add: executeCommand_def executeBuiltInCd_def prints_def next_dir_def)
    qed (simp add: Go_to_root)
  next
    case Echo
    show ?thesis
    proof (rule quiet)
      fix ca :: commandArgument and m assume m: "literals P m" "cstring m (command ca) (word c)" "argumentCount ca = 0"
      have "getBuiltInCode P ca m = Some 4" using getBuiltInCode_value [OF m(1,2)] Echo by simp
      then show "\<exists>w. executeCommand P exec ca (s\<lparr>memory := m\<rparr>) = Some (Value () (s\<lparr>memory := m, world := w\<rparr>))
        \<and> (out w = out (world s) @ prints (cwd (world s)) c \<and> rest w = rest (world s) \<and> cwd w = next_dir (cwd (world s)) c)"
        using m(3) Echo by (intro exI [of _ "world s"]) (simp add: executeCommand_def executeBuiltInEcho_def prints_def next_dir_def)
    qed (simp add: Echo)
  next
    case Export
    show ?thesis
    proof (rule quiet)
      fix ca :: commandArgument and m assume m: "literals P m" "cstring m (command ca) (word c)" "argumentCount ca = 0"
      have "getBuiltInCode P ca m = Some 3" using getBuiltInCode_value [OF m(1,2)] Export by simp
      then show "\<exists>w. executeCommand P exec ca (s\<lparr>memory := m\<rparr>) = Some (Value () (s\<lparr>memory := m, world := w\<rparr>))
        \<and> (out w = out (world s) @ prints (cwd (world s)) c \<and> rest w = rest (world s) \<and> cwd w = next_dir (cwd (world s)) c)"
        using m(3) Export by (intro exI [of _ "world s"]) (simp add: executeCommand_def executeBuiltInExport_def prints_def next_dir_def)
    qed (simp add: Export)
  next
    case (Assign k v)
    obtain s' where s': "parseAndExecuteCommand P exec input s = Some (Value () s')" "world s' = world s"
      "has_names s' (insert k K)" "extends (memory s) (memory s')"
      "\<And>q. keys_elsewhere q (vars s) \<Longrightarrow> load (memory s) q \<noteq> None \<Longrightarrow> keys_elsewhere q (vars s')"
      by (rule assign_runs [OF l n, of k v input exec]) (use pc(1) room i Assign in auto)
    then have "executed rest out cwd K c s s'" using Assign by (auto simp: executed_def prints_def next_dir_def)
    then show ?thesis using that s'(1) by blast
  qed
qed

section \<open>One round\<close>

text \<open>The state of the loop between two lines: the input buffer is apart from the names of the
  variables.\<close>

definition shell_ready :: "'os program \<Rightarrow> ptr \<Rightarrow> u8 list \<Rightarrow> u8 list set \<Rightarrow> 'os shell \<Rightarrow> bool" where
  "shell_ready P buffer prompt K s \<longleftrightarrow>
     ready P buffer prompt (memory s) \<and> has_names s K \<and> keys_elsewhere buffer (vars s)"

lemma changes_only_outside: "\<forall>x. outside x p n \<longrightarrow> load m' x = load m x \<Longrightarrow> changes_only p m m'"
  by (simp add: changes_only_def elsewhere_def outside_def)

lemma bindings_outside:
  "bindings m vs kvs \<Longrightarrow> keys_elsewhere buffer vs \<Longrightarrow> \<forall>x. outside x buffer n \<longrightarrow> load m' x = load m x \<Longrightarrow> bindings m' vs kvs"
  by (rule bindings_changes_only [OF _ changes_only_outside])

lemma shell_ready_outside:
  assumes "shell_ready P buffer prompt K s" and "ready P buffer prompt (memory s')" and "vars s' = vars s"
    and "\<forall>x. outside x buffer 1000 \<longrightarrow> load (memory s') x = load (memory s) x"
  shows "shell_ready P buffer prompt K s'"
  using assms bindings_outside [OF _ _ assms(4)] unfolding shell_ready_def has_names_def by metis

lemma shell_ready_executed:
  assumes "shell_ready P buffer prompt K s" and "executed rest out cwd K c s s'"
  shows "shell_ready P buffer prompt (K \<union> assigned c) s'"
proof -
  have "valid (memory s) buffer" using assms(1) by (auto simp: shell_ready_def ready_def room_def dest!: spec [of _ 0])
  then have "load (memory s) buffer \<noteq> None" by (simp add: valid_def)
  then show ?thesis using assms ready_extends unfolding shell_ready_def executed_def by blast
qed

lemma command_line:
  assumes "proper c"
  shows "take_line 999 (command_text c @ later) = (command_text c, False) \<and> line_rest 999 (command_text c @ later) = later"
  using take_line_word [of "word c" 999 later] proper_word [OF assms] clean_notin [of "word c"] by (simp add: command_text_def)

lemma command_round:
  assumes d: "directories (procs P) rest out cwd" and t: "terminal (io (procs P)) rest out"
    and r: "shell_ready P buffer prompt K s" and c: "proper c" "card (K \<union> assigned c) \<le> 20"
    and i: "rest (world s) = command_text c @ later"
  obtains s1 where "interactive P exec buffer s = interactive P exec buffer s1" "shell_ready P buffer prompt (K \<union> assigned c) s1"
    "rest (world s1) = later" "out (world s1) = out (world s) @ (1, prompt) # prints (cwd (world s)) c"
    "cwd (world s1) = next_dir (cwd (world s)) c"
    "\<And>q x. elsewhere buffer q \<Longrightarrow> load (memory s) q = Some x \<Longrightarrow> load (memory s1) q = Some x"
    "\<And>q. elsewhere buffer q \<Longrightarrow> load (memory s) q \<noteq> None \<Longrightarrow> keys_elsewhere q (vars s) \<Longrightarrow> keys_elsewhere q (vars s1)"
proof -
  have rd: "ready P buffer prompt (memory s)" using r by (simp add: shell_ready_def)
  have line: "fst (take_line 999 (rest (world s))) = command_text c" "snd (take_line 999 (rest (world s))) = False"
    "line_rest 999 (rest (world s)) = later" using command_line [OF c(1), of later] i by simp_all
  obtain s0 m s1 where q: "custom_fputs P (PS1 P) 1 s = Some s0" "memset buffer 0 1000 (memory s0) = Some (buffer, m)"
    "get_line P buffer 1000 0 (s0\<lparr>memory := m\<rparr>) = Some (if snd (take_line 999 (rest (world s))) then NULL else buffer, s1)"
    "ready P buffer prompt (memory s1)" "bytes_at (memory s1) buffer (fst (take_line 999 (rest (world s))) @ [0])"
    "rest (world s1) = line_rest 999 (rest (world s))" "out (world s1) = out (world s) @ [(1, prompt)]" "vars s1 = vars s"
    "\<forall>x. outside x buffer 1000 \<longrightarrow> load (memory s1) x = load (memory s) x"
    "\<And>f :: _ \<Rightarrow> u8 list. \<forall>fd n w. f (snd (sys_read (io (procs P)) fd n w)) = f w \<Longrightarrow>
       \<forall>fd bs w. f (snd (sys_write (io (procs P)) fd bs w)) = f w \<Longrightarrow> f (world s1) = f (world s)"
    by (rule interactive_round_outside [OF rd t]) blast
  have g: "get_line P buffer 1000 0 (s0\<lparr>memory := m\<rparr>) = Some (buffer, s1)" using q(3) line by simp
  have cw: "cwd (world s1) = cwd (world s)" by (rule q(10)) (use d in \<open>simp_all add: directories_def\<close>)
  have sr: "shell_ready P buffer prompt K s1" by (rule shell_ready_outside [OF r q(4,8,9)])
  note w = proper_word [OF c(1)]
  have str: "cstring (memory s1) buffer (command_text c)"
    using q(5) line w clean_notin [of "word c" 0] by (simp add: cstring_def command_text_def)
  then have nn: "buffer \<noteq> NULL" by (rule cstring_not_null)
  have old: "load (memory s1) q = load (memory s) q" if "elsewhere buffer q" for q
    using changes_only_outside [OF q(9)] that by (simp add: changes_only_def)
  show ?thesis
  proof (cases "c = Blank")
    case True
    then have "load (memory s1) buffer = Some 0x0A" using cstring_head [OF str] by (simp add: command_text_def)
    then have "interactive P exec buffer s = interactive P exec buffer s1"
      using q(1,2) g nn by (subst interactive.simps) simp
    then show ?thesis using that [of s1] sr q(6-8) line cw old True by (simp add: prints_def next_dir_def)
  next
    case False
    have l: "literals P (memory s1)" using q(4) by (simp add: ready_def)
    have hd: "load (memory s1) buffer = Some (hd (word c))" "hd (word c) \<noteq> 0x0A"
      using cstring_head [OF str] w False clean_notin [of "word c" "hd (word c)"]
      by (cases "word c"; simp add: command_text_def)+
    obtain x where x: "strcmp (memory s1) buffer (literal P (''exit'' @ newline)) = Some x" "x \<noteq> 0"
      using strcmp_eq_0 [OF str literal_string [OF l known_literals(10)]] w by (auto simp: command_text_def newline_def)
    have hn: "has_names s1 K" using sr by (simp add: shell_ready_def)
    obtain s2 where s2: "parseAndExecuteCommand P exec buffer s1 = Some (Value () s2)" "executed rest out cwd K c s1 s2"
      by (rule command_runs [OF d terminal_log [OF t] l hn c(1) False c(2) str])
    have "interactive P exec buffer s = interactive P exec buffer s2"
      using q(1,2) g nn hd x s2(1) by (subst interactive.simps) simp
    moreover have "load (memory s2) q = Some x" if "elsewhere buffer q" "load (memory s) q = Some x" for q x
      using old [OF that(1)] that(2) s2(2) by (simp add: executed_def extends_def)
    moreover have "keys_elsewhere q (vars s2)" if "elsewhere buffer q" "load (memory s) q \<noteq> None" "keys_elsewhere q (vars s)" for q
      using old [OF that(1)] that(2,3) s2(2) q(8) by (simp add: executed_def)
    ultimately show ?thesis using that [of s2] shell_ready_executed [OF sr s2(2)] s2(2) q(6,7) line cw by (simp add: executed_def)
  qed
qed

section \<open>Sessions\<close>

definition all_assigned :: "command list \<Rightarrow> u8 list set" where
  "all_assigned cs = (\<Union>c \<in> set cs. assigned c)"

lemma finite_assigned: "finite (assigned c)"
  by (cases c) simp_all

lemma assigned_room:
  assumes "finite K" and "card (K \<union> all_assigned (c # cs)) \<le> 20"
  shows "card (K \<union> assigned c) \<le> 20 \<and> finite (K \<union> assigned c) \<and> card ((K \<union> assigned c) \<union> all_assigned cs) \<le> 20"
proof -
  have u: "K \<union> all_assigned (c # cs) = (K \<union> assigned c) \<union> all_assigned cs" by (auto simp: all_assigned_def)
  have "finite (K \<union> all_assigned (c # cs))" using assms(1) finite_assigned by (auto simp: all_assigned_def)
  then have "card (K \<union> assigned c) \<le> card (K \<union> all_assigned (c # cs))" by (rule card_mono) (auto simp: all_assigned_def)
  then show ?thesis using assms finite_assigned u by simp
qed

lemma commands_run:
  assumes d: "directories (procs P) rest out cwd" and t: "terminal (io (procs P)) rest out"
  shows "shell_ready P buffer prompt K s \<Longrightarrow> list_all proper cs \<Longrightarrow> finite K \<Longrightarrow> card (K \<union> all_assigned cs) \<le> 20 \<Longrightarrow>
    rest (world s) = concat (map command_text cs) @ later \<Longrightarrow>
    \<exists>s1. interactive P exec buffer s = interactive P exec buffer s1 \<and> ready P buffer prompt (memory s1)
      \<and> rest (world s1) = later \<and> out (world s1) = out (world s) @ transcript prompt (cwd (world s)) cs"
proof (induction cs arbitrary: s K)
  case Nil
  then show ?case by (intro exI [of _ s]) (simp add: shell_ready_def)
next
  case (Cons c cs)
  note room = assigned_room [OF Cons.prems(3,4)]
  have c: "proper c" using Cons.prems(2) by simp
  have i: "rest (world s) = command_text c @ (concat (map command_text cs) @ later)" using Cons.prems(5) by simp
  obtain s1 where s1: "interactive P exec buffer s = interactive P exec buffer s1"
    "shell_ready P buffer prompt (K \<union> assigned c) s1" "rest (world s1) = concat (map command_text cs) @ later"
    "out (world s1) = out (world s) @ (1, prompt) # prints (cwd (world s)) c" "cwd (world s1) = next_dir (cwd (world s)) c"
    by (rule command_round [OF d t Cons.prems(1) c _ i]) (use room in \<open>simp; fail\<close>)+
  have "list_all proper cs" using Cons.prems(2) by simp
  from Cons.IH [OF s1(2) this _ _ s1(3)] room s1(1,4,5) show ?case by auto
qed

text \<open>The shell is an interpreter of its commands. Started by \<open>_start\<close> with an empty table
  of variables, on any list of commands from the table above (empty lines, \<open>pwd\<close>, \<open>cd\<close>,
  \<open>echo\<close>, \<open>export\<close> and assignments \<open>NAME=VALUE\<close> that fit the buffers, of no more than 20 names
  with \<open>PATH\<close>) and then \<open>exit\<close>, the code of the shell runs within defined behaviour, ends, and
  writes exactly what the specification says: the prompts, the working directories printed by
  \<open>pwd\<close>, which \<open>cd\<close> sets to the root, and the message of \<open>exit\<close>. It reads nothing further.\<close>

theorem session_refines_interpreter:
  assumes "literals P (memory s)" and "cstring (memory s) (PS1 P) prompt" and "length prompt < 2 ^ 31"
    and "vars s = replicate 20 None" and "terminal (io (procs P)) rest out" and "directories (procs P) rest out cwd"
    and "list_all proper cs" and "card (insert (bytes ''PATH'') (all_assigned cs)) \<le> 20"
    and "rest (world s) = concat (map command_text cs) @ bytes ''exit'' @ 0x0A # later"
  shows "\<exists>s1. user_start P depth s = Some (Ended s1) \<and> rest (world s1) = later
    \<and> out (world s1) = out (world s) @ transcript prompt (cwd (world s)) cs
        @ [(1, prompt), (1, bytes ''Exiting as requested''), (1, [0x0A])]"
proof -
  obtain buffer s0 p where s0: "user_start P depth s = andThen (interactive P (run_file P depth) buffer s0) (\<lambda>r s. Some (Ended s))"
    "ready P buffer prompt (memory s0)" "world s0 = world s" "keys_elsewhere buffer (vars s0)"
    "bindings (memory s0) (vars s0) (put (bytes ''PATH'') p [])" "length (vars s0) = 20"
    by (rule session_starts [OF assms(1-4), of depth]) blast
  let ?K = "{bytes ''PATH''}"
  have "has_names s0 ?K" unfolding has_names_def
    using s0(5,6) by (intro exI [of _ "put (bytes ''PATH'') p []"]) (simp add: distinct_put fst_put)
  then have sr: "shell_ready P buffer prompt ?K s0" using s0(2,4) by (simp add: shell_ready_def)
  have "card (?K \<union> all_assigned cs) \<le> 20" using assms(8) by simp
  from commands_run [OF assms(6,5) sr assms(7) _ this, of "bytes ''exit'' @ 0x0A # later" "run_file P depth"]
  obtain s1 where s1: "interactive P (run_file P depth) buffer s0 = interactive P (run_file P depth) buffer s1"
    "ready P buffer prompt (memory s1)" "rest (world s1) = bytes ''exit'' @ 0x0A # later"
    "out (world s1) = out (world s) @ transcript prompt (cwd (world s)) cs" using assms(9) s0(3) by auto
  from interactive_exits [OF s1(2) assms(5) s1(3), of "run_file P depth"] s0(1) s1(1,4) show ?thesis by auto
qed

theorem session_refines_interpreter_witness:
  "\<exists>s1. user_start (demo literal_block (Ptr 27 0)) 0 (session_shell (bytes ''cd'' @ 0x0A # bytes ''A=1'' @ 0x0A # bytes ''pwd'' @ 0x0A # bytes ''exit'' @ [0x0A]))
      = Some (Ended s1) \<and> (1, bytes ''/'') \<in> set (snd (fst (world s1)))"
proof -
  let ?cs = "[Go_to_root, Assign (bytes ''A'') (bytes ''1''), Print_directory]"
  let ?i = "bytes ''cd'' @ 0x0A # bytes ''A=1'' @ 0x0A # bytes ''pwd'' @ 0x0A # bytes ''exit'' @ [0x0A]"
  let ?P = "demo literal_block (Ptr 27 0)"
  have d: "directories (procs ?P) (fst \<circ> fst) (snd \<circ> fst) (\<lambda>_. bytes ''/'')"
    by (simp add: directories_def demo_def demo_procs_def)
  have r: "literals ?P (memory (session_shell ?i))" "cstring (memory (session_shell ?i)) (PS1 ?P) (bytes ''sbush~>'')"
    "length (bytes ''sbush~>'') < 2 ^ 31" using session_ready [of ?i] by (simp_all only: ready_def)
  have v: "vars (session_shell ?i) = replicate 20 None" by (simp add: session_shell_def)
  have cs: "list_all proper ?cs" "card (insert (bytes ''PATH'') (all_assigned ?cs)) \<le> 20"
    by (simp_all add: all_assigned_def)
  have i: "(fst \<circ> fst) (world (session_shell ?i)) = concat (map command_text ?cs) @ bytes ''exit'' @ 0x0A # []"
    by (simp add: session_shell_def command_text_def)
  from session_refines_interpreter [OF r v session_terminal d cs i, of 0]
  show ?thesis by (auto simp: prints_def next_dir_def)
qed

end
