(* ===== verification/Script.thy ===== *)
theory Script
  imports Interpreter
begin

text \<open>
  Script files (\<open>executeFile\<close> of bin/sbush/sbush.c): a script for this shell is executed as the
  interpreter of theory Interpreter says, without prompts; what happens to files that are not
  scripts and to scripts of other interpreters.
\<close>

section \<open>Reading a line of a file\<close>

lemma get_line_reads:
  assumes "byte_stream (io (procs P)) fd content" and "2 \<le> n" and "n < 2 ^ 31" and "room (memory s) buf n"
    and "\<forall>fd n w. out (snd (sys_read (io (procs P)) fd n w)) = out w"
    and "\<forall>fd n w. cwd (snd (sys_read (io (procs P)) fd n w)) = cwd w"
  obtains m w where "get_line P buf (of_nat n) fd s =
      Some (if snd (take_line (n - 1) (content (world s))) then NULL else buf, s\<lparr>memory := m, world := w\<rparr>)"
    "written_at (memory s) buf (fst (take_line (n - 1) (content (world s))) @ [0]) m"
    "content w = line_rest (n - 1) (content (world s))" "out w = out (world s)" "cwd w = cwd (world s)"
proof -
  obtain m w where g: "fgets (io (procs P)) buf (of_nat n) fd (memory s) (world s) =
      Some (if snd (take_line (n - 1) (content (world s))) then NULL else buf, m, w)"
    "written_at (memory s) buf (fst (take_line (n - 1) (content (world s))) @ [0]) m"
    "content w = line_rest (n - 1) (content (world s))"
    using fgets_stream [OF assms(1-4)] by blast
  then show ?thesis using that fgets_out [OF assms(5) g(1)] fgets_out [OF assms(6) g(1)] by (simp add: get_line_def)
qed

lemma no_line_string:
  "cstring m p str \<Longrightarrow> length str < 2 ^ 31 \<Longrightarrow> no_line m p = Some (str = [] \<or> hd str = 0x0A)"
  using strlen_cstring [of m p str] cstring_head [of m p str] cstring_not_null [of m p str]
  by (auto simp: no_line_def cstring_def split: list.splits)

section \<open>The state between two lines\<close>

definition buffer_ready :: "'os program \<Rightarrow> ptr \<Rightarrow> nat \<Rightarrow> mem \<Rightarrow> bool" where
  "buffer_ready P buf n m \<longleftrightarrow> room m buf n \<and> literals P m \<and> (\<forall>str \<in> set sbush_literals. elsewhere buf (literal P str))"

lemma buffer_ready_outside:
  assumes "buffer_ready P buf n m" and "\<forall>x. outside x buf n \<longrightarrow> load m' x = load m x" and "\<forall>x. valid m' x = valid m x"
  shows "buffer_ready P buf n m'"
proof -
  have "literals P m'"
    using assms(1) cstring_outside_buffer [OF _ _ assms(2)] unfolding buffer_ready_def literals_def by blast
  then show ?thesis using assms(1,3) by (simp add: buffer_ready_def room_def)
qed

lemma buffer_ready_extends: "buffer_ready P buf n m \<Longrightarrow> extends m m' \<Longrightarrow> buffer_ready P buf n m'"
  using literals_extends by (auto simp: buffer_ready_def room_def valid_def extends_def)

definition script_ready :: "'os program \<Rightarrow> ptr \<Rightarrow> u8 list set \<Rightarrow> 'os shell \<Rightarrow> bool" where
  "script_ready P line K s \<longleftrightarrow> buffer_ready P line 150 (memory s) \<and> has_names s K \<and> keys_elsewhere line (vars s)"

lemma script_ready_outside:
  assumes "script_ready P line K s" and "\<forall>x. outside x line 150 \<longrightarrow> load (memory s') x = load (memory s) x"
    and "\<forall>x. valid (memory s') x = valid (memory s) x" and "vars s' = vars s"
  shows "script_ready P line K s'"
  using assms buffer_ready_outside [OF _ assms(2,3)] bindings_outside [OF _ _ assms(2)]
  unfolding script_ready_def has_names_def by metis

lemma script_ready_written:
  assumes "script_ready P line K s" and w: "written_at (memory s) line xs m" "length xs \<le> 150" and "vars s' = vars s" "memory s' = m"
  shows "script_ready P line K s'"
  by (rule script_ready_outside [OF assms(1)]) (use w written_outside [OF w] assms(4,5) in \<open>auto simp: written_at_def\<close>)

lemma script_ready_executed:
  assumes "script_ready P line K s" and "executed rest out cwd K c s s'"
  shows "script_ready P line (K \<union> assigned c) s'"
proof -
  have "valid (memory s) line" using assms(1) by (auto simp: script_ready_def buffer_ready_def room_def dest!: spec [of _ 0])
  then have "load (memory s) line \<noteq> None" by (simp add: valid_def)
  then show ?thesis using assms buffer_ready_extends unfolding script_ready_def executed_def by blast
qed

section \<open>Script files\<close>

text \<open>The file \<open>name\<close> of the system: opening it gives the descriptor \<open>fd\<close>, at the beginning of
  \<open>src\<close>.\<close>

definition script_file ::
  "'os procs \<Rightarrow> ('os \<Rightarrow> u8 list) \<Rightarrow> ('os \<Rightarrow> (i32 \<times> u8 list) list) \<Rightarrow> ('os \<Rightarrow> u8 list) \<Rightarrow> u8 list \<Rightarrow> i32 \<Rightarrow> u8 list \<Rightarrow> bool" where
  "script_file sys content out cwd name fd src \<longleftrightarrow>
     (\<forall>m p w. cstring m p name \<longrightarrow>
        (\<exists>w'. p_open sys m p 0x72 w = (fd, w') \<and> content w' = src \<and> out w' = out w \<and> cwd w' = cwd w))
     \<and> byte_stream (io sys) fd content \<and> (\<forall>fd n w. out (snd (sys_read (io sys) fd n w)) = out w)
     \<and> (\<forall>fd n w. cwd (snd (sys_read (io sys) fd n w)) = cwd w)
     \<and> (\<forall>f w. out (snd (p_close sys f w)) = out w \<and> cwd (snd (p_close sys f w)) = cwd w)"

text \<open>The buffer is cleared and the next line is read.\<close>

lemma next_line:
  assumes f: "script_file (procs P) content out cwd name fd src" and r: "script_ready P line K s"
  obtains m s1 where "memset line 0 150 (memory s) = Some (line, m)"
    "get_line P line 150 fd (s\<lparr>memory := m\<rparr>) =
       Some (if snd (take_line 149 (content (world s))) then NULL else line, s1)"
    "script_ready P line K s1" "bytes_at (memory s1) line (fst (take_line 149 (content (world s))) @ [0])"
    "content (world s1) = line_rest 149 (content (world s))" "out (world s1) = out (world s)" "cwd (world s1) = cwd (world s)"
proof -
  have rm: "room (memory s) line 150" using r by (simp add: script_ready_def buffer_ready_def)
  obtain m where ms: "memset line 0 (of_nat 150) (memory s) = Some (line, m)"
    and w: "written_at (memory s) line (replicate 150 (ucast (0 :: i32))) m"
    using memset_room [OF rm, of 0] by auto
  let ?s = "s\<lparr>memory := m\<rparr>"
  have r1: "script_ready P line K ?s" by (rule script_ready_written [OF r w]) simp_all
  have rm1: "room (memory ?s) line 150" using r1 by (simp add: script_ready_def buffer_ready_def)
  have bs: "byte_stream (io (procs P)) fd content" "\<forall>fd n w. out (snd (sys_read (io (procs P)) fd n w)) = out w"
    "\<forall>fd n w. cwd (snd (sys_read (io (procs P)) fd n w)) = cwd w" using f by (simp_all add: script_file_def)
  obtain m1 w1 where g: "get_line P line (of_nat 150) fd ?s =
      Some (if snd (take_line (150 - 1) (content (world ?s))) then NULL else line, ?s\<lparr>memory := m1, world := w1\<rparr>)"
    "written_at (memory ?s) line (fst (take_line (150 - 1) (content (world ?s))) @ [0]) m1"
    "content w1 = line_rest (150 - 1) (content (world ?s))" "out w1 = out (world ?s)" "cwd w1 = cwd (world ?s)"
    by (rule get_line_reads [OF bs(1) _ _ rm1 bs(2,3)]) auto
  have len: "length (fst (take_line (150 - 1) (content (world ?s))) @ [0]) \<le> 150"
    using length_take_line [of "150 - 1" "content (world ?s)"] by simp
  have "script_ready P line K (s\<lparr>memory := m1, world := w1\<rparr>)" by (rule script_ready_written [OF r1 g(2) len]) simp_all
  then show ?thesis using that [of m "s\<lparr>memory := m1, world := w1\<rparr>"] ms g by (simp add: written_at_def)
qed

section \<open>The loop over the lines\<close>

fun script_output :: "u8 list \<Rightarrow> command list \<Rightarrow> (i32 \<times> u8 list) list" where
  "script_output dir [] = []"
| "script_output dir (c # cs) = prints dir c @ script_output (next_dir dir c) cs"

text \<open>A script ends with its file or with its first empty line.\<close>

definition script_end :: "u8 list \<Rightarrow> bool" where
  "script_end src \<longleftrightarrow> src = [] \<or> hd src = 0x0A"

lemma take_line_script_end:
  assumes "script_end src"
  shows "snd (take_line (Suc n) src) \<or> fst (take_line (Suc n) src) = [0x0A]"
  using assms by (cases src) (auto simp: script_end_def)

lemma script_stops:
  assumes f: "script_file (procs P) content out cwd name fd src" and r: "script_ready P line K s"
    and n: "no_line (memory s) line = Some False" and e: "script_end (content (world s))"
  shows "\<exists>s'. script_loop P exec fd line line s = Some (Value () s') \<and> out (world s') = out (world s)
    \<and> cwd (world s') = cwd (world s) \<and> has_names s' K"
proof -
  obtain m s1 where q: "memset line 0 150 (memory s) = Some (line, m)"
    "get_line P line 150 fd (s\<lparr>memory := m\<rparr>) = Some (if snd (take_line 149 (content (world s))) then NULL else line, s1)"
    "script_ready P line K s1" "bytes_at (memory s1) line (fst (take_line 149 (content (world s))) @ [0])"
    "content (world s1) = line_rest 149 (content (world s))" "out (world s1) = out (world s)" "cwd (world s1) = cwd (world s)"
    by (rule next_line [OF f r])
  let ?l = "if snd (take_line 149 (content (world s))) then NULL else line"
  have "no_line (memory s1) ?l = Some True"
  proof (cases "snd (take_line 149 (content (world s)))")
    case True
    then show ?thesis by (simp add: no_line_def)
  next
    case False
    then have "fst (take_line 149 (content (world s))) = [0x0A]"
      using take_line_script_end [OF e, of 148, simplified] by blast
    then have "cstring (memory s1) line [0x0A]" using q(4) by (simp add: cstring_def)
    from no_line_string [OF this] show ?thesis using False by simp
  qed
  then have "script_loop P exec fd line ?l s1 = Some (Value () s1)"
    "script_loop P exec fd line line s = script_loop P exec fd line ?l s1"
    using n q(1,2) by (subst script_loop.simps; simp)+
  then show ?thesis using q(3,6,7) by (intro exI [of _ s1]) (simp add: script_ready_def)
qed

lemma script_round:
  assumes f: "script_file (procs P) content out cwd name fd src" and d: "directories (procs P) content out cwd"
    and t: "log_apart (io (procs P)) content out" and r: "script_ready P line K s"
    and n: "no_line (memory s) line = Some False" and c: "proper c" "c \<noteq> Blank" "card (K \<union> assigned c) \<le> 20"
    and i: "content (world s) = command_text c @ later"
  obtains s1 where "script_loop P exec fd line line s = script_loop P exec fd line line s1"
    "script_ready P line (K \<union> assigned c) s1" "no_line (memory s1) line = Some False" "content (world s1) = later"
    "out (world s1) = out (world s) @ prints (cwd (world s)) c" "cwd (world s1) = next_dir (cwd (world s)) c"
proof -
  note w = proper_word [OF c(1)]
  have l: "take_line 149 (content (world s)) = (command_text c, False)" "line_rest 149 (content (world s)) = later"
    using take_line_word [of "word c" 149 later] w clean_notin [of "word c"] i by (simp_all add: command_text_def)
  obtain m s1 where q: "memset line 0 150 (memory s) = Some (line, m)"
    "get_line P line 150 fd (s\<lparr>memory := m\<rparr>) = Some (if snd (take_line 149 (content (world s))) then NULL else line, s1)"
    "script_ready P line K s1" "bytes_at (memory s1) line (fst (take_line 149 (content (world s))) @ [0])"
    "content (world s1) = line_rest 149 (content (world s))" "out (world s1) = out (world s)" "cwd (world s1) = cwd (world s)"
    by (rule next_line [OF f r])
  have str: "cstring (memory s1) line (command_text c)"
    using q(4) l w clean_notin [of "word c" 0] by (simp add: cstring_def command_text_def)
  have first: "command_text c \<noteq> []" "hd (command_text c) \<noteq> 0x0A" "length (command_text c) < 2 ^ 31"
    using w c(2) clean_notin [of "word c" "hd (word c)"] by (cases "word c"; simp add: command_text_def)+
  have lits: "literals P (memory s1)" and names: "has_names s1 K" using q(3) by (simp_all add: script_ready_def buffer_ready_def)
  obtain s2 where s2: "parseAndExecuteCommand P exec line s1 = Some (Value () s2)" "executed content out cwd K c s1 s2"
    by (rule command_runs [OF d t lits names c str])
  have "extends (memory s1) (memory s2)" using s2(2) by (simp add: executed_def)
  from no_line_string [OF cstring_extends [OF this str]] have n2: "no_line (memory s2) line = Some False" using first by simp
  have "script_loop P exec fd line line s = script_loop P exec fd line line s2"
    using n q(1,2) l no_line_string [OF str] first s2(1) by (subst script_loop.simps) simp
  then show ?thesis using that [of s2] n2 script_ready_executed [OF q(3) s2(2)] s2(2) q(5-7) l by (simp add: executed_def)
qed

definition runnable :: "command \<Rightarrow> bool" where
  "runnable c \<longleftrightarrow> proper c \<and> c \<noteq> Blank"

lemma script_runs:
  assumes f: "script_file (procs P) content out cwd name fd src" and d: "directories (procs P) content out cwd"
    and t: "log_apart (io (procs P)) content out" and e: "script_end later"
  shows "script_ready P line K s \<Longrightarrow> no_line (memory s) line = Some False \<Longrightarrow> list_all runnable cs \<Longrightarrow> finite K \<Longrightarrow>
    card (K \<union> all_assigned cs) \<le> 20 \<Longrightarrow> content (world s) = concat (map command_text cs) @ later \<Longrightarrow>
    \<exists>s'. script_loop P exec fd line line s = Some (Value () s')
      \<and> out (world s') = out (world s) @ script_output (cwd (world s)) cs
      \<and> cwd (world s') = foldl next_dir (cwd (world s)) cs \<and> has_names s' (K \<union> all_assigned cs)"
proof (induction cs arbitrary: s K)
  case Nil
  from script_stops [OF f Nil.prems(1,2)] Nil.prems(6) e show ?case by (auto simp: all_assigned_def)
next
  case (Cons c cs)
  note room = assigned_room [OF Cons.prems(4,5)]
  have c: "proper c" "c \<noteq> Blank" using Cons.prems(3) by (simp_all add: runnable_def)
  have cs: "list_all runnable cs" using Cons.prems(3) by simp
  have i: "content (world s) = command_text c @ (concat (map command_text cs) @ later)" using Cons.prems(6) by simp
  obtain s1 where s1: "script_loop P exec fd line line s = script_loop P exec fd line line s1"
    "script_ready P line (K \<union> assigned c) s1" "no_line (memory s1) line = Some False"
    "content (world s1) = concat (map command_text cs) @ later" "out (world s1) = out (world s) @ prints (cwd (world s)) c"
    "cwd (world s1) = next_dir (cwd (world s)) c"
    by (rule script_round [OF f d t Cons.prems(1,2) c(1,2) _ i]) (use room in simp_all)
  have u: "K \<union> all_assigned (c # cs) = (K \<union> assigned c) \<union> all_assigned cs" by (auto simp: all_assigned_def)
  from Cons.IH [OF s1(2,3) cs _ _ s1(4)] room show ?case unfolding u using s1(1,5,6) by auto
qed

section \<open>The first line\<close>

definition interpreter_line :: "u8 list" where
  "interpreter_line = bytes ''#!rootfs/bin/sbush''"

text \<open>The buffers of \<open>executeFile\<close> and the variable \<open>PATH\<close>.\<close>

lemma script_buffers:
  assumes l: "literals P (memory s)" and n: "has_names s K"
  obtains line m1 newLine m2 m3 path where "new_block (junk P) 150 (memory s) = (line, m1)"
    "new_block (junk P) 150 m1 = (newLine, m2)" "memset newLine 0 150 m2 = Some (newLine, m3)"
    "getenv m3 (literal P ''PATH'') (vars s) = Some path" "getenv (memory s) (literal P ''PATH'') (vars s) = Some path"
    "extends (memory s) m3" "script_ready P line K (s\<lparr>memory := m3\<rparr>)" "new_to (memory s) line"
proof -
  obtain line m1 where b1: "new_block (junk P) 150 (memory s) = (line, m1)" by (cases "new_block (junk P) 150 (memory s)")
  obtain newLine m2 where b2: "new_block (junk P) 150 m1 = (newLine, m2)" by (cases "new_block (junk P) 150 m1")
  note f1 = new_block_facts [OF b1] and f2 = new_block_facts [OF b2]
  obtain m3 where ms: "memset newLine 0 (of_nat 150) m2 = Some (newLine, m3)"
    and w: "written_at m2 newLine (replicate 150 (ucast (0 :: i32))) m3" using memset_room [OF f2(2), of 0] by auto
  have e1: "extends m1 m3" by (rule extends_written [OF f2(1) new_to_block [OF b2] w])
  have e: "extends (memory s) m3" by (rule extends_trans [OF f1(1) e1])
  obtain kvs where kvs: "bindings (memory s) (vars s) kvs" "length (vars s) = 20" using n by (auto simp: has_names_def)
  have g: "getenv m (literal P ''PATH'') (vars s) = Some (found kvs (bytes ''PATH''))" if "extends (memory s) m" for m
    using getenv_bindings [OF bindings_extends [OF that kvs(1)] kvs(2)] literal_string [OF literals_extends [OF l that] known_literals(6)]
    by blast
  have "elsewhere line (literal P str)" if "str \<in> set sbush_literals" for str
    using new_elsewhere [OF new_to_block [OF b1]] cstring_head [OF literal_string [OF l that]] by blast
  then have "buffer_ready P line 150 m3"
    using f1(2) e1 literals_extends [OF l e] by (auto simp: buffer_ready_def room_def valid_def extends_def)
  moreover have "keys_elsewhere line (vars s)" by (rule keys_elsewhere_new [OF kvs(1) new_to_block [OF b1]])
  moreover have "has_names (s\<lparr>memory := m3\<rparr>) K" by (rule has_names_extends [OF n]) (simp_all add: e)
  ultimately show ?thesis using that [OF b1 b2 _ g [OF e] g e] ms new_to_block [OF b1] by (simp add: script_ready_def)
qed

text \<open>What \<open>executeFile\<close> does after its first line \<open>h\<close>.\<close>

definition after_first_line ::
  "'os program \<Rightarrow> 'os runner \<Rightarrow> ptr \<Rightarrow> ptr \<Rightarrow> ptr \<Rightarrow> u8 list \<Rightarrow> 'os shell \<Rightarrow> (unit, 'os shell) outcome option" where
  "after_first_line P exec file_path line path h s =
     (if take 2 h \<noteq> bytes ''#!'' then Some (Value () s)
      else if h = interpreter_line then do {
        (fp1, s) \<leftarrow> fopen P file_path (literal P ''r'') s;
        (currentLine, s) \<leftarrow> get_line P line 150 fp1 s;
        andThen (script_loop P exec fp1 line currentLine s) (\<lambda>_ s. Some (Value () (snd (fclose P fp1 s))))
      }
      else andThen (execvpe P (padd line 2) [Some (padd line 2), Some file_path, Some NULL] [Some path, Some NULL] s)
        (\<lambda>status s. do {
          s \<leftarrow> (if status \<noteq> 0 then say P (''Error while executing other shell '' @ newline) s else Some s);
          Some (Value () s)
        }))"

lemma first_line:
  assumes f: "script_file (procs P) content out cwd name fd src" and l: "literals P (memory s)" and n: "has_names s K"
    and p: "cstring (memory s) file_path name" and h: "take_line 149 src = (h @ [0x0A], False)" "0 \<notin> set h"
  obtains line path s1 where "executeFile P exec file_path s = after_first_line P exec file_path line path h s1"
    "getenv (memory s) (literal P ''PATH'') (vars s) = Some path" "script_ready P line K s1" "cstring (memory s1) line h"
    "extends (memory s) (memory s1)" "vars s1 = vars s" "out (world s1) = out (world s)" "cwd (world s1) = cwd (world s)"
proof -
  have lr: "''r'' \<in> set sbush_literals" "''#!rootfs/bin/sbush'' \<in> set sbush_literals" by (simp_all add: sbush_literals_def)
  have md: "load (memory s) (literal P ''r'') = Some 0x72" using cstring_head [OF literal_string [OF l lr(1)]] by simp
  obtain w0 where w0: "p_open (procs P) (memory s) file_path 0x72 (world s) = (fd, w0)" "content w0 = src"
    "out w0 = out (world s)" "cwd w0 = cwd (world s)" using f p unfolding script_file_def by blast
  let ?s0 = "s\<lparr>world := w0\<rparr>"
  have o1: "fopen P file_path (literal P ''r'') s = Some (fd, ?s0)" using md w0(1) by (simp add: fopen_def)
  have n0: "has_names ?s0 K" using n by (simp add: has_names_def)
  have l0: "literals P (memory ?s0)" using l by simp
  obtain line m1 newLine m2 m3 path where b: "new_block (junk P) 150 (memory ?s0) = (line, m1)"
    "new_block (junk P) 150 m1 = (newLine, m2)" "memset newLine 0 150 m2 = Some (newLine, m3)"
    "getenv m3 (literal P ''PATH'') (vars ?s0) = Some path" "getenv (memory ?s0) (literal P ''PATH'') (vars ?s0) = Some path"
    "extends (memory ?s0) m3" "script_ready P line K (?s0\<lparr>memory := m3\<rparr>)"
    "new_to (memory ?s0) line" by (rule script_buffers [OF l0 n0])
  let ?s = "?s0\<lparr>memory := m3\<rparr>"
  have rm: "room (memory ?s) line 150" using b(7) by (simp add: script_ready_def buffer_ready_def)
  have bs: "byte_stream (io (procs P)) fd content" "\<forall>fd n w. out (snd (sys_read (io (procs P)) fd n w)) = out w"
    "\<forall>fd n w. cwd (snd (sys_read (io (procs P)) fd n w)) = cwd w" using f by (simp_all add: script_file_def)
  obtain m4 w1 where g: "get_line P line (of_nat 150) fd ?s =
      Some (if snd (take_line (150 - 1) (content (world ?s))) then NULL else line, ?s\<lparr>memory := m4, world := w1\<rparr>)"
    "written_at (memory ?s) line (fst (take_line (150 - 1) (content (world ?s))) @ [0]) m4"
    "content w1 = line_rest (150 - 1) (content (world ?s))" "out w1 = out (world ?s)" "cwd w1 = cwd (world ?s)"
    by (rule get_line_reads [OF bs(1) _ _ rm bs(2,3)]) auto
  have len: "length h < 149" using length_take_line [of 149 src] h(1) by simp
  have g': "get_line P line 150 fd ?s = Some (line, ?s\<lparr>memory := m4, world := w1\<rparr>)"
    "written_at m3 line (h @ [0x0A, 0]) m4" using g(1,2) h(1) w0(2) by simp_all
  have len2: "length (h @ [0x0A, 0]) \<le> 150" using len by simp
  have "written_at (memory ?s) line (h @ [0x0A, 0]) m4" using g'(2) by simp
  from script_ready_written [OF b(7) this len2]
  have r4: "script_ready P line K (?s\<lparr>memory := m4, world := w1\<rparr>)" by simp
  have c4: "cstring m4 line (h @ [0x0A])" using g'(2) h(2) by (simp add: cstring_def written_at_def)
  have nn: "line \<noteq> NULL" by (rule cstring_not_null [OF c4])
  have sl: "strlen m4 line = Some (length h + 1)" using strlen_cstring [OF c4] len by simp
  have "load m4 (padd line (int (length h))) \<noteq> None" using c4 by (simp add: cstring_def bytes_at_append bytes_at_Cons)
  then obtain m5 where st: "store (padd line (int (length h))) 0 m4 = Some m5"
    using valid_store [of m4 "padd line (int (length h))" 0] by (auto simp: valid_def)
  have ld: "load m5 q = (if q = padd line (int (length h)) then Some 0 else load m4 q)" for q by (rule load_store [OF st])
  have "bytes_at m5 line h" using c4 ld nn by (auto simp: cstring_def bytes_at_def padd_inject nth_append)
  then have c5: "cstring m5 line h" using h(2) ld by (simp add: cstring_def bytes_at_append bytes_at_Cons)
  have r5: "script_ready P line K (?s\<lparr>memory := m5, world := w1\<rparr>)"
    by (rule script_ready_outside [OF r4]) (use ld valid_after_store [OF st] len in \<open>auto simp: outside_def\<close>)
  have l5: "literals P m5" using r5 by (simp add: script_ready_def buffer_ready_def)
  obtain r where r: "strcmp m5 line (literal P ''#!rootfs/bin/sbush'') = Some r" "r = 0 \<longleftrightarrow> h = interpreter_line"
    using strcmp_eq_0 [OF c5 literal_string [OF l5 lr(2)]] unfolding interpreter_line_def by blast
  obtain z w2 where w2: "p_close (procs P) fd w1 = (z, w2)" by (cases "p_close (procs P) fd w1")
  have w2': "out w2 = out w1" "cwd w2 = cwd w1" using f w2 unfolding script_file_def by (metis snd_conv)+
  define s1 where "s1 = s\<lparr>memory := m5, world := w2\<rparr>"
  obtain x0 where x0: "load m5 line = Some x0" "x0 = (h @ [0]) ! 0" using cstring_head [OF c5] by (auto split: list.splits)
  have x1: "load m5 (padd line 1) = Some ((h @ [0]) ! 1)" if "x0 = 0x23"
    using c5 that x0(2) by (cases h) (auto simp: cstring_def bytes_at_append bytes_at_Cons nth_append split: list.splits elim!: allE [of _ 1] simp: bytes_at_def)
  have "(if x0 = 0x23 then do { x1 \<leftarrow> load m5 (padd line 1); Some (x1 = 0x21) } else Some False) = Some (take 2 h = bytes ''#!'')"
    using x1 x0(2) by (cases h; cases "tl h") auto
  then have "executeFile P exec file_path s = after_first_line P exec file_path line path h s1"
    using o1 b(1-4) g'(1) sl st r w2 x0(1)
    by (simp add: executeFile_def after_first_line_def fclose_def s1_def cong: if_cong)
  moreover have "script_ready P line K s1" using r5 by (simp add: script_ready_def s1_def has_names_def)
  moreover have "extends (memory s) (memory s1)" using extends_store [OF extends_written [OF b(6,8) g'(2)] b(8) st] by (simp add: s1_def)
  ultimately show ?thesis using that b(5) c5 w2' g(4,5) w0(3,4) by (simp add: s1_def)
qed

lemma script_executes:
  assumes f: "script_file (procs P) content out cwd name fd src" and d: "directories (procs P) content out cwd"
    and t: "log_apart (io (procs P)) content out" and l: "literals P (memory s)" and n: "has_names s K" "finite K"
    and p: "cstring (memory s) file_path name" and cs: "list_all runnable cs" "card (K \<union> all_assigned cs) \<le> 20"
    and src: "src = interpreter_line @ 0x0A # concat (map command_text cs) @ later" "script_end later"
  shows "\<exists>s'. executeFile P exec file_path s = Some (Value () s')
    \<and> out (world s') = out (world s) @ script_output (cwd (world s)) cs \<and> cwd (world s') = foldl next_dir (cwd (world s)) cs"
proof -
  let ?rest = "concat (map command_text cs) @ later"
  have h: "take_line 149 src = (interpreter_line @ [0x0A], False)" "line_rest 149 src = ?rest" "0 \<notin> set interpreter_line"
    using take_line_word [of interpreter_line 149 ?rest] src(1) by (simp_all add: interpreter_line_def)
  obtain line path s1 where s1: "executeFile P exec file_path s = after_first_line P exec file_path line path interpreter_line s1"
    "getenv (memory s) (literal P ''PATH'') (vars s) = Some path" "script_ready P line K s1" "cstring (memory s1) line interpreter_line"
    "extends (memory s) (memory s1)" "vars s1 = vars s" "out (world s1) = out (world s)" "cwd (world s1) = cwd (world s)"
    by (rule first_line [OF f l n(1) p h(1,3)])
  have lr: "''r'' \<in> set sbush_literals" by (simp add: sbush_literals_def)
  have md: "load (memory s1) (literal P ''r'') = Some 0x72"
    using cstring_head [OF literal_string [OF literals_extends [OF l s1(5)] lr]] by simp
  have "cstring (memory s1) file_path name" by (rule cstring_extends [OF s1(5) p])
  then obtain w0 where w0: "p_open (procs P) (memory s1) file_path 0x72 (world s1) = (fd, w0)" "content w0 = src"
    "out w0 = out (world s1)" "cwd w0 = cwd (world s1)" using f unfolding script_file_def by blast
  let ?s = "s1\<lparr>world := w0\<rparr>"
  have o1: "fopen P file_path (literal P ''r'') s1 = Some (fd, ?s)" using md w0(1) by (simp add: fopen_def)
  have r: "script_ready P line K ?s" using s1(3) by (simp add: script_ready_def has_names_def)
  have rm: "room (memory ?s) line 150" using r by (simp add: script_ready_def buffer_ready_def)
  have bs: "byte_stream (io (procs P)) fd content" "\<forall>fd n w. out (snd (sys_read (io (procs P)) fd n w)) = out w"
    "\<forall>fd n w. cwd (snd (sys_read (io (procs P)) fd n w)) = cwd w" using f by (simp_all add: script_file_def)
  obtain m w1 where g: "get_line P line (of_nat 150) fd ?s =
      Some (if snd (take_line (150 - 1) (content (world ?s))) then NULL else line, ?s\<lparr>memory := m, world := w1\<rparr>)"
    "written_at (memory ?s) line (fst (take_line (150 - 1) (content (world ?s))) @ [0]) m"
    "content w1 = line_rest (150 - 1) (content (world ?s))" "out w1 = out (world ?s)" "cwd w1 = cwd (world ?s)"
    by (rule get_line_reads [OF bs(1) _ _ rm bs(2,3)]) auto
  let ?s1 = "?s\<lparr>memory := m, world := w1\<rparr>"
  have g': "get_line P line 150 fd ?s = Some (line, ?s1)" "written_at (memory ?s) line (interpreter_line @ [0x0A, 0]) m"
    "content (world ?s1) = ?rest" using g(1-3) h(1,2) w0(2) by simp_all
  have r1: "script_ready P line K ?s1" by (rule script_ready_written [OF r g'(2)]) (simp_all add: interpreter_line_def)
  have "cstring m line (interpreter_line @ [0x0A])" using g'(2) by (simp add: cstring_def written_at_def interpreter_line_def)
  from no_line_string [OF this] have nl: "no_line (memory ?s1) line = Some False" by (simp add: interpreter_line_def)
  from script_runs [OF f d t src(2) r1 nl cs(1) n(2) cs(2) g'(3), of exec]
  obtain s' where s': "script_loop P exec fd line line ?s1 = Some (Value () s')"
    "out (world s') = out (world ?s1) @ script_output (cwd (world ?s1)) cs" "cwd (world s') = foldl next_dir (cwd (world ?s1)) cs"
    by blast
  obtain z w2 where w2: "p_close (procs P) fd (world s') = (z, w2)" by (cases "p_close (procs P) fd (world s')")
  have w2': "out w2 = out (world s')" "cwd w2 = cwd (world s')" using f w2 unfolding script_file_def by (metis snd_conv)+
  have "take 2 interpreter_line = bytes ''#!''" by (simp add: interpreter_line_def)
  then have "executeFile P exec file_path s = Some (Value () (s'\<lparr>world := w2\<rparr>))"
    using s1(1) o1 g'(1) s'(1) w2 by (simp add: after_first_line_def fclose_def)
  then show ?thesis using s'(2,3) w2' g(4,5) w0(3,4) s1(7,8) by simp
qed

section \<open>An example\<close>

text \<open>A system with one file.\<close>

definition one_file :: "u8 list \<Rightarrow> demo_os program" where
  "one_file src = (demo literal_block NULL)\<lparr>procs := demo_procs\<lparr>
     p_open := \<lambda>m p flags ((i, out), sts). (3, ((src, out), sts))\<rparr>\<rparr>"

definition script_memory :: mem where
  "script_memory = literal_blocks @ [Some (bytes ''PATH=/bin/'' @ [0]), Some (bytes ''script'' @ [0])]"

definition script_shell :: "environ_vars \<Rightarrow> demo_os shell" where
  "script_shell vs = \<lparr>memory = script_memory, vars = vs, world = (([], []), [])\<rparr>"

lemma one_file:
  "script_file (procs (one_file src)) (fst \<circ> fst) (snd \<circ> fst) (\<lambda>_. bytes ''/'') name 3 src"
  "directories (procs (one_file src)) (fst \<circ> fst) (snd \<circ> fst) (\<lambda>_. bytes ''/'')"
  "log_apart (io (procs (one_file src))) (fst \<circ> fst) (snd \<circ> fst)"
  using demo_io
  by (auto simp: script_file_def directories_def log_apart_def one_file_def demo_def demo_procs_def demo_io_def file_sys_def
      split: prod.splits)

lemma script_memory:
  "literals (one_file src) script_memory" "cstring script_memory (Ptr 27 0) (bytes ''PATH=/bin/'')"
  "cstring script_memory (Ptr 28 0) (bytes ''script'')"
proof -
  have n: "length literal_blocks = 27" by (simp add: literal_blocks_def length_literals)
  show "literals (one_file src) script_memory"
    unfolding script_memory_def by (rule literals_in_blocks) (simp add: one_file_def demo_def)
  show "cstring script_memory (Ptr 27 0) (bytes ''PATH=/bin/'')" "cstring script_memory (Ptr 28 0) (bytes ''script'')"
    by (rule cstring_in_block [where rest = "[]"]; simp add: script_memory_def block_def nth_append n)+
qed

lemma no_names: "has_names (script_shell (replicate 20 None)) {}"
  unfolding has_names_def script_shell_def by (intro exI [of _ "[]"]) (simp add: bindings_Nil)

section \<open>Scripts\<close>



section \<open>Other files\<close>

text \<open>A file whose first line has no newline, an empty file among them.\<close>

lemma unfinished_first_line:
  assumes f: "script_file (procs P) content out cwd name fd src" and l: "literals P (memory s)" and n: "has_names s K"
    and p: "cstring (memory s) file_path name" and h: "snd (take_line 149 src)"
  shows "executeFile P exec file_path s = None"
proof -
  have lr: "''r'' \<in> set sbush_literals" by (simp add: sbush_literals_def)
  have md: "load (memory s) (literal P ''r'') = Some 0x72" using cstring_head [OF literal_string [OF l lr]] by simp
  obtain w0 where w0: "p_open (procs P) (memory s) file_path 0x72 (world s) = (fd, w0)" "content w0 = src"
    using f p unfolding script_file_def by blast
  let ?s0 = "s\<lparr>world := w0\<rparr>"
  have o1: "fopen P file_path (literal P ''r'') s = Some (fd, ?s0)" using md w0(1) by (simp add: fopen_def)
  have l0: "literals P (memory ?s0)" and n0: "has_names ?s0 K" using l n by (simp_all add: has_names_def)
  obtain line m1 newLine m2 m3 path where b: "new_block (junk P) 150 (memory ?s0) = (line, m1)"
    "new_block (junk P) 150 m1 = (newLine, m2)" "memset newLine 0 150 m2 = Some (newLine, m3)"
    "getenv m3 (literal P ''PATH'') (vars ?s0) = Some path" "script_ready P line K (?s0\<lparr>memory := m3\<rparr>)"
    by (rule script_buffers [OF l0 n0])
  let ?s = "?s0\<lparr>memory := m3\<rparr>"
  have rm: "room (memory ?s) line 150" using b(5) by (simp add: script_ready_def buffer_ready_def)
  have bs: "byte_stream (io (procs P)) fd content" "\<forall>fd n w. out (snd (sys_read (io (procs P)) fd n w)) = out w"
    "\<forall>fd n w. cwd (snd (sys_read (io (procs P)) fd n w)) = cwd w" using f by (simp_all add: script_file_def)
  obtain m w1 where "get_line P line (of_nat 150) fd ?s =
      Some (if snd (take_line (150 - 1) (content (world ?s))) then NULL else line, ?s\<lparr>memory := m, world := w1\<rparr>)"
    by (rule get_line_reads [OF bs(1) _ _ rm bs(2,3)]) auto
  then have "get_line P line 150 fd ?s = Some (NULL, ?s\<lparr>memory := m, world := w1\<rparr>)" using h w0(2) by simp
  then show ?thesis using o1 b(1-4) by (simp add: executeFile_def strlen_def)
qed



text \<open>C6: Scripts of other interpreters. The shell prints the value of \<open>PATH\<close> (a leftover of
  debugging in \<open>execvpe\<close>) and asks the system to execute the program named after \<open>#!\<close>, with that
  name and the file as its arguments. It goes on only if that fails, with a message.\<close>

theorem other_interpreters:
  assumes "script_file (procs P) content out cwd name fd src" and "literals P (memory s)" and "has_names s K"
    and "cstring (memory s) file_path name" and "take_line 149 src = (bytes ''#!'' @ prog @ [0x0A], False)" and "0 \<notin> set prog"
    and "prog \<noteq> bytes ''rootfs/bin/sbush''" and "getenv (memory s) (literal P ''PATH'') (vars s) = Some path"
    and "cstring (memory s) path dirs" and "length dirs < 2 ^ 31" and "write_log (io (procs P)) out"
  shows "\<exists>q s1. cstring (memory s1) q prog \<and> out (world s1) = out (world s) @ [(1, dirs)] \<and> vars s1 = vars s
    \<and> executeFile P exec file_path s =
      (case p_execve (procs P) (memory s1) q [Some q, Some file_path, Some NULL] [Some path, Some NULL] (world s1) of
         (None, w) \<Rightarrow> Some (Ended (s1\<lparr>world := w\<rparr>))
       | (Some r, w) \<Rightarrow> if r = 0 then Some (Value () (s1\<lparr>world := w\<rparr>))
           else map_option (Value ()) (say P (''Error while executing other shell '' @ newline) (s1\<lparr>world := w\<rparr>)))"
proof -
  let ?h = "bytes ''#!'' @ prog"
  have h: "take_line 149 src = (?h @ [0x0A], False)" "0 \<notin> set ?h" using assms(5,6) by simp_all
  obtain line path' s1 where s1: "executeFile P exec file_path s = after_first_line P exec file_path line path' ?h s1"
    "getenv (memory s) (literal P ''PATH'') (vars s) = Some path'" "script_ready P line K s1" "cstring (memory s1) line ?h"
    "extends (memory s) (memory s1)" "vars s1 = vars s" "out (world s1) = out (world s)" "cwd (world s1) = cwd (world s)"
    by (rule first_line [OF assms(1-4) h])
  have p: "path' = path" using s1(2) assms(8) by simp
  obtain w where w: "fputs (io (procs P)) (memory s1) path 1 (world s1) = Some (0, w)" "out w = out (world s1) @ [(1, dirs)]"
    using fputs_log [OF assms(11) cstring_extends [OF s1(5) assms(9)] assms(10)] by blast
  have "take 2 ?h = bytes ''#!''" "?h \<noteq> interpreter_line" using assms(7) by (simp_all add: interpreter_line_def)
  then have "executeFile P exec file_path s =
      (case p_execve (procs P) (memory s1) (padd line 2) [Some (padd line 2), Some file_path, Some NULL] [Some path, Some NULL] w of
         (None, w) \<Rightarrow> Some (Ended (s1\<lparr>world := w\<rparr>))
       | (Some r, w) \<Rightarrow> if r = 0 then Some (Value () (s1\<lparr>world := w\<rparr>))
           else map_option (Value ()) (say P (''Error while executing other shell '' @ newline) (s1\<lparr>world := w\<rparr>)))"
    using s1(1) w(1) p
    by (simp add: after_first_line_def execvpe_def put_string_def map_option_case split: prod.splits option.splits)
  moreover have "cstring (memory s1) (padd line 2) prog" using s1(4) by (simp add: cstring_Cons)
  ultimately show ?thesis
    using w(2) s1(6,7) by (intro exI [of _ "padd line 2"] exI [of _ "s1\<lparr>world := w\<rparr>"])
      (simp split: prod.splits option.splits)
qed

theorem other_interpreters_witness:
  "\<exists>s1. executeFile (one_file (bytes ''#!/bin/sh'' @ [0x0A])) (\<lambda>_ _. None) (Ptr 28 0)
      (script_shell (Some (literal_block ''PATH'', literal_block ''/'') # replicate 19 None)) = Some (Ended s1)"
proof -
  let ?P = "one_file (bytes ''#!/bin/sh'' @ [0x0A])"
  let ?s = "script_shell (Some (literal_block ''PATH'', literal_block ''/'') # replicate 19 None)"
  have l: "literals ?P (memory ?s)" and p: "cstring (memory ?s) (Ptr 28 0) (bytes ''script'')"
    using script_memory by (simp_all add: script_shell_def)
  have lit: "literal (one_file src) = literal_block" for src by (simp add: one_file_def demo_def)
  have k: "cstring (memory ?s) (literal_block ''PATH'') (bytes ''PATH'')" "cstring (memory ?s) (literal_block ''/'') (bytes ''/'')"
    using literal_string [OF l, of "''PATH''"] literal_string [OF l, of "''/''"] by (simp_all add: lit sbush_literals_def)
  let ?kvs = "[(bytes ''PATH'', literal_block ''/'')]"
  have b: "bindings (memory ?s) (vars ?s) ?kvs" unfolding bindings_def
    using k(1) by (intro exI [of _ "[(literal_block ''PATH'', literal_block ''/'')]"]) (simp add: script_shell_def)
  then have n: "has_names ?s {bytes ''PATH''}"
    unfolding has_names_def by (intro exI [of _ ?kvs]) (simp add: script_shell_def)
  have g: "getenv (memory ?s) (literal ?P ''PATH'') (vars ?s) = Some (literal_block ''/'')"
    using getenv_bindings [OF b _ k(1)] by (simp add: lit script_shell_def found_def)
  have h: "take_line 149 (bytes ''#!/bin/sh'' @ [0x0A]) = (bytes ''#!'' @ bytes ''/bin/sh'' @ [0x0A], False)"
    using take_line_word [of "bytes ''#!/bin/sh''" 149 "[]"] by simp
  have lg: "write_log (io (procs ?P)) (snd \<circ> fst)" using one_file(3) by (simp add: log_apart_def)
  obtain q s1 where s1: "executeFile ?P (\<lambda>_ _. None) (Ptr 28 0) ?s =
      (case p_execve (procs ?P) (memory s1) q [Some q, Some (Ptr 28 0), Some NULL] [Some (literal_block ''/''), Some NULL] (world s1) of
         (None, w) \<Rightarrow> Some (Ended (s1\<lparr>world := w\<rparr>))
       | (Some r, w) \<Rightarrow> if r = 0 then Some (Value () (s1\<lparr>world := w\<rparr>))
           else map_option (Value ()) (say ?P (''Error while executing other shell '' @ newline) (s1\<lparr>world := w\<rparr>)))"
    using other_interpreters [OF one_file(1) l n p h _ _ g k(2) _ lg, of "\<lambda>_ _. None"] by auto
  have "p_execve (procs ?P) m q argv envp a = (None, a)" for m q argv envp a by (simp add: one_file_def demo_procs_def)
  then show ?thesis using s1 by auto
qed

end
