(* ===== verification/Cat.thy ===== *)
theory Cat
  imports Process
begin

text \<open>
  The program bin/cat/cat.c: copying from one descriptor to another through a buffer of 4096
  bytes, and its \<open>main\<close>, which opens the file named by the first string of its argument
  vector. Also bin/ls/ls.c, whose body is commented out.
\<close>

section \<open>Operations\<close>

abbreviation (input) O_RDONLY :: i32 where "O_RDONLY \<equiv> 0"

partial_function (option) cat_loop ::
  "'os sys \<Rightarrow> i32 \<Rightarrow> i32 \<Rightarrow> ptr \<Rightarrow> mem \<Rightarrow> 'os \<Rightarrow> (i32 \<times> mem \<times> 'os) option" where
  "cat_loop sys read_fd write_fd buffer m w =
     (case sys_read sys read_fd 4096 w of
        (None, w) \<Rightarrow> Some (-1, m, w)
      | (Some [], w) \<Rightarrow> Some (0, m, w)
      | (Some (x # xs), w) \<Rightarrow> do {
          m \<leftarrow> store_bytes buffer (x # xs) m;
          bs \<leftarrow> load_bytes m buffer (length (x # xs));
          case sys_write sys write_fd bs w of (r, w) \<Rightarrow>
            if r \<noteq> of_nat (length (x # xs)) then Some (-1, m, w)
            else do {
              (q, m) \<leftarrow> memset buffer 0 4096 m;
              cat_loop sys read_fd write_fd buffer m w
            }
        })"

definition cat :: "'os sys \<Rightarrow> (nat \<Rightarrow> nat \<Rightarrow> u8) \<Rightarrow> i32 \<Rightarrow> i32 \<Rightarrow> mem \<Rightarrow> 'os \<Rightarrow> (i32 \<times> mem \<times> 'os) option" where
  "cat sys fill read_fd write_fd m w = do {
     let (buffer, m) = new_block fill 4096 m;
     (q, m) \<leftarrow> memset buffer 0 4096 m;
     cat_loop sys read_fd write_fd buffer m w
   }"

definition cat_main ::
  "'os program \<Rightarrow> nat \<Rightarrow> ptr list \<Rightarrow> 'os shell \<Rightarrow> (i32 \<times> 'os shell) option" where
  "cat_main P argc argv s =
     (if 1 \<le> argc then do {
        path \<leftarrow> (case argv of [] \<Rightarrow> None | a # _ \<Rightarrow> Some a);
        let (fd, w) = p_open (procs P) (memory s) path O_RDONLY (world s);
        let s = s\<lparr>world := w\<rparr>;
        if sint fd < 0 then do {
          s \<leftarrow> put_string P (literal P (''Failed to open file for reading'' @ newline)) 1 s;
          Some (1, s)
        }
        else do {
          (r, m, w) \<leftarrow> cat (io (procs P)) (junk P) fd 1 (memory s) (world s);
          let s = s\<lparr>memory := m, world := w\<rparr>;
          s \<leftarrow> (if r \<noteq> 0 then put_string P (literal P (''Failed to write file to standard output'' @ newline)) 1 s
             else Some s);
          Some (1, s\<lparr>world := snd (p_close (procs P) fd (world s))\<rparr>)
        }
      }
      else do {
        (r, m, w) \<leftarrow> cat (io (procs P)) (junk P) 0 1 (memory s) (world s);
        Some (1, s\<lparr>memory := m, world := w\<rparr>)
      })"

text \<open>The program bin/ls/ls.c only returns 1: the directory functions it would need do not exist.\<close>

definition ls_main :: "nat \<Rightarrow> ptr list \<Rightarrow> 'os shell \<Rightarrow> i32 \<times> 'os shell" where
  "ls_main argc argv s = (1, s)"

section \<open>Copying\<close>

text \<open>What \<open>read\<close> promises of a file: some of the bytes left, at least one if there are any;
  and \<open>write\<close> of an output that accepts everything.\<close>

definition copy_files :: "'os sys \<Rightarrow> i32 \<Rightarrow> i32 \<Rightarrow> ('os \<Rightarrow> u8 list) \<Rightarrow> ('os \<Rightarrow> u8 list) \<Rightarrow> bool" where
  "copy_files sys read_fd write_fd rest out \<longleftrightarrow>
     (\<forall>n w. 0 < n \<longrightarrow> (\<exists>k w'. k \<le> n \<and> sys_read sys read_fd n w = (Some (take k (rest w)), w') \<and> (rest w \<noteq> [] \<longrightarrow> 0 < k)
        \<and> rest w' = drop k (rest w) \<and> out w' = out w))
     \<and> (\<forall>bs w. \<exists>w'. sys_write sys write_fd bs w = (of_nat (length bs), w') \<and> out w' = out w @ bs \<and> rest w' = rest w)"

lemma cat_loop_copies:
  assumes c: "copy_files sys read_fd write_fd rest out"
  shows "room m buffer 4096 \<Longrightarrow>
    \<exists>m' w'. cat_loop sys read_fd write_fd buffer m w = Some (0, m', w') \<and> out w' = out w @ rest w \<and> rest w' = []"
proof (induction "length (rest w)" arbitrary: m w rule: less_induct)
  case less
  obtain k w1 where k: "k \<le> 4096" "sys_read sys read_fd 4096 w = (Some (take k (rest w)), w1)"
    "rest w \<noteq> [] \<longrightarrow> 0 < k" "rest w1 = drop k (rest w)" "out w1 = out w"
    using c unfolding copy_files_def by (metis zero_less_numeral)
  show ?case
  proof (cases "rest w")
    case Nil
    then show ?thesis using k by (subst cat_loop.simps) simp
  next
    case (Cons y ys)
    define bs where "bs = take k (rest w)"
    obtain x xs where bs: "bs = x # xs" using Cons k(3) by (cases k) (auto simp: bs_def)
    have "length bs \<le> 4096" using k(1) by (simp add: bs_def)
    then obtain m1 where m1: "store_bytes buffer bs m = Some m1" "written_at m buffer bs m1"
      using store_bytes_room room_mono [OF less.prems] by blast
    obtain w2 where w2: "sys_write sys write_fd bs w1 = (of_nat (length bs), w2)" "out w2 = out w1 @ bs" "rest w2 = rest w1"
      using c unfolding copy_files_def by blast
    have "room m1 buffer 4096" using less.prems m1(2) by (simp add: room_def written_at_def)
    then obtain m2 where m2: "memset buffer 0 (of_nat 4096) m1 = Some (buffer, m2)"
      "written_at m1 buffer (replicate 4096 (ucast (0 :: i32))) m2"
      using memset_room [of m1 buffer 4096 0] by auto
    have rm: "room m2 buffer 4096" using \<open>room m1 buffer 4096\<close> m2(2) by (simp add: room_def written_at_def)
    have "length (rest w2) < length (rest w)" using k(3,4) w2(3) Cons by simp
    then obtain m' w' where "cat_loop sys read_fd write_fd buffer m2 w2 = Some (0, m', w')"
      "out w' = out w2 @ rest w2" "rest w' = []" using less.hyps [OF _ rm] by blast
    moreover have "cat_loop sys read_fd write_fd buffer m w = cat_loop sys read_fd write_fd buffer m2 w2"
      using k(2) m1(1) load_bytes_written [OF m1(2)] w2(1) m2(1) bs unfolding bs_def [symmetric]
      by (subst cat_loop.simps) (simp del: store_bytes.simps load_bytes.simps list.size)
    moreover have "bs @ rest w2 = rest w" using w2(3) k(4) by (simp add: bs_def)
    ultimately show ?thesis using w2(2) k(5) by auto
  qed
qed

lemma cat_copies:
  assumes "copy_files sys read_fd write_fd rest out"
  shows "\<exists>m' w'. cat sys fill read_fd write_fd m w = Some (0, m', w') \<and> out w' = out w @ rest w \<and> rest w' = []"
proof -
  obtain buffer m1 where nb: "new_block fill 4096 m = (buffer, m1)" by (cases "new_block fill 4096 m") auto
  have rm: "room m1 buffer 4096" by (rule new_block_facts [OF nb])
  then obtain m2 where m2: "memset buffer 0 (of_nat 4096) m1 = Some (buffer, m2)"
    "written_at m1 buffer (replicate 4096 (ucast (0 :: i32))) m2"
    using memset_room [OF rm, of 0] by auto
  have "room m2 buffer 4096" using rm m2(2) by (simp add: room_def written_at_def)
  from cat_loop_copies [OF assms this] show ?thesis using nb m2(1) by (simp add: cat_def)
qed

section \<open>The program\<close>

text \<open>A system for \<open>cat\<close>: what \<open>open\<close>, \<open>read\<close>, \<open>write\<close> and \<open>close\<close> do for a program that reads the
  files \<open>files\<close>. A file that exists is opened at its start under a descriptor that is none of
  the standard ones, a file that does not exist under a negative one; standard input and every
  opened file hand out the bytes left, and standard output keeps what it is given.\<close>

definition cat_system ::
  "'os procs \<Rightarrow> (u8 list \<Rightarrow> u8 list option) \<Rightarrow> (i32 \<Rightarrow> 'os \<Rightarrow> u8 list) \<Rightarrow> ('os \<Rightarrow> u8 list) \<Rightarrow> bool" where
  "cat_system ps files rest shown \<longleftrightarrow>
     (\<forall>m path name w. cstring m path name \<longrightarrow> length name < 2 ^ 31 \<longrightarrow>
        (case p_open ps m path O_RDONLY w of (fd, w') \<Rightarrow> shown w' = shown w
           \<and> (case files name of None \<Rightarrow> sint fd < 0 | Some content \<Rightarrow> 2 < sint fd \<and> rest fd w' = content)))
     \<and> (\<forall>fd. sint fd = 0 \<or> 2 < sint fd \<longrightarrow> copy_files (io ps) fd 1 (rest fd) shown)
     \<and> (\<forall>fd w. shown (snd (p_close ps fd w)) = shown w)"

definition open_message :: "u8 list" where
  "open_message = bytes (''Failed to open file for reading'' @ newline)"

lemma cat_says_failure:
  assumes "copy_files (io (procs P)) fd 1 rest shown" and "cstring (memory s) p msg" and "length msg < 2 ^ 31"
  shows "\<exists>w. put_string P p 1 s = Some (s\<lparr>world := w\<rparr>) \<and> shown w = shown (world s) @ msg"
proof -
  have "load_bytes (memory s) p (length msg) = Some msg"
    using assms(2) by (intro load_bytes_at) (simp add: cstring_def bytes_at_append)
  moreover obtain w where "sys_write (io (procs P)) 1 msg (world s) = (of_nat (length msg), w)" "shown w = shown (world s) @ msg"
    using assms(1) unfolding copy_files_def by blast
  ultimately show ?thesis using strlen_cstring [OF assms(2,3)]
    by (intro exI [of _ w]) (simp add: put_string_def fputs_def)
qed

lemma cat_main_opened:
  assumes sys: "cat_system (procs P) files rest shown" and "1 \<le> argc"
    and "p_open (procs P) (memory s) a O_RDONLY (world s) = (fd, w)" and fd: "2 < sint fd"
  shows "\<exists>s'. cat_main P argc (a # args) s = Some (1, s') \<and> shown (world s') = shown w @ rest fd w"
proof -
  have "copy_files (io (procs P)) fd 1 (rest fd) shown" using sys fd by (simp add: cat_system_def)
  from cat_copies [OF this, of "junk P" "memory s" w] obtain m' w' where
    "cat (io (procs P)) (junk P) fd 1 (memory s) w = Some (0, m', w')" "shown w' = shown w @ rest fd w" by blast
  moreover have "shown (snd (p_close (procs P) fd w')) = shown w'" using sys by (simp add: cat_system_def)
  ultimately show ?thesis using assms(2,3) fd by (simp add: cat_main_def)
qed

text \<open>C20: The program cat, whole. Called with strings, it opens the file named by the first of
  them, which for a shell is the name of the program and not the file the user asked for; if there is
  such a file, it shows exactly its bytes on standard output, otherwise a message. Called
  without strings it shows the rest of standard input. Files may hand out their bytes in pieces of
  any size. In every case, the successful ones too, the exit status is 1.\<close>

theorem cat_main_shows_first_string:
  assumes "cat_system (procs P) files rest shown"
    and "cstring (memory s) (literal P (''Failed to open file for reading'' @ newline)) open_message"
    and "argc = length argv" and "list_all2 (cstring (memory s)) argv names"
    and "list_all (\<lambda>name. length name < 2 ^ 31) names"
  shows "\<exists>s'. cat_main P argc argv s = Some (1, s') \<and> shown (world s') = shown (world s) @
    (case names of [] \<Rightarrow> rest 0 (world s)
     | name # _ \<Rightarrow> (case files name of None \<Rightarrow> open_message | Some content \<Rightarrow> content))"
proof (cases argv)
  case Nil
  have "copy_files (io (procs P)) 0 1 (rest 0) shown" using assms(1) by (simp add: cat_system_def)
  from cat_copies [OF this, of "junk P" "memory s" "world s"] show ?thesis
    using Nil assms(3,4) by (auto simp: cat_main_def)
next
  case (Cons a args)
  obtain name ns where names: "names = name # ns" "cstring (memory s) a name" "length name < 2 ^ 31"
    using Cons assms(4,5) by (cases names) auto
  obtain fd w where op: "p_open (procs P) (memory s) a O_RDONLY (world s) = (fd, w)" by fastforce
  have "case p_open (procs P) (memory s) a O_RDONLY (world s) of (fd, w') \<Rightarrow> shown w' = shown (world s)
      \<and> (case files name of None \<Rightarrow> sint fd < 0 | Some content \<Rightarrow> 2 < sint fd \<and> rest fd w' = content)"
    by (rule conjunct1 [OF assms(1) [unfolded cat_system_def], rule_format, OF names(2,3)])
  then have op2: "shown w = shown (world s)"
    "case files name of None \<Rightarrow> sint fd < 0 | Some content \<Rightarrow> 2 < sint fd \<and> rest fd w = content"
    using op by simp_all
  show ?thesis
  proof (cases "files name")
    case None
    have "copy_files (io (procs P)) 0 1 (rest 0) shown" using assms(1) by (simp add: cat_system_def)
    moreover have "length open_message < 2 ^ 31" by (simp add: open_message_def newline_def bytes_def)
    ultimately obtain w' where
      "put_string P (literal P (''Failed to open file for reading'' @ newline)) 1 (s\<lparr>world := w\<rparr>) = Some (s\<lparr>world := w'\<rparr>)"
      "shown w' = shown w @ open_message"
      using cat_says_failure [of P 0 "rest 0" shown "s\<lparr>world := w\<rparr>"] assms(2) by auto
    then show ?thesis using None op op2 names(1) assms(3) Cons by (simp add: cat_main_def)
  next
    case (Some content)
    have fd: "2 < sint fd" "rest fd w = content" using Some op2 by auto
    from cat_main_opened [OF assms(1) _ op fd(1)] show ?thesis using Some fd(2) op2(1) names(1) assms(3) Cons by simp
  qed
qed

text \<open>A system with the file \<open>hello\<close>, read three bytes at a time, and the call \<open>cat\<close> made of it
  with the two strings \<open>hello\<close> and \<open>x\<close>.\<close>

definition named_file :: "u8 list \<Rightarrow> u8 list option" where
  "named_file = [bytes ''hello'' \<mapsto> bytes ''Hello, World'']"

definition string_from :: "mem \<Rightarrow> ptr \<Rightarrow> u8 list option" where
  "string_from m p = do { n \<leftarrow> strlen m p; load_bytes m p n }"

definition slow_file :: "(u8 list \<times> u8 list) program" where
  "slow_file = \<lparr>procs = \<lparr>
       io = \<lparr>sys_read = \<lambda>fd n (a, b). (Some (take (min n 3) a), (drop (min n 3) a, b)),
         sys_write = \<lambda>fd bs (a, b). (of_nat (length bs), (a, b @ bs))\<rparr>,
       p_open = \<lambda>m p flags (a, b). (case Option.bind (string_from m p) named_file of None \<Rightarrow> (-1, (a, b)) | Some c \<Rightarrow> (3, (c, b))),
       p_close = \<lambda>fd a. (0, a), p_fork = \<lambda>a. (7, a), p_execve = \<lambda>m p argv envp a. (None, a),
       p_waitpid = \<lambda>pid opt a. (pid, None, a), p_chdir = \<lambda>m p a. (0, a), p_getcwd = \<lambda>n a. (bytes ''/'', a),
       p_setpgid = \<lambda>p g a. (0, a), p_pipe = \<lambda>a. (0, Some (4, 5), a), p_dup2 = \<lambda>old new a. (new, a)\<rparr>,
     PS1 = NULL, literal = \<lambda>_. Ptr 2 0, junk = \<lambda>_ _. 7\<rparr>"

definition cat_memory :: mem where
  "cat_memory = [Some (bytes ''hello'' @ [0]), Some (bytes ''x'' @ [0]), Some (open_message @ [0])]"

lemma string_from_cstring: "cstring m p name \<Longrightarrow> length name < 2 ^ 31 \<Longrightarrow> string_from m p = Some name"
  using load_bytes_at [of m p name] by (simp add: string_from_def strlen_cstring cstring_def bytes_at_append)

lemma slow_file_system: "cat_system (procs slow_file) named_file (\<lambda>fd. fst) snd"
proof -
  have "copy_files (io (procs slow_file)) fd 1 fst snd" for fd
    by (auto simp: copy_files_def slow_file_def intro!: exI [of _ "min _ 3"])
  then show ?thesis
    by (simp add: cat_system_def slow_file_def string_from_cstring split: prod.splits option.splits)
qed

theorem cat_main_shows_first_string_witness:
  "\<exists>s'. cat_main slow_file 2 [Ptr 0 0, Ptr 1 0] \<lparr>memory = cat_memory, vars = [], world = ([], [])\<rparr> = Some (1, s')
     \<and> snd (world s') = bytes ''Hello, World''"
proof -
  let ?s = "\<lparr>memory = cat_memory, vars = [], world = ([], [])\<rparr> :: (u8 list \<times> u8 list) shell"
  have c: "cstring cat_memory (Ptr 0 0) (bytes ''hello'')" "cstring cat_memory (Ptr 1 0) (bytes ''x'')"
    "cstring cat_memory (Ptr 2 0) open_message"
    by (simp_all add: cat_memory_def open_message_def newline_def cstring_Cons cstring_Nil bytes_def block_def)
  have l: "literal slow_file str = Ptr 2 0" for str by (simp add: slow_file_def)
  have f: "named_file (bytes ''hello'') = Some (bytes ''Hello, World'')" by (simp add: named_file_def)
  have "\<exists>s'. cat_main slow_file 2 [Ptr 0 0, Ptr 1 0] ?s = Some (1, s') \<and> snd (world s') = snd (world ?s) @
      (case [bytes ''hello'', bytes ''x''] of [] \<Rightarrow> fst (world ?s)
       | name # _ \<Rightarrow> (case named_file name of None \<Rightarrow> open_message | Some content \<Rightarrow> content))"
  proof (rule cat_main_shows_first_string [OF slow_file_system])
    show "cstring (memory ?s) (literal slow_file (''Failed to open file for reading'' @ newline)) open_message"
      using c(3) by (simp only: l shell.select_convs)
    show "list_all2 (cstring (memory ?s)) [Ptr 0 0, Ptr 1 0] [bytes ''hello'', bytes ''x'']" using c by simp
  qed simp_all
  then show ?thesis using f by simp
qed

end
