(* ===== verification/Layout.thy ===== *)
theory Layout
  imports Prelude
begin

text \<open>
  The memory layout of C structures as the compiler for x86-64 makes it: integers of a whole
  number of bytes, little endian; arrays; structures with members and bit fields, packed or
  with natural alignment, and with a minimal alignment of their own. Offsets and sizes are in
  bits. Bit fields are laid out one after the other from the least significant bit, as the
  packed structures of the repository have them.
\<close>

section \<open>Types\<close>

datatype ctype = Scalar nat | Array ctype nat | Struct bool nat members
  and members = End | Field string ctype members | Bits string nat members

text \<open>A structure from its members, packed or not.\<close>

definition packed :: "nat \<Rightarrow> (members \<Rightarrow> members) list \<Rightarrow> ctype" where
  "packed a ms = Struct True a (foldr (\<lambda>m r. m r) ms End)"

definition aligned :: "(members \<Rightarrow> members) list \<Rightarrow> ctype" where
  "aligned ms = Struct False 1 (foldr (\<lambda>m r. m r) ms End)"

text \<open>The next multiple of \<open>k\<close>.\<close>

definition round_up :: "nat \<Rightarrow> nat \<Rightarrow> nat" where
  "round_up n k = (if n mod k = 0 then n else n + (k - n mod k))"

primrec align_of :: "ctype \<Rightarrow> nat" and members_align :: "members \<Rightarrow> nat" where
  "align_of (Scalar n) = n"
| "align_of (Array t k) = align_of t"
| "align_of (Struct p a ms) = max a (if p then 1 else members_align ms)"
| "members_align End = 1"
| "members_align (Field s t ms) = max (align_of t) (members_align ms)"
| "members_align (Bits s w ms) = members_align ms"

text \<open>Where a member of type \<open>t\<close> starts if the members before it end at \<open>pos\<close>.\<close>

definition start_of :: "bool \<Rightarrow> ctype \<Rightarrow> nat \<Rightarrow> nat" where
  "start_of p t pos = round_up pos (8 * (if p then 1 else align_of t))"

primrec size_of :: "ctype \<Rightarrow> nat" and end_of :: "members \<Rightarrow> bool \<Rightarrow> nat \<Rightarrow> nat" where
  "size_of (Scalar n) = 8 * n"
| "size_of (Array t k) = k * size_of t"
| "size_of (Struct p a ms) = round_up (end_of ms p 0) (8 * align_of (Struct p a ms))"
| "end_of End = (\<lambda>p pos. pos)"
| "end_of (Field s t ms) = (\<lambda>p pos. end_of ms p (start_of p t pos + size_of t))"
| "end_of (Bits s w ms) = (\<lambda>p pos. end_of ms p (pos + w))"

section \<open>Places\<close>

text \<open>The path to an integer inside an object, and its place: first bit and number of bits.\<close>

datatype access = Member string | Index nat

definition shift :: "nat \<Rightarrow> (nat \<times> nat) option \<Rightarrow> (nat \<times> nat) option" where
  "shift k = map_option (\<lambda>(a, n). (k + a, n))"

primrec place :: "ctype \<Rightarrow> access list \<Rightarrow> (nat \<times> nat) option"
  and member_place :: "members \<Rightarrow> bool \<Rightarrow> nat \<Rightarrow> string \<Rightarrow> access list \<Rightarrow> (nat \<times> nat) option" where
  "place (Scalar n) = (\<lambda>p. if p = [] then Some (0, 8 * n) else None)"
| "place (Array t k) = (\<lambda>p. case p of
     Index i # r \<Rightarrow> if i < k then shift (i * size_of t) (place t r) else None | _ \<Rightarrow> None)"
| "place (Struct pk a ms) = (\<lambda>p. case p of Member s # r \<Rightarrow> member_place ms pk 0 s r | _ \<Rightarrow> None)"
| "member_place End = (\<lambda>pk pos s r. None)"
| "member_place (Field m t ms) = (\<lambda>pk pos s r.
     if s = m then shift (start_of pk t pos) (place t r)
     else member_place ms pk (start_of pk t pos + size_of t) s r)"
| "member_place (Bits m w ms) = (\<lambda>pk pos s r.
     if s = m then if r = [] then Some (pos, w) else None else member_place ms pk (pos + w) s r)"

text \<open>The equations with all their arguments, for rewriting.\<close>

lemma end_of_eqs [simp]:
  "end_of End pk pos = pos"
  "end_of (Field s t ms) pk pos = end_of ms pk (start_of pk t pos + size_of t)"
  "end_of (Bits s w ms) pk pos = end_of ms pk (pos + w)"
  by simp_all

lemma place_eqs [simp]:
  "place (Scalar n) p = (if p = [] then Some (0, 8 * n) else None)"
  "place (Array t k) [] = None" "place (Array t k) (Member s # p) = None"
  "place (Array t k) (Index i # p) = (if i < k then shift (i * size_of t) (place t p) else None)"
  "place (Struct pk a ms) [] = None" "place (Struct pk a ms) (Index i # p) = None"
  "place (Struct pk a ms) (Member s # p) = member_place ms pk 0 s p"
  "member_place End pk pos s r = None"
  "member_place (Field m t ms) pk pos s r =
     (if s = m then shift (start_of pk t pos) (place t r) else member_place ms pk (start_of pk t pos + size_of t) s r)"
  "member_place (Bits m w ms) pk pos s r =
     (if s = m then if r = [] then Some (pos, w) else None else member_place ms pk (pos + w) s r)"
  by simp_all

declare end_of.simps [simp del] place.simps [simp del] member_place.simps [simp del]

section \<open>Reading and writing\<close>

text \<open>The image of an object is the list of its bits, least significant first.\<close>

definition bits_of :: "u8 list \<Rightarrow> bool list" where
  "bits_of bs = concat (map (\<lambda>b. map (bit b) [0..<8]) bs)"

definition number_of :: "bool list \<Rightarrow> nat" where
  "number_of = horner_sum of_bool 2"

definition read_member :: "ctype \<Rightarrow> access list \<Rightarrow> bool list \<Rightarrow> nat option" where
  "read_member t p img = do { (a, n) \<leftarrow> place t p; Some (number_of (take n (drop a img))) }"

definition write_member :: "ctype \<Rightarrow> access list \<Rightarrow> nat \<Rightarrow> bool list \<Rightarrow> bool list option" where
  "write_member t p v img = do {
     (a, n) \<leftarrow> place t p;
     Some (take a img @ map (bit v) [0..<n] @ drop (a + n) img)
   }"

section \<open>Places do not overlap\<close>

lemma round_up_ge: "n \<le> round_up n k"
  by (simp add: round_up_def)

lemma start_of_ge: "pos \<le> start_of p t pos"
  by (simp add: start_of_def round_up_ge)

lemma end_of_ge_all: "size_of t = size_of t" "pos \<le> end_of ms p pos"
proof (induction t and ms arbitrary: and pos)
  case (Field s t ms)
  have "pos \<le> start_of p t pos + size_of t" using start_of_ge [of pos p t] by simp
  then show ?case using Field(2) [of "start_of p t pos + size_of t"] by simp
next
  case (Bits s w ms)
  have "pos + w \<le> end_of ms p (pos + w)" by (rule Bits)
  then show ?case by simp
qed simp_all

lemmas end_of_ge = end_of_ge_all(2)

lemma shift_Some: "shift k x = Some (a, n) \<longleftrightarrow> (\<exists>b. x = Some (b, n) \<and> a = k + b)"
  by (auto simp: shift_def)

lemma place_inside:
  "place t p = Some (a, n) \<Longrightarrow> a + n \<le> size_of t"
  "member_place ms pk pos s r = Some (b, k) \<Longrightarrow> pos \<le> b \<and> b + k \<le> end_of ms pk pos"
proof (induction t and ms arbitrary: p a n and pk pos s r b k)
  case (Array t k)
  then obtain i r b where i: "p = Index i # r" "i < k" "place t r = Some (b, n)" "a = i * size_of t + b"
    by (auto simp: place.simps shift_Some split: list.splits access.splits if_splits)
  have "b + n \<le> size_of t" by (rule Array.IH [OF i(3)])
  then have "a + n \<le> Suc i * size_of t" using i(4) by simp
  also have "\<dots> \<le> k * size_of t" using i(2) by (intro mult_le_mono1) simp
  finally show ?case by simp
next
  case (Struct pk al ms)
  then obtain s r where "member_place ms pk 0 s r = Some (a, n)" by (auto simp: place.simps split: list.splits access.splits)
  from Struct.IH [OF this] show ?case
    using round_up_ge [of "end_of ms pk 0" "8 * align_of (Struct pk al ms)"] by simp
next
  case (Field m t ms)
  show ?case
  proof (cases "s = m")
    case True
    then obtain c where "place t r = Some (c, k)" "b = start_of pk t pos + c" using Field.prems by (auto simp: shift_Some)
    then show ?thesis
      using Field.IH(1) [of r c k] start_of_ge [of pos pk t] end_of_ge [of "start_of pk t pos + size_of t" ms pk] by simp
  next
    case False
    then show ?thesis
      using Field.IH(2) [of pk "start_of pk t pos + size_of t" s r b k] Field.prems start_of_ge [of pos pk t] by simp
  qed
next
  case (Bits m w ms)
  then show ?case
    using Bits.IH [of pk "pos + w" s r b k] end_of_ge [of "pos + w" ms pk] by (fastforce split: if_splits)
qed (auto split: if_splits)

definition disjoint_places :: "nat \<times> nat \<Rightarrow> nat \<times> nat \<Rightarrow> bool" where
  "disjoint_places x y \<longleftrightarrow> fst x + snd x \<le> fst y \<or> fst y + snd y \<le> fst x"

lemma disjoint_shift: "disjoint_places (a, n) (b, m) \<Longrightarrow> disjoint_places (k + a, n) (k + b, m)"
  by (auto simp: disjoint_places_def)

lemma disjoint_rows:
  fixes i j z :: nat
  assumes "i < j" and "a + n \<le> z"
  shows "disjoint_places (i * z + a, n) (j * z + b, m)"
proof -
  have "Suc i * z \<le> j * z" using assms(1) by (intro mult_le_mono1) simp
  then show ?thesis using assms(2) by (simp add: disjoint_places_def)
qed

lemma disjoint_commute: "disjoint_places x y \<longleftrightarrow> disjoint_places y x"
  by (auto simp: disjoint_places_def)

lemma places_apart:
  "place t p = Some x \<Longrightarrow> place t q = Some y \<Longrightarrow> p \<noteq> q \<Longrightarrow> disjoint_places x y"
  "member_place ms pk pos s r = Some x \<Longrightarrow> member_place ms pk pos s' r' = Some y \<Longrightarrow> (s, r) \<noteq> (s', r') \<Longrightarrow> disjoint_places x y"
proof (induction t and ms arbitrary: p q x y and pk pos s r s' r' x y)
  case (Array t k)
  obtain a n b m where xy: "x = (a, n)" "y = (b, m)" by (cases x, cases y)
  obtain i r a' where i: "p = Index i # r" "i < k" "place t r = Some (a', n)" "a = i * size_of t + a'"
    using Array.prems(1) xy by (auto simp: place.simps shift_Some split: list.splits access.splits if_splits)
  obtain j r' b' where j: "q = Index j # r'" "j < k" "place t r' = Some (b', m)" "b = j * size_of t + b'"
    using Array.prems(2) xy by (auto simp: place.simps shift_Some split: list.splits access.splits if_splits)
  consider "i < j" | "j < i" | "i = j" "r \<noteq> r'" using Array.prems(3) i(1) j(1) by force
  then show ?case
  proof cases
    case 1
    from disjoint_rows [OF this place_inside(1) [OF i(3)]] show ?thesis by (simp add: xy i j)
  next
    case 2
    from disjoint_rows [OF this place_inside(1) [OF j(3)]] show ?thesis by (simp add: xy i j disjoint_commute)
  next
    case 3
    from Array.IH [OF i(3) j(3) 3(2)] disjoint_shift show ?thesis by (simp add: xy i j 3(1))
  qed
next
  case (Struct pk al ms)
  obtain s r where p: "p = Member s # r" "member_place ms pk 0 s r = Some x"
    using Struct.prems(1) by (auto simp: place.simps split: list.splits access.splits)
  obtain s' r' where q: "q = Member s' # r'" "member_place ms pk 0 s' r' = Some y"
    using Struct.prems(2) by (auto simp: place.simps split: list.splits access.splits)
  show ?case by (rule Struct.IH [OF p(2) q(2)]) (use Struct.prems(3) p(1) q(1) in simp)
next
  case (Field m t ms)
  let ?b = "start_of pk t pos"
  have apart: "disjoint_places u v" if "shift ?b (place t f) = Some u" "member_place ms pk (?b + size_of t) g h = Some v" for f g h u v
  proof -
    obtain a n b k where uv: "u = (a, n)" "v = (b, k)" by (cases u, cases v)
    with that(1) obtain a' where a: "place t f = Some (a', n)" "a = ?b + a'" by (auto simp: shift_Some)
    show ?thesis
      using place_inside(1) [OF a(1)] place_inside(2) [of ms pk "?b + size_of t" g h b k] that(2) uv a(2)
      by (simp add: disjoint_places_def)
  qed
  have same: "disjoint_places u v" if "shift ?b (place t f) = Some u" "shift ?b (place t g) = Some v" "f \<noteq> g" for f g u v
    using that Field.IH(1) [of f _ g] disjoint_shift by (cases u; cases v) (auto simp: shift_Some)
  show ?case
    using Field.prems apart same Field.IH(2) [of pk "?b + size_of t" s r x s' r' y]
      apart [of r' y s r x] disjoint_commute [of x y]
    by (auto split: if_splits)
next
  case (Bits m w ms)
  have apart: "disjoint_places (pos, w) v" if "member_place ms pk (pos + w) g h = Some v" for g h v
    using place_inside(2) [of ms pk "pos + w" g h] that by (cases v) (simp add: disjoint_places_def)
  show ?case
    using Bits.prems apart Bits.IH [of pk "pos + w" s r x s' r' y] apart [of s r x] disjoint_commute [of x y]
    by (auto split: if_splits)
qed (auto split: if_splits)

text \<open>Reading gives back what was written, and only there.\<close>

lemma number_of_bits: "number_of (map (bit v) [0..<n]) = take_bit n v"
  by (simp add: number_of_def horner_sum_bit_eq_take_bit)

lemma take_drop_apart:
  assumes "b + m \<le> a \<or> a + length xs \<le> b" and "a + length xs \<le> length img"
  shows "take m (drop b (take a img @ xs @ drop (a + length xs) img)) = take m (drop b img)"
proof (rule nth_equalityI)
  show "length (take m (drop b (take a img @ xs @ drop (a + length xs) img))) = length (take m (drop b img))"
    using assms by auto
next
  let ?img = "take a img @ xs @ drop (a + length xs) img"
  fix i assume "i < length (take m (drop b ?img))"
  then have i: "i < m" "b + i < length img" using assms(2) by (auto simp del: take_append drop_append)
  then have "b + i < a \<or> a + length xs \<le> b + i" using assms(1) by auto
  then have "?img ! (b + i) = img ! (b + i)" using i(2) assms(2) by (auto simp: nth_append)
  then show "take m (drop b ?img) ! i = take m (drop b img) ! i"
    using i assms(2) by (simp del: take_append drop_append)
qed

lemma write_member_total:
  "place t p = Some (a, n) \<Longrightarrow>
    \<exists>img'. write_member t p v img = Some img' \<and> img' = take a img @ map (bit v) [0..<n] @ drop (a + n) img"
  by (simp add: write_member_def)

lemma read_written:
  assumes p: "place t p = Some (a, n)" and len: "length img = size_of t" and w: "write_member t p v img = Some img'"
  shows "length img' = size_of t" "read_member t p img' = Some (take_bit n v)"
    "q \<noteq> p \<Longrightarrow> read_member t q img' = read_member t q img"
proof -
  have i: "img' = take a img @ map (bit v) [0..<n] @ drop (a + n) img" using w p by (simp add: write_member_def)
  have le: "a + n \<le> length img" using place_inside(1) [OF p] len by simp
  show "length img' = size_of t" using le len by (simp add: i)
  have "take n (drop a img') = map (bit v) [0..<n]" using le by (simp add: i)
  then show "read_member t p img' = Some (take_bit n v)" using p by (simp add: read_member_def number_of_bits)
  show "read_member t q img' = read_member t q img" if "q \<noteq> p"
  proof (cases "place t q")
    case None
    then show ?thesis by (simp add: read_member_def)
  next
    case (Some y)
    obtain b m where y: "y = (b, m)" by (cases y)
    have "disjoint_places (b, m) (a, n)" using places_apart(1) [OF Some p] that y by simp
    then have "take m (drop b img') = take m (drop b img)"
      using take_drop_apart [of b m a "map (bit v) [0..<n]" img] le by (auto simp: i disjoint_places_def)
    then show ?thesis using Some y by (simp add: read_member_def)
  qed
qed

end
