(* ===== verification/Ahci.thy ===== *)
theory Ahci
  imports Layout
begin

text \<open>
  The structures of include/sys/ahci.h: the frame information structures (FIS), the tables in
  memory and the memory-mapped registers of an AHCI controller, and the places that the
  controller's documentation gives them, which the comments of the header repeat.
\<close>

section \<open>Integers\<close>

definition uint8_t :: ctype where "uint8_t = Scalar 1"
definition uint16_t :: ctype where "uint16_t = Scalar 2"
definition uint32_t :: ctype where "uint32_t = Scalar 4"
definition uint64_t :: ctype where "uint64_t = Scalar 8"

abbreviation (input) MAX_CMD_SLOT_CNT :: nat where "MAX_CMD_SLOT_CNT \<equiv> 32"
abbreviation (input) MAX_PORT_CNT :: nat where "MAX_PORT_CNT \<equiv> 32"

section \<open>Structures\<close>

text \<open>The types of a FIS and their codes.\<close>

datatype fis_type_t = FIS_TYPE_REG_H2D | FIS_TYPE_REG_D2H | FIS_TYPE_DMA_ACT | FIS_TYPE_DMA_SETUP
  | FIS_TYPE_DATA | FIS_TYPE_BIST | FIS_TYPE_PIO_SETUP | FIS_TYPE_DEV_BITS

primrec fis_code :: "fis_type_t \<Rightarrow> u8" where
  "fis_code FIS_TYPE_REG_H2D = 0x27"
| "fis_code FIS_TYPE_REG_D2H = 0x34"
| "fis_code FIS_TYPE_DMA_ACT = 0x39"
| "fis_code FIS_TYPE_DMA_SETUP = 0x41"
| "fis_code FIS_TYPE_DATA = 0x46"
| "fis_code FIS_TYPE_BIST = 0x58"
| "fis_code FIS_TYPE_PIO_SETUP = 0x5F"
| "fis_code FIS_TYPE_DEV_BITS = 0xA1"

text \<open>Register FIS, host to device and device to host.\<close>

definition fis_reg_h2d_t :: ctype where
  "fis_reg_h2d_t = packed 1
    [Field ''fis_type'' uint8_t, Bits ''pmport'' 4, Bits ''rsv0'' 3, Bits ''c'' 1, Field ''command'' uint8_t,
     Field ''featurel'' uint8_t, Field ''lba0'' uint8_t, Field ''lba1'' uint8_t, Field ''lba2'' uint8_t,
     Field ''device'' uint8_t, Field ''lba3'' uint8_t, Field ''lba4'' uint8_t, Field ''lba5'' uint8_t,
     Field ''featureh'' uint8_t, Field ''count'' uint16_t, Field ''icc'' uint8_t, Field ''control'' uint8_t,
     Field ''aux'' uint16_t, Field ''rsv1'' (Array uint8_t 2)]"

definition fis_reg_d2h_t :: ctype where
  "fis_reg_d2h_t = packed 1
    [Field ''fis_type'' uint8_t, Bits ''pmport'' 4, Bits ''rsv0'' 2, Bits ''i'' 1, Bits ''rsv1'' 1,
     Field ''status'' uint8_t, Field ''error'' uint8_t, Field ''lba0'' uint8_t, Field ''lba1'' uint8_t,
     Field ''lba2'' uint8_t, Field ''device'' uint8_t, Field ''lba3'' uint8_t, Field ''lba4'' uint8_t,
     Field ''lba5'' uint8_t, Field ''rsv2'' uint8_t, Field ''count'' uint16_t,
     Field ''rsv3'' (Array uint8_t 2), Field ''rsv4'' (Array uint8_t 4)]"

text \<open>Set device bits, DMA setup and PIO setup.\<close>

definition fis_dev_bits_t :: ctype where
  "fis_dev_bits_t = packed 1
    [Field ''fis_type'' uint8_t, Bits ''pmport'' 4, Bits ''rsv0'' 2, Bits ''i'' 1, Bits ''n'' 1,
     Bits ''statusl'' 3, Bits ''rsv1'' 1, Bits ''statush'' 3, Bits ''rsv2'' 1, Field ''error'' uint8_t,
     Field ''protocol'' uint32_t]"

definition fis_dma_setup_t :: ctype where
  "fis_dma_setup_t = packed 1
    [Field ''fis_type'' uint8_t, Bits ''pmport'' 4, Bits ''rsv0'' 1, Bits ''d'' 1, Bits ''i'' 1,
     Bits ''a'' 1, Field ''rsved'' (Array uint8_t 2), Field ''buf_id'' uint64_t, Field ''rsv1'' uint32_t,
     Field ''buf_offset'' uint32_t, Field ''trans_count'' uint32_t, Field ''rsv2'' uint32_t]"

definition fis_pio_setup_t :: ctype where
  "fis_pio_setup_t = packed 1
    [Field ''fis_type'' uint8_t, Bits ''pmport'' 4, Bits ''rsv0'' 1, Bits ''d'' 1, Bits ''i'' 1,
     Bits ''rsv1'' 1, Field ''status'' uint8_t, Field ''error'' uint8_t, Field ''lba0'' uint8_t,
     Field ''lba1'' uint8_t, Field ''lba2'' uint8_t, Field ''device'' uint8_t, Field ''lba3'' uint8_t,
     Field ''lba4'' uint8_t, Field ''lba5'' uint8_t, Field ''rsv2'' uint8_t, Field ''count'' uint16_t,
     Field ''rsv3'' uint8_t, Field ''e_status'' uint8_t, Field ''trans_count'' uint16_t,
     Field ''rsv4'' (Array uint8_t 2)]"

text \<open>Data, and the physical region descriptor table entry.\<close>

definition fis_data_t :: ctype where
  "fis_data_t = packed 1
    [Field ''fis_type'' uint8_t, Bits ''pmport'' 4, Bits ''rsv0'' 4, Field ''rsv1'' (Array uint8_t 2),
     Field ''data'' (Array uint32_t 1)]"

definition hba_prdt_entry_t :: ctype where
  "hba_prdt_entry_t = packed 1
    [Field ''dba'' uint64_t, Field ''rsv0'' uint32_t, Bits ''dbc'' 22, Bits ''rsv1'' 9, Bits ''i'' 1]"

text \<open>Command table and command header.\<close>

definition hba_cmd_tbl_t :: ctype where
  "hba_cmd_tbl_t = packed 128
    [Field ''cfis'' (Array uint8_t 64), Field ''acmd'' (Array uint8_t 16), Field ''rsv'' (Array uint8_t 48),
     Field ''prdt_entry'' (Array hba_prdt_entry_t 1)]"

definition hba_cmd_header_t :: ctype where
  "hba_cmd_header_t = packed 1
    [Bits ''cfl'' 5, Bits ''a'' 1, Bits ''w'' 1, Bits ''p'' 1, Bits ''r'' 1, Bits ''b'' 1, Bits ''c'' 1,
     Bits ''rsv0'' 1, Bits ''pmp'' 4, Field ''prdtl'' uint16_t, Field ''prdbc'' uint32_t,
     Field ''ctba'' uint64_t, Field ''rsv1'' (Array uint32_t 4)]"

text \<open>The received-FIS area and the command list.\<close>

definition hba_fis_t :: ctype where
  "hba_fis_t = packed 256
    [Field ''dsfis'' fis_dma_setup_t, Field ''pad0'' (Array uint8_t 4), Field ''psfis'' fis_pio_setup_t,
     Field ''pad1'' (Array uint8_t 12), Field ''rfis'' fis_reg_d2h_t, Field ''pad2'' (Array uint8_t 4),
     Field ''sdbfis'' fis_dev_bits_t, Field ''ufis'' (Array uint8_t 64), Field ''rsv'' (Array uint8_t 96)]"

definition hba_cmd_list_t :: ctype where
  "hba_cmd_list_t = packed 1024
    [Field ''headers'' (Array hba_cmd_header_t MAX_CMD_SLOT_CNT)]"

text \<open>The registers of a port and of the controller.\<close>

definition hba_port_t :: ctype where
  "hba_port_t = packed 1
    [Field ''clb'' uint64_t, Field ''fb'' uint64_t, Field ''is_rwc'' uint32_t, Field ''ie'' uint32_t,
     Field ''cmd'' uint32_t, Field ''rsv0'' uint32_t, Field ''tfd'' uint32_t, Field ''sig'' uint32_t,
     Field ''ssts'' uint32_t, Field ''sctl'' uint32_t, Field ''serr_rwc'' uint32_t, Field ''sact'' uint32_t,
     Field ''ci'' uint32_t, Field ''sntf_rwc'' uint32_t, Field ''fbs'' uint32_t,
     Field ''rsv1'' (Array uint32_t 11), Field ''vendor'' (Array uint32_t 4)]"

definition hba_mem_t :: ctype where
  "hba_mem_t = packed 1
    [Field ''cap'' uint32_t, Field ''ghc'' uint32_t, Field ''is_rwc'' uint32_t, Field ''pi'' uint32_t,
     Field ''vs'' uint32_t, Field ''ccc_ctl'' uint32_t, Field ''ccc_pts'' uint32_t,
     Field ''em_loc'' uint32_t, Field ''em_ctl'' uint32_t, Field ''cap2'' uint32_t, Field ''bohc'' uint32_t,
     Field ''rsv'' (Array uint8_t (0xA0 - 0x2C)), Field ''vendor'' (Array uint8_t (0x100 - 0xA0)),
     Field ''ports'' (Array hba_port_t MAX_PORT_CNT)]"

lemmas integer_types = uint8_t_def uint16_t_def uint32_t_def uint64_t_def

lemmas layout_rules = packed_def aligned_def start_of_def round_up_def shift_def

section \<open>Sizes\<close>

lemma fis_sizes [simp]:
  "size_of fis_reg_h2d_t = 8 * 20" "size_of fis_reg_d2h_t = 8 * 20" "size_of fis_dev_bits_t = 8 * 8"
  "size_of fis_dma_setup_t = 8 * 28" "size_of fis_pio_setup_t = 8 * 20" "size_of fis_data_t = 8 * 8"
  by (simp_all add: fis_reg_h2d_t_def fis_reg_d2h_t_def fis_dev_bits_t_def fis_dma_setup_t_def fis_pio_setup_t_def
      fis_data_t_def integer_types layout_rules)

lemma table_sizes [simp]:
  "size_of hba_prdt_entry_t = 8 * 16" "size_of hba_cmd_tbl_t = 8 * 256" "size_of hba_cmd_header_t = 8 * 32"
  "size_of hba_fis_t = 8 * 256" "size_of hba_port_t = 8 * 0x80"
  by (simp_all add: hba_prdt_entry_t_def hba_cmd_tbl_t_def hba_cmd_header_t_def hba_fis_t_def hba_port_t_def
      integer_types layout_rules)

lemma memory_sizes [simp]: "size_of hba_cmd_list_t = 8 * 1024" "size_of hba_mem_t = 8 * 0x1100"
  by (simp_all add: hba_cmd_list_t_def hba_mem_t_def integer_types layout_rules)

section \<open>The registers\<close>

text \<open>The registers of the controller and of a port: name, offset and number of bytes.\<close>

definition global_map :: "(string \<times> nat \<times> nat) list" where
  "global_map = [(''cap'', 0x00, 4), (''ghc'', 0x04, 4), (''is_rwc'', 0x08, 4), (''pi'', 0x0C, 4), (''vs'', 0x10, 4),
     (''ccc_ctl'', 0x14, 4), (''ccc_pts'', 0x18, 4), (''em_loc'', 0x1C, 4), (''em_ctl'', 0x20, 4), (''cap2'', 0x24, 4),
     (''bohc'', 0x28, 4)]"

definition port_map :: "(string \<times> nat \<times> nat) list" where
  "port_map = [(''clb'', 0x00, 8), (''fb'', 0x08, 8), (''is_rwc'', 0x10, 4), (''ie'', 0x14, 4), (''cmd'', 0x18, 4),
     (''tfd'', 0x20, 4), (''sig'', 0x24, 4), (''ssts'', 0x28, 4), (''sctl'', 0x2C, 4), (''serr_rwc'', 0x30, 4),
     (''sact'', 0x34, 4), (''ci'', 0x38, 4), (''sntf_rwc'', 0x3C, 4), (''fbs'', 0x40, 4)]"

definition hba_registers :: "(access list \<times> nat \<times> nat) list" where
  "hba_registers = map (\<lambda>(r, off, n). ([Member r], off, n)) global_map
     @ concat (map (\<lambda>i. map (\<lambda>(r, off, n). ([Member ''ports'', Index i, Member r], 0x100 + 0x80 * i + off, n)) port_map)
         [0..<MAX_PORT_CNT])"

lemma global_places: "list_all (\<lambda>(r, off, n). place hba_mem_t [Member r] = Some (8 * off, 8 * n)) global_map"
  by (simp add: global_map_def hba_mem_t_def integer_types layout_rules)

lemma port_places: "list_all (\<lambda>(r, off, n). place hba_port_t [Member r] = Some (8 * off, 8 * n)) port_map"
  by (simp add: port_map_def hba_port_t_def integer_types layout_rules)

lemma ports_place:
  "place hba_mem_t (Member ''ports'' # Index i # p) =
     (if i < MAX_PORT_CNT then shift (8 * (0x100 + 0x80 * i)) (place hba_port_t p) else None)"
  by (cases "place hba_port_t p") (simp_all add: hba_mem_t_def integer_types layout_rules split: prod.splits)

lemma register_place: "(r, off, n) \<in> set hba_registers \<Longrightarrow> place hba_mem_t r = Some (8 * off, 8 * n)"
  using global_places port_places
  by (fastforce simp: hba_registers_def list_all_iff ports_place shift_def)



section \<open>The tables in memory\<close>


end
