(* ===== verification/Structures.thy ===== *)
theory Structures
  imports Ahci Idt Gdt Parser
begin

text \<open>
  The layout of the other structures: those that the kernel shares with the processor (gates,
  descriptor table registers, the task state segment and its descriptor), for which the
  models of Idt and Gdt are shown to agree with it; the headers of the tar and ELF formats; and
  the structures of the user programs.
\<close>

section \<open>Integers\<close>

definition int_t :: ctype where "int_t = Scalar 4"
definition char_t :: ctype where "char_t = Scalar 1"
definition pointer :: ctype where "pointer = Scalar 8"

lemmas basic_types = integer_types int_t_def char_t_def pointer_def

section \<open>Structures of the kernel\<close>

definition idtd_layout :: ctype where
  "idtd_layout = packed 1
    [Field ''offset_1'' uint16_t, Field ''selector'' uint16_t, Field ''ist'' uint8_t, Field ''type'' uint8_t,
     Field ''offset_2'' uint16_t, Field ''offset_3'' uint32_t, Field ''zero'' uint32_t]"

definition idtr_layout :: ctype where
  "idtr_layout = packed 1
    [Field ''limit'' uint16_t, Field ''base'' uint64_t]"

definition tss_layout :: ctype where
  "tss_layout = packed 1
    [Field ''reserved_0'' uint32_t, Field ''rsp0'' pointer, Field ''rsp1'' pointer, Field ''rsp2'' pointer,
     Field ''reserved_1'' uint64_t, Field ''ist1'' pointer, Field ''ist2'' pointer, Field ''ist3'' pointer,
     Field ''ist4'' pointer, Field ''ist5'' pointer, Field ''ist6'' pointer, Field ''ist7'' pointer,
     Field ''reserved_2'' uint64_t, Field ''reserved_3'' uint16_t, Field ''iomap_base'' uint16_t]"

definition sys_segment_descriptor :: ctype where
  "sys_segment_descriptor = packed 1
    [Bits ''sd_lolimit'' 16, Bits ''sd_lobase'' 24, Bits ''sd_type'' 5, Bits ''sd_dpl'' 2, Bits ''sd_p'' 1,
     Bits ''sd_hilimit'' 4, Bits ''sd_xx1'' 3, Bits ''sd_gran'' 1, Bits ''sd_hibase'' 40, Bits ''sd_xx2'' 8,
     Bits ''sd_zero'' 5, Bits ''sd_xx3'' 19]"

definition gdtr_layout :: ctype where
  "gdtr_layout = packed 1
    [Field ''size'' uint16_t, Field ''addr'' uint64_t]"

section \<open>Formats\<close>

definition posix_header_ustar :: ctype where
  "posix_header_ustar = aligned
    [Field ''name'' (Array char_t 100), Field ''mode'' (Array char_t 8), Field ''uid'' (Array char_t 8),
     Field ''gid'' (Array char_t 8), Field ''size'' (Array char_t 12), Field ''mtime'' (Array char_t 12),
     Field ''checksum'' (Array char_t 8), Field ''typeflag'' (Array char_t 1),
     Field ''linkname'' (Array char_t 100), Field ''magic'' (Array char_t 6),
     Field ''version'' (Array char_t 2), Field ''uname'' (Array char_t 32),
     Field ''gname'' (Array char_t 32), Field ''devmajor'' (Array char_t 8),
     Field ''devminor'' (Array char_t 8), Field ''prefix'' (Array char_t 155),
     Field ''pad'' (Array char_t 12)]"

text \<open>The integer types of the ELF header: the type definitions of include/sys/elf64.h, read in the
  direction that they are meant in (they are written the other way round).\<close>

definition Elf64_Addr :: ctype where "Elf64_Addr = uint64_t"
definition Elf64_Half :: ctype where "Elf64_Half = uint16_t"
definition Elf64_Off :: ctype where "Elf64_Off = uint64_t"
definition Elf64_Word :: ctype where "Elf64_Word = uint32_t"
definition Elf64_Xword :: ctype where "Elf64_Xword = uint64_t"

lemmas elf_types = Elf64_Addr_def Elf64_Half_def Elf64_Off_def Elf64_Word_def Elf64_Xword_def

abbreviation (input) EI_NIDENT :: nat where "EI_NIDENT \<equiv> 16"

definition Elf64_Ehdr :: ctype where
  "Elf64_Ehdr = aligned
    [Field ''e_ident'' (Array uint8_t EI_NIDENT), Field ''e_type'' Elf64_Half,
     Field ''e_machine'' Elf64_Half, Field ''e_version'' Elf64_Word, Field ''e_entry'' Elf64_Addr,
     Field ''e_phoff'' Elf64_Off, Field ''e_shoff'' Elf64_Off, Field ''e_flags'' Elf64_Word,
     Field ''e_ehsize'' Elf64_Half, Field ''e_phentsize'' Elf64_Half, Field ''e_phnum'' Elf64_Half,
     Field ''e_shentsize'' Elf64_Half, Field ''e_shnum'' Elf64_Half, Field ''e_shstrndx'' Elf64_Half]"

definition Elf64_Phdr :: ctype where
  "Elf64_Phdr = aligned
    [Field ''p_type'' Elf64_Word, Field ''p_flags'' Elf64_Word, Field ''p_offset'' Elf64_Off,
     Field ''p_vaddr'' Elf64_Addr, Field ''p_paddr'' Elf64_Addr, Field ''p_filesz'' Elf64_Xword,
     Field ''p_memsz'' Elf64_Xword, Field ''p_align'' Elf64_Xword]"

section \<open>Structures of the user programs\<close>

definition meta_block_layout :: ctype where
  "meta_block_layout = aligned
    [Field ''addr'' pointer, Field ''blockSize'' int_t, Field ''next'' pointer]"

definition commandArgument_layout :: ctype where
  "commandArgument_layout = aligned
    [Field ''trimmedInput'' pointer, Field ''command'' pointer,
     Field ''arguments'' (Array pointer MAX_ARGUMENTS), Field ''isBackground'' int_t,
     Field ''argumentCount'' int_t]"

abbreviation (input) NAME_MAX :: nat where "NAME_MAX \<equiv> 255"

definition dirent :: ctype where
  "dirent = aligned [Field ''d_name'' (Array char_t (NAME_MAX + 1))]"

definition sigset_t :: ctype where "sigset_t = Scalar 4"

definition SigactionData :: ctype where
  "SigactionData = aligned
    [Field ''sa_handler'' pointer, Field ''sa_sigaction'' pointer, Field ''sa_mask'' sigset_t,
     Field ''sa_flags'' int_t, Field ''sa_restorer'' pointer]"

text \<open>The standard streams of libc/stdio.c and the accessor of libc/fileno.c.\<close>

definition FILE :: ctype where
  "FILE = aligned [Field ''fd'' int_t]"

definition STDIN :: "bool list" where "STDIN = bits_of (le_bytes 4 (0 :: i32))"
definition STDOUT :: "bool list" where "STDOUT = bits_of (le_bytes 4 (1 :: i32))"
definition STDERR :: "bool list" where "STDERR = bits_of (le_bytes 4 (2 :: i32))"

definition fileno :: "bool list \<Rightarrow> nat option" where
  "fileno fp = read_member FILE [Member ''fd''] fp"

section \<open>Images\<close>

lemma bits_of_simps [simp]: "bits_of [] = []" "bits_of (xs @ ys) = bits_of xs @ bits_of ys"
  unfolding bits_of_def by (simp_all only: list.map concat.simps map_append concat_append)

lemma bits_of_Cons: "bits_of (b # bs) = map (bit b) [0..<8] @ bits_of bs"
  unfolding bits_of_def by (simp only: list.map concat.simps)

lemma length_bits_of [simp]: "length (bits_of xs) = 8 * length xs"
  by (induction xs) (simp_all only: bits_of_simps bits_of_Cons length_append length_map length_upt list.size, simp)

lemma upt_split: "[0..<8 + n] = [0..<8] @ map (\<lambda>i. 8 + i) [0..<n]"
proof -
  have "[0..<8 + n] = [0..<8] @ [8..<8 + n]" by (rule upt_add_eq_append) simp
  moreover have "[8..<8 + n] = map (\<lambda>i. 8 + i) [0..<n]" by (rule nth_equalityI) simp_all
  ultimately show ?thesis by (simp only:)
qed

lemma bits_of_le_bytes: "bits_of (le_bytes n w) = map (bit w) [0..<8 * n]"
proof (induction n arbitrary: w)
  case 0
  then show ?case by simp
next
  case (Suc n)
  have "bits_of (le_bytes (Suc n) w) = map (bit (ucast w :: u8)) [0..<8] @ bits_of (le_bytes n (drop_bit 8 w))"
    by (simp only: le_bytes.simps bits_of_Cons)
  also have "map (bit (ucast w :: u8)) [0..<8] = map (bit w) [0..<8]"
    by (rule map_cong [OF refl]) (auto simp: bit_simps)
  also have "bits_of (le_bytes n (drop_bit 8 w)) = map (bit w) (map (\<lambda>i. 8 + i) [0..<8 * n])"
    by (simp add: Suc.IH bit_drop_bit_eq comp_def)
  finally show ?case using upt_split [of "8 * n"] by simp
qed

lemma bits_of_byte: "bits_of [b] = map (bit b) [0..<8]"
  by (simp only: bits_of_Cons bits_of_simps append_Nil2)

lemma number_of_word:
  fixes w :: "'a::len word"
  assumes "LENGTH('a) \<le> n"
  shows "number_of (map (bit w) [0..<n]) = unat w"
proof -
  have "map (bit w) [0..<n] = map (bit (unat w)) [0..<n]" by (simp add: bit_unsigned_iff)
  moreover have "take_bit n (unat w) = unat w"
    using less_le_trans [OF unsigned_less [of w], of "2 ^ n"] assms by (intro take_bit_nat_eq_self) simp
  ultimately show ?thesis using number_of_bits [of "unat w" n] by (simp only:)
qed

text \<open>Reading an integer out of a run of bytes.\<close>

lemma number_of_le_bytes:
  fixes w :: "'a::len word"
  shows "LENGTH('a) \<le> 8 * n \<Longrightarrow> number_of (bits_of (le_bytes n w)) = unat w"
  unfolding bits_of_le_bytes by (rule number_of_word)

lemma number_of_byte: "number_of (bits_of [b]) = unat b"
  unfolding bits_of_byte by (rule number_of_word) simp

lemma bits_of_runs:
  "bits_of (x # y # zs) = bits_of [x] @ bits_of (y # zs)"
  "bits_of (x # le_bytes n w @ zs) = bits_of [x] @ bits_of (le_bytes n w) @ bits_of zs"
  by (simp_all only: bits_of_Cons bits_of_simps append_Nil2 append_assoc)

lemmas image_rules = number_of_le_bytes number_of_byte bits_of_runs

section \<open>The descriptor of the task state segment\<close>

lemma write_bits:
  assumes "lo + n \<le> 128" and "n \<le> 64"
  shows "take lo (map (bit w) [0..<128]) @ map (bit (unat v)) [0..<n] @ drop (lo + n) (map (bit w) [0..<128])
     = map (bit (set_field lo n v w)) [0..<128]"
proof (rule nth_equalityI)
  show "length (take lo (map (bit w) [0..<128]) @ map (bit (unat v)) [0..<n] @ drop (lo + n) (map (bit w) [0..<128]))
      = length (map (bit (set_field lo n v w)) [0..<128])"
    using assms by (simp del: upt_conv_Cons)
next
  fix i assume "i < length (take lo (map (bit w) [0..<128]) @ map (bit (unat v)) [0..<n] @ drop (lo + n) (map (bit w) [0..<128]))"
  then have i: "i < 128" using assms by (simp del: upt_conv_Cons)
  have "bit (set_field lo n v w) i = (if lo \<le> i \<and> i < lo + n then bit v (i - lo) else bit w i)"
    using i assms by (auto simp: set_field_def bit_simps)
  then show "(take lo (map (bit w) [0..<128]) @ map (bit (unat v)) [0..<n] @ drop (lo + n) (map (bit w) [0..<128])) ! i
      = map (bit (set_field lo n v w)) [0..<128] ! i"
    using i assms by (auto simp: nth_append bit_unsigned_iff simp del: upt_conv_Cons)
qed

lemma write_descriptor:
  assumes "place sys_segment_descriptor [Member s] = Some (lo, n)" and "lo + n \<le> 128" and "n \<le> 64"
  shows "write_member sys_segment_descriptor [Member s] (unat v) (map (bit w) [0..<128])
     = Some (map (bit (set_field lo n v w)) [0..<128])"
  unfolding write_member_def assms(1) using write_bits [OF assms(2,3), of w v] by simp


section \<open>The images in Idt and Gdt\<close>

text \<open>The gates, the task state segment and the registers as bytes. The images of a gate and of the
  TSS that Idt and Gdt use are those of the declarations: every member is read back from its
  place.\<close>

theorem images_follow_layout:
  "list_all (\<lambda>(s, v). read_member idtd_layout [Member s] (bits_of (idtd_bytes d)) = Some v)
      [(''offset_1'', unat (offset_1 d)), (''selector'', unat (selector d)), (''ist'', unat (ist d)), (''type'', unat (gate_type d)),
       (''offset_2'', unat (offset_2 d)), (''offset_3'', unat (offset_3 d)), (''zero'', unat (gate_zero d))]
    \<and> list_all (\<lambda>(s, v). read_member tss_layout [Member s] (bits_of (tss_bytes t)) = Some v)
      [(''reserved_0'', unat (reserved_0 t)), (''rsp0'', unat (rsp0 t)), (''rsp1'', unat (rsp1 t)), (''rsp2'', unat (rsp2 t)),
       (''reserved_1'', unat (reserved_1 t)), (''ist1'', unat (ist1 t)), (''ist2'', unat (ist2 t)), (''ist3'', unat (ist3 t)),
       (''ist4'', unat (ist4 t)), (''ist5'', unat (ist5 t)), (''ist6'', unat (ist6 t)), (''ist7'', unat (ist7 t)),
       (''reserved_2'', unat (reserved_2 t)), (''reserved_3'', unat (reserved_3 t)), (''iomap_base'', unat (iomap_base t))]
    \<and> size_of idtd_layout = 8 * length (idtd_bytes d) \<and> size_of tss_layout = 8 * length (tss_bytes t)
    \<and> size_of idtr_layout = 80 \<and> size_of gdtr_layout = 80"
proof -
  have "list_all (\<lambda>(s, v). read_member idtd_layout [Member s] (bits_of (idtd_bytes d)) = Some v)
      [(''offset_1'', unat (offset_1 d)), (''selector'', unat (selector d)), (''ist'', unat (ist d)), (''type'', unat (gate_type d)),
       (''offset_2'', unat (offset_2 d)), (''offset_3'', unat (offset_3 d)), (''zero'', unat (gate_zero d))]"
    by (simp add: read_member_def idtd_layout_def idtd_bytes_def basic_types layout_rules image_rules
        del: le_bytes.simps)
  moreover have "list_all (\<lambda>(s, v). read_member tss_layout [Member s] (bits_of (tss_bytes t)) = Some v)
      [(''reserved_0'', unat (reserved_0 t)), (''rsp0'', unat (rsp0 t)), (''rsp1'', unat (rsp1 t)), (''rsp2'', unat (rsp2 t)),
       (''reserved_1'', unat (reserved_1 t)), (''ist1'', unat (ist1 t)), (''ist2'', unat (ist2 t)), (''ist3'', unat (ist3 t)),
       (''ist4'', unat (ist4 t)), (''ist5'', unat (ist5 t)), (''ist6'', unat (ist6 t)), (''ist7'', unat (ist7 t)),
       (''reserved_2'', unat (reserved_2 t)), (''reserved_3'', unat (reserved_3 t)), (''iomap_base'', unat (iomap_base t))]"
    by (simp add: read_member_def tss_layout_def tss_bytes_def basic_types layout_rules image_rules
        del: le_bytes.simps)
  ultimately show ?thesis
    by (simp add: length_tss_bytes sizeof_tss_def tss_layout_def idtd_layout_def idtr_layout_def gdtr_layout_def basic_types layout_rules)
qed

section \<open>The other structures\<close>

text \<open>The headers of the archive and of executables. The fields of a tar header lie where the
  ustar format has them and fill a block of 512 bytes; those of the ELF header and of a program
  header lie where the ELF-64 format has them, without padding, in 64 and 56 bytes.\<close>

theorem format_layout:
  "list_all (\<lambda>(s, off, n). place posix_header_ustar [Member s, Index i] = (if i < n then Some (8 * (off + i), 8) else None))
      [(''name'', 0, 100), (''mode'', 100, 8), (''uid'', 108, 8), (''gid'', 116, 8), (''size'', 124, 12), (''mtime'', 136, 12),
       (''checksum'', 148, 8), (''typeflag'', 156, 1), (''linkname'', 157, 100), (''magic'', 257, 6), (''version'', 263, 2),
       (''uname'', 265, 32), (''gname'', 297, 32), (''devmajor'', 329, 8), (''devminor'', 337, 8), (''prefix'', 345, 155),
       (''pad'', 500, 12)]
    \<and> list_all (\<lambda>(s, off, n). place Elf64_Ehdr [Member s] = Some (8 * off, 8 * n))
      [(''e_type'', 16, 2), (''e_machine'', 18, 2), (''e_version'', 20, 4), (''e_entry'', 24, 8), (''e_phoff'', 32, 8),
       (''e_shoff'', 40, 8), (''e_flags'', 48, 4), (''e_ehsize'', 52, 2), (''e_phentsize'', 54, 2), (''e_phnum'', 56, 2),
       (''e_shentsize'', 58, 2), (''e_shnum'', 60, 2), (''e_shstrndx'', 62, 2)]
    \<and> list_all (\<lambda>(s, off, n). place Elf64_Phdr [Member s] = Some (8 * off, 8 * n))
      [(''p_type'', 0, 4), (''p_flags'', 4, 4), (''p_offset'', 8, 8), (''p_vaddr'', 16, 8), (''p_paddr'', 24, 8),
       (''p_filesz'', 32, 8), (''p_memsz'', 40, 8), (''p_align'', 48, 8)]
    \<and> size_of posix_header_ustar = 8 * 512 \<and> size_of Elf64_Ehdr = 8 * 64 \<and> size_of Elf64_Phdr = 8 * 56"
proof -
  have "list_all (\<lambda>(s, off, n). place posix_header_ustar [Member s, Index i] = (if i < n then Some (8 * (off + i), 8) else None))
      [(''name'', 0, 100), (''mode'', 100, 8), (''uid'', 108, 8), (''gid'', 116, 8), (''size'', 124, 12), (''mtime'', 136, 12),
       (''checksum'', 148, 8), (''typeflag'', 156, 1), (''linkname'', 157, 100), (''magic'', 257, 6), (''version'', 263, 2),
       (''uname'', 265, 32), (''gname'', 297, 32), (''devmajor'', 329, 8), (''devminor'', 337, 8), (''prefix'', 345, 155),
       (''pad'', 500, 12)]"
    by (simp add: posix_header_ustar_def basic_types layout_rules)
  moreover have "size_of posix_header_ustar = 8 * 512" "size_of Elf64_Ehdr = 8 * 64" "size_of Elf64_Phdr = 8 * 56"
    by (simp_all add: posix_header_ustar_def Elf64_Ehdr_def Elf64_Phdr_def elf_types basic_types layout_rules)
  ultimately show ?thesis
    by (simp add: Elf64_Ehdr_def Elf64_Phdr_def elf_types basic_types layout_rules)
qed

text \<open>The structures of the user programs. The twenty argument pointers of a
  \<open>commandArgument\<close> are followed at once by \<open>isBackground\<close>, which is where a twenty-first argument
  would be stored; a header of the allocator has 24 bytes; the standard streams have the
  descriptors 0, 1 and 2.\<close>

theorem user_structures:
  "place commandArgument_layout [Member ''arguments'', Index i] = (if i < MAX_ARGUMENTS then Some (128 + 64 * i, 64) else None)
    \<and> place commandArgument_layout [Member ''isBackground''] = Some (128 + 64 * MAX_ARGUMENTS, 32)
    \<and> place commandArgument_layout [Member ''argumentCount''] = Some (128 + 64 * MAX_ARGUMENTS + 32, 32)
    \<and> size_of commandArgument_layout = 8 * 184
    \<and> map (\<lambda>s. place meta_block_layout [Member s]) [''addr'', ''blockSize'', ''next''] = [Some (0, 64), Some (64, 32), Some (128, 64)]
    \<and> size_of meta_block_layout = 8 * 24
    \<and> size_of dirent = 8 * 256
    \<and> map (\<lambda>s. place SigactionData [Member s]) [''sa_handler'', ''sa_sigaction'', ''sa_mask'', ''sa_flags'', ''sa_restorer'']
      = [Some (0, 64), Some (64, 64), Some (128, 32), Some (160, 32), Some (192, 64)]
    \<and> map fileno [STDIN, STDOUT, STDERR] = [Some 0, Some 1, Some 2]"
  by (simp add: commandArgument_layout_def meta_block_layout_def dirent_def SigactionData_def sigset_t_def basic_types layout_rules FILE_def fileno_def
      read_member_def STDIN_def STDOUT_def STDERR_def number_of_le_bytes del: le_bytes.simps)

end
