(* ===== verification/Panel.thy ===== *)
theory Panel
  imports Kmain
begin

text \<open>
  The status row of the running kernel. The last row of the screen shows a clock and the last
  key; a specification says what it shows after any sequence of ticks and scan codes, without
  registers, ports or video memory, and the interrupts of the idle loop are shown to refine it.
\<close>

section \<open>The specification\<close>

datatype event = Tick | Key u8

record panel =
  tick_count :: nat
  clock :: "u8 list"
  shift_held :: bool
  control_held :: bool
  caret :: u8
  last_key :: u8

text \<open>A displayed second has 100 units of 35 ticks each.\<close>

definition clock_text :: "nat \<Rightarrow> u8 list" where
  "clock_text n = time_text (of_nat ((n div 35 + 1) div 100))"

definition mapped :: "u8 \<Rightarrow> bool" where
  "mapped code \<longleftrightarrow> code \<le> 88 \<and> keymap ! unat code \<noteq> 0"

fun panel_step :: "event \<Rightarrow> panel \<Rightarrow> panel" where
  "panel_step Tick p =
     (let n = Suc (tick_count p)
      in p\<lparr>tick_count := n, clock := (if n mod 35 = 0 then clock_text n else clock p)\<rparr>)"
| "panel_step (Key code) p =
     (if shift_code code then p\<lparr>shift_held := shift_press code\<rparr>
      else if ctrl_code code then p\<lparr>control_held := ctrl_press code\<rparr>
      else let ch = (if mapped code then keymap ! unat code else last_key p)
        in p\<lparr>last_key := (if shift_held p then upper ch else ch),
             caret := (if \<not> control_held p then 0 else if mapped code then of_char (CHR ''^'') else caret p)\<rparr>)"

text \<open>The vector and the port traffic of an event.\<close>

primrec vector :: "event \<Rightarrow> u16" where
  "vector Tick = 32"
| "vector (Key code) = 33"

primrec traffic :: "event \<Rightarrow> io_log" where
  "traffic Tick = [Out8 0x20 0x20]"
| "traffic (Key code) = [In8 0x60 code, Out8 0x20 0x20]"

section \<open>What the kernel shows\<close>

definition shows_panel :: "kernel \<Rightarrow> panel \<Rightarrow> bool" where
  "shows_panel k p \<longleftrightarrow> unat (g_pit_count (timer k)) = tick_count p
     \<and> time_in_sec (timer k) = of_nat (tick_count p div 35 + 1)
     \<and> length (clock p) \<le> 11 \<and> screen_text (vram (con k)) TIME_ADDRESS (length (clock p)) = clock p
     \<and> uppercase (kbd k) = of_bool (shift_held p) \<and> ctrlKey (kbd k) = of_bool (control_held p)
     \<and> vram (con k) (CTRL_KEYPRESS_ADDRESS + 1) = caret p \<and> vram (con k) (KEYPRESS_ADDRESS + 1) = last_key p"

lemma tick_time:
  assumes "n < 2 ^ 32"
  shows "(ucast (of_nat (n div 35 + 1) div 100 :: u64) :: u32) = of_nat ((n div 35 + 1) div 100)"
proof -
  have "unat (of_nat (n div 35 + 1) :: u64) = n div 35 + 1" using assms by (intro unat_of_nat_small) simp
  then have "unat (of_nat (n div 35 + 1) div 100 :: u64) = (n div 35 + 1) div 100"
    by (metis unat_div unat_numeral_100)
  then show ?thesis by (metis of_nat_unat)
qed

lemma timer_refines:
  assumes s: "shows_panel k p" and n: "Suc (tick_count p) < 2 ^ 32"
  shows "shows_panel (timer_interrupt k) (panel_step Tick p)"
proof -
  let ?n = "Suc (tick_count p)"
  have cnt: "unat (g_pit_count (timer k) + 1) = ?n" using s n by (simp add: shows_panel_def unat_word_ariths)
  have mod: "(g_pit_count (timer k) + 1) mod 35 = 0 \<longleftrightarrow> ?n mod 35 = 0"
    using unat_mod [of "g_pit_count (timer k) + 1" 35] cnt unat_0_iff [of "(g_pit_count (timer k) + 1) mod 35"] by simp
  have time: "time_in_sec (timer k) + (if ?n mod 35 = 0 then 1 else 0) = of_nat (?n div 35 + 1)"
    using s by (simp add: shows_panel_def div_Suc)
  have t: "timer (timer_interrupt k) = (timer k)\<lparr>g_pit_count := g_pit_count (timer k) + 1,
       time_in_sec := time_in_sec (timer k) + (if ?n mod 35 = 0 then 1 else 0)\<rparr>"
    by (simp add: timer_interrupt_def case_prod_unfold tick_pit mod Let_def)
  have v: "vram (con (timer_interrupt k)) = (if ?n mod 35 = 0
      then snd (put_cells (clock_text ?n) (TIME_ADDRESS, vram (con k))) else vram (con k))"
  proof (cases "?n mod 35 = 0")
    case True
    then have "time_in_sec (timer k) + 1 = of_nat (?n div 35 + 1)" using time by simp
    then have "(ucast ((time_in_sec (timer k) + 1) div 100) :: u32) = of_nat ((?n div 35 + 1) div 100)"
      using tick_time [OF n] by (simp only:)
    then show ?thesis using True mod
      by (simp add: timer_interrupt_def helper_calculate_timer_def Let_def printTime_cells clock_text_def)
  next
    case False
    then show ?thesis using mod by (simp add: timer_interrupt_def helper_calculate_timer_def Let_def)
  qed
  have keys: "vram (con (timer_interrupt k)) (CTRL_KEYPRESS_ADDRESS + 1) = vram (con k) (CTRL_KEYPRESS_ADDRESS + 1)"
    "vram (con (timer_interrupt k)) (KEYPRESS_ADDRESS + 1) = vram (con k) (KEYPRESS_ADDRESS + 1)"
    using length_time_text by (auto simp: v put_cells_apply screen_addresses clock_text_def)
  have c: "screen_text (vram (con (timer_interrupt k))) TIME_ADDRESS (length (clock (panel_step Tick p))) = clock (panel_step Tick p)"
    using s by (simp add: v shows_panel_def screen_text_put_cells Let_def)
  show ?thesis
    using s c keys cnt time length_time_text
    by (simp add: shows_panel_def t frame Let_def clock_text_def)
qed

lemmas display_cells = display_key_caret [unfolded Suc_eq_plus1 [symmetric]] display_key_shown [unfolded Suc_eq_plus1 [symmetric]]

lemma keyboard_refines:
  assumes s: "shows_panel k p"
  shows "shows_panel (keyboard_interrupt dev k) (panel_step (Key (read8 dev (io k) 0x60)) p)"
proof -
  let ?code = "read8 dev (io k) 0x60"
  have kb: "kbd (keyboard_interrupt dev k) = fst (switch_key ?code (kbd k, con k))"
    "con (keyboard_interrupt dev k) = snd (switch_key ?code (kbd k, con k))"
    by (simp_all add: keyboard_interrupt_def keyboard_handler_eq Let_def)
  have "screen_text (vram (con (keyboard_interrupt dev k))) TIME_ADDRESS (length (clock p))
      = screen_text (vram (con k)) TIME_ADDRESS (length (clock p))"
  proof (rule screen_text_cong)
    fix i assume "i < length (clock p)"
    then have "i < 11" using s by (simp add: shows_panel_def)
    then show "vram (con (keyboard_interrupt dev k)) (TIME_ADDRESS + 2 * i) = vram (con k) (TIME_ADDRESS + 2 * i)"
      unfolding kb(2) switch_key_console by (simp add: display_key_frame screen_addresses)
  qed
  then have "screen_text (vram (con (keyboard_interrupt dev k))) TIME_ADDRESS (length (clock p)) = clock p"
    using s by (simp add: shows_panel_def)
  moreover have "clock (panel_step (Key ?code) p) = clock p" "tick_count (panel_step (Key ?code) p) = tick_count p"
    by (simp_all add: Let_def)
  moreover have "uppercase (kbd (keyboard_interrupt dev k)) = of_bool (shift_held (panel_step (Key ?code) p))"
    "ctrlKey (kbd (keyboard_interrupt dev k)) = of_bool (control_held (panel_step (Key ?code) p))"
    using s by (auto simp: kb(1) switch_key_flags shows_panel_def Let_def codes)
  moreover have "vram (con (keyboard_interrupt dev k)) (CTRL_KEYPRESS_ADDRESS + 1) = caret (panel_step (Key ?code) p)"
    "vram (con (keyboard_interrupt dev k)) (KEYPRESS_ADDRESS + 1) = last_key (panel_step (Key ?code) p)"
    using s by (auto simp: kb(2) switch_key_console display_cells shows_panel_def mapped_def Let_def)
  ultimately show ?thesis using s by (simp add: shows_panel_def frame)
qed

section \<open>Interrupts of the idle loop\<close>

lemma idle_shows:
  assumes "idle dev img k vs k'" and "Kmain.ready img k" and "shows_panel k p"
    and "tick_count p + length (filter (\<lambda>v. v = 32) vs) < 2 ^ 32"
  shows "\<exists>evs. map vector evs = vs \<and> io k' = io k @ concat (map traffic evs) \<and> shows_panel k' (fold panel_step evs p)
    \<and> tick_count (fold panel_step evs p) = tick_count p + length (filter (\<lambda>v. v = 32) vs)"
  using assms
proof (induction rule: idle.induct)
  case idle_start
  then show ?case by (intro exI [of _ "[]"]) simp
next
  case (idle_interrupt vs k1 v k2)
  have r: "Kmain.ready img k1" using idle_keeps [OF idle_interrupt(1,5)] by (simp add: idle_inv_def)
  obtain evs where evs: "map vector evs = vs" "io k1 = io k @ concat (map traffic evs)" "shows_panel k1 (fold panel_step evs p)"
    "tick_count (fold panel_step evs p) = tick_count p + length (filter (\<lambda>v. v = 32) vs)"
    using idle_interrupt(4-7) by auto
  from idle_interrupt(2) show ?case
  proof
    assume v: "v = 32"
    have k2: "k2 = timer_interrupt k1" using v idle_interrupt(3) ready_take [OF r] by simp
    have "Suc (tick_count (fold panel_step evs p)) < 2 ^ 32" using evs(4) idle_interrupt(7) v by simp
    from timer_refines [OF evs(3) this] show ?thesis
      using v k2 evs timer_interrupt_io(1) [of k1] by (intro exI [of _ "evs @ [Tick]"]) (simp add: Let_def)
  next
    assume v: "v = 33"
    have k2: "k2 = keyboard_interrupt dev k1" using v idle_interrupt(3) ready_take [OF r] by simp
    have io: "io k2 = io k1 @ traffic (Key (read8 dev (io k1) 0x60))"
      by (simp add: k2 keyboard_interrupt_def keyboard_handler_eq Let_def)
    from keyboard_refines [OF evs(3), of dev] show ?thesis
      using v k2 evs io by (intro exI [of _ "evs @ [Key (read8 dev (io k1) 0x60)]"]) (simp add: Let_def)
  qed
qed

section \<open>Refinement\<close>

text \<open>The status row after booting: no time yet, no modifier held, and whatever is in the cells.\<close>

definition first_panel :: "(nat \<Rightarrow> u8) \<Rightarrow> panel" where
  "first_panel m = \<lparr>tick_count = 0, clock = [], shift_held = False, control_held = False,
     caret = m (CTRL_KEYPRESS_ADDRESS + 1), last_key = m (KEYPRESS_ADDRESS + 1)\<rparr>"

lemma first_panel_shown:
  assumes "g_pit_count (timer k) = 0" and "time_in_sec (timer k) = 1" and "kbd k = keyboard_start"
  shows "shows_panel k (first_panel (vram (con k)))"
  using assms by (simp add: shows_panel_def first_panel_def keyboard_start_def screen_text_def)

text \<open>C3: The running kernel refines its status row. After booting, for any sequence of timer
  and keyboard interrupts (of fewer than \<open>2 ^ 32\<close> ticks), the port log is that of a sequence of
  ticks and scan codes - every interrupt reads its scan code, if it has one, and is
  acknowledged -, and the screen, the counters and the modifier flags are those that the
  specification computes from these events: the clock advances every 3500 ticks, the
  key cell shows the last key, in upper case while shift is held, with a caret while control
  is.\<close>

theorem idle_refines_panel:
  assumes "loaded img k" and "config_mechanism dev cfg" and "length (devices cfg) \<le> 8"
    and "timer k = pit_start" and "kbd k = keyboard_start"
    and "boot dev img k = Some k0" and "idle dev img k0 vs k'" and "length (filter (\<lambda>v. v = 32) vs) < 2 ^ 32"
  shows "\<exists>evs. map vector evs = vs \<and> io k' = io k0 @ concat (map traffic evs)
    \<and> shows_panel k' (fold panel_step evs (first_panel (vram (con k0))))"
proof -
  have k0: "Kmain.ready img k0" "g_pit_count (timer k0) = 0" "time_in_sec (timer k0) = time_in_sec (timer k)" "kbd k0 = kbd k"
    using boot_runs_all [OF assms(1-3)] assms(6) by (metis option.inject)+
  have "time_in_sec (timer k0) = 1" using k0(3) assms(4) by (simp add: pit_start_def)
  from first_panel_shown [OF k0(2) this] k0(4) assms(5)
  have s: "shows_panel k0 (first_panel (vram (con k0)))" by simp
  have "tick_count (first_panel (vram (con k0))) + length (filter (\<lambda>v. v = 32) vs) < 2 ^ 32"
    using assms(8) by (simp add: first_panel_def)
  from idle_shows [OF assms(7) k0(1) s this] show ?thesis by blast
qed

theorem idle_refines_panel_witness:
  "\<exists>k0 k' key. boot one_device_bus demo_image demo_kernel = Some k0
     \<and> idle one_device_bus demo_image k0 [33, 32] k'
     \<and> shows_panel k' (fold panel_step [Key key, Tick] (first_panel (vram (con k0))))"
proof -
  have few: "length (devices one_device) \<le> 8" by (simp add: devices_one)
  obtain k0 where k0: "boot one_device_bus demo_image demo_kernel = Some k0" "Kmain.ready demo_image k0"
    using boot_runs [OF demo_loaded one_device_bus_mechanism few] by metis
  let ?k1 = "keyboard_interrupt one_device_bus k0"
  have "idle one_device_bus demo_image k0 ([] @ [33]) ?k1"
    using idle_interrupt [OF idle_start _ ready_take(2) [OF k0(2)]] by simp
  then have "idle one_device_bus demo_image k0 (([] @ [33]) @ [32]) (timer_interrupt ?k1)"
    using idle_interrupt [OF _ _ ready_take(1) [OF ready_kept(2) [OF k0(2)]]] by blast
  then have i: "idle one_device_bus demo_image k0 [33, 32] (timer_interrupt ?k1)" by simp
  have start: "timer demo_kernel = pit_start" "kbd demo_kernel = keyboard_start" by (simp_all add: demo_kernel_def)
  have few_ticks: "length (filter (\<lambda>v. v = 32) [33, 32 :: u16]) < 2 ^ 32" by simp
  obtain evs where evs: "map vector evs = [33, 32]"
    "shows_panel (timer_interrupt ?k1) (fold panel_step evs (first_panel (vram (con k0))))"
    using idle_refines_panel [OF demo_loaded one_device_bus_mechanism few start k0(1) i few_ticks]
    by (elim exE conjE) (rule that)
  then obtain a b where e: "evs = [a, b]" "vector a = 33" "vector b = 32" by (auto simp: map_eq_Cons_conv)
  obtain key where "a = Key key" using e(2) by (cases a) simp_all
  moreover have "b = Tick" using e(3) by (cases b) simp_all
  ultimately show ?thesis using k0(1) i evs(2) e(1) by blast
qed

end
