(* ===== verification/Arguments.thy ===== *)
theory Arguments
  imports Copies
begin

text \<open>
  Command lines with an argument. Whatever a built-in command does, it keeps the bytes of its
  arguments, up to the equals signs that \<open>export\<close> replaces; so when the parsed command is freed,
  its first argument still has a length, and that many bytes of freed memory are cleared.
\<close>

section \<open>What a command keeps\<close>

text \<open>Every byte but an equals sign stays.\<close>

definition keeps :: "mem \<Rightarrow> mem \<Rightarrow> bool" where
  "keeps m m' \<longleftrightarrow> (\<forall>q x. load m q = Some x \<longrightarrow> x \<noteq> 0x3D \<longrightarrow> load m' q = Some x)"

lemma keeps_refl [simp]: "keeps m m"
  by (simp add: keeps_def)

lemma keeps_trans: "keeps m m1 \<Longrightarrow> keeps m1 m2 \<Longrightarrow> keeps m m2"
  by (simp add: keeps_def)

lemma keeps_extends: "extends m m' \<Longrightarrow> keeps m m'"
  by (simp add: keeps_def extends_def)

lemma strchr_position: "strchr m p c = Some q \<Longrightarrow> q \<noteq> NULL \<Longrightarrow> load m q = Some c"
proof (induction m p c q rule: strchr.raw_induct [rotated, consumes 1])
  case (1 strchr m p c q)
  then show ?case by (auto simp: bind_eq_Some_conv split: if_splits)
qed

lemma keeps_store_equal: "strchr m p 0x3D = Some q \<Longrightarrow> q \<noteq> NULL \<Longrightarrow> store q x m = Some m' \<Longrightarrow> keeps m m'"
  by (auto simp: keeps_def load_store dest: strchr_position)

lemma new_entry_extends:
  assumes "new_entry j key val m = Some (e, m')"
  shows "extends m m'"
proof -
  obtain n where n: "strlen m key = Some n" using assms by (auto simp: new_entry_def bind_eq_Some_conv)
  obtain k m1 where nb: "new_block j (n + 1) m = (k, m1)" by (cases "new_block j (n + 1) m") auto
  obtain s m2 t where r: "memset k 0 (of_nat (n + 1)) m1 = Some (s, m2)" "memcpy k key (of_nat n) m2 = Some (t, m')"
    using assms n nb by (auto simp: new_entry_def bind_eq_Some_conv)
  have n: "extends m m1" "new_to m k" using new_block_facts(1) [OF nb] new_to_block [OF nb] .
  then show ?thesis
    using extends_changes_only memset_changes_only [OF r(1)] memcpy_changes_only [OF r(2)] by blast
qed

lemma set_loop_extends: "set_loop j key val vs m = Some (r, vs', m') \<Longrightarrow> extends m m'"
  by (induction j key val vs m arbitrary: r vs' m' rule: set_loop.induct)
    (auto simp: bind_eq_Some_conv new_entry_extends split: if_splits)

lemma setenv_extends: "setenv j key val 1 vs m = Some (r, vs', m') \<Longrightarrow> extends m m'"
  using set_loop_extends by (simp add: setenv_def)

lemma custom_fputs_memory: "custom_fputs P p fd s = Some s' \<Longrightarrow> memory s' = memory s"
  by (auto simp: custom_fputs_def put_string_def bind_eq_Some_conv split: if_splits)

lemma say_memory: "say P str s = Some s' \<Longrightarrow> memory s' = memory s"
  by (auto simp: say_def dest: custom_fputs_memory)

lemmas speaking = custom_fputs_memory say_memory

lemma pwd_keeps:
  assumes "executeBuiltInPwd P c s = Some s'"
  shows "keeps (memory s) (memory s')"
proof (cases "1 < argumentCount c")
  case True
  then show ?thesis using assms by (auto simp: executeBuiltInPwd_def bind_eq_Some_conv dest!: speaking)
next
  case False
  obtain buf m1 where nb: "new_block (junk P) 1024 (memory s) = (buf, m1)" by (cases "new_block (junk P) 1024 (memory s)") auto
  obtain path w where g: "p_getcwd (procs P) 1024 (world s) = (path, w)" by (cases "p_getcwd (procs P) 1024 (world s)") auto
  obtain q m2 m3 where r: "memset buf 0 1024 m1 = Some (q, m2)" "store_bytes buf path m2 = Some m3" "memory s' = m3"
    using assms False nb g by (auto simp: executeBuiltInPwd_def bind_eq_Some_conv dest!: speaking)
  have n: "extends (memory s) m1" "new_to (memory s) buf" using new_block_facts(1) [OF nb] new_to_block [OF nb] .
  have "changes_only buf m1 m3"
    using store_bytes_changes_only [of buf 0 path m2 m3 m1] memset_changes_only [OF r(1)] r(2) by simp
  then show ?thesis using extends_changes_only [OF n] keeps_extends r(3) by blast
qed

lemma cd_keeps:
  assumes "executeBuiltInCd P c s = Some s'"
  shows "keeps (memory s) (memory s')"
proof (cases "1 < argumentCount c")
  case True
  then show ?thesis using assms by (auto simp: executeBuiltInCd_def bind_eq_Some_conv dest!: speaking)
next
  case False
  then obtain t where t: "(if argumentCount c = 1 then argument_at c 0 else Some (literal P ''/'')) = Some t"
    using assms by (auto simp: executeBuiltInCd_def bind_eq_Some_conv)
  obtain r w where "p_chdir (procs P) (memory s) t (world s) = (r, w)" by (cases "p_chdir (procs P) (memory s) t (world s)") auto
  then show ?thesis
    using assms False t by (auto simp: executeBuiltInCd_def bind_eq_Some_conv Let_def split: if_splits dest!: speaking)
qed

lemma echo_keeps:
  assumes "executeBuiltInEcho P c s = Some s'"
  shows "keeps (memory s) (memory s')"
proof -
  have "memory s' = memory s"
    by (rule for_list_some_inv [OF assms [unfolded executeBuiltInEcho_def], of "\<lambda>u. memory u = memory s"])
      (auto simp: bind_eq_Some_conv split: if_splits dest!: speaking)
  then show ?thesis by simp
qed

lemma export_keeps:
  assumes "executeBuiltInExport P c s = Some s'"
  shows "keeps (memory s) (memory s')"
proof (rule for_list_some_inv [OF assms [unfolded executeBuiltInExport_def], of "\<lambda>u. keeps (memory s) (memory u)"])
  show "keeps (memory s) (memory s)" by simp
next
  fix i u u' assume k: "keeps (memory s) (memory u)"
    and step: "do {
       a \<leftarrow> argument_at c i;
       c_equal \<leftarrow> strchr (memory u) a 0x3D;
       if c_equal \<noteq> NULL then do {
         m \<leftarrow> store c_equal 0 (memory u);
         (r, vs, m) \<leftarrow> setenv (junk P) a (padd c_equal 1) 1 (vars u) m;
         Some (u\<lparr>memory := m, vars := vs\<rparr>)
       }
       else Some u } = Some u'"
  then have "keeps (memory u) (memory u')"
    by (auto simp: bind_eq_Some_conv split: if_splits
        dest!: setenv_extends intro: keeps_trans [OF keeps_store_equal keeps_extends])
  then show "keeps (memory s) (memory u')" using k keeps_trans by blast
qed

text \<open>An assignment, unless it assigns the prompt.\<close>

lemma assignment_keeps:
  assumes r: "executeBuiltInWithoutExport P c s = Some s'" and m: "literals P m" "extends m (memory s)" "new_to m (command c)"
    and w: "cstring (memory s) (command c) w0" "0x3D \<in> set (takeWhile (\<lambda>x. x \<noteq> 0x0A) w0)" "take 4 w0 \<noteq> bytes ''PS1=''"
  shows "keeps (memory s) (memory s')"
proof -
  obtain k v where kv: "w0 = k @ 0x3D # v" "0x3D \<notin> set k" "0x0A \<notin> set k"
  proof -
    obtain k r where k: "takeWhile (\<lambda>x. x \<noteq> 0x0A) w0 = k @ 0x3D # r" "0x3D \<notin> set k" using split_list_first [OF w(2)] by blast
    have "x \<noteq> 0x0A" if "x \<in> set k" for x using that k(1) set_takeWhileD [of x "\<lambda>x. x \<noteq> 0x0A" w0] by simp
    then show ?thesis using that [of k "r @ dropWhile (\<lambda>x. x \<noteq> 0x0A) w0"] k takeWhile_dropWhile_id [of "\<lambda>x. x \<noteq> 0x0A" w0] by auto
  qed
  let ?a = "command c" and ?e = "padd (command c) (int (length k))"
  have e: "strchr (memory s) ?a 0x3D = Some ?e" using strchr_found [of "memory s" ?a k "0x3D" v] w(1) kv by simp
  have en: "?e \<noteq> NULL" using cstring_not_null [OF w(1)] by (cases ?a) auto
  obtain m1 where m1: "store ?e 0 (memory s) = Some m1"
    using r en unfolding executeBuiltInWithoutExport_def e by (auto simp: bind_eq_Some_conv)
  obtain x vs m2 where m2: "setenv (junk P) ?a (padd ?e 1) 1 (vars s) m1 = Some (x, vs, m2)"
    using r en m1 unfolding executeBuiltInWithoutExport_def e by (auto simp: bind_eq_Some_conv Let_def)
  have x2: "extends m1 m2" using setenv_extends [OF m2] .
  have "extends m m2" using extends_trans [OF extends_store [OF m(2,3) m1] x2] .
  then have p: "cstring m2 (literal P ''PS1'') (bytes ''PS1'')"
    using literal_string [OF literals_extends [OF m(1)] known_literals(5)] by blast
  have "cstring m1 ?a k" using cut_string [of "memory s" ?a k "0x3D" v] w(1) kv(1) m1 by (metis option.inject)
  then have c: "cstring m2 ?a k" using cstring_extends [OF x2] by blast
  have "k \<noteq> bytes ''PS1''" using w(3) kv(1) by auto
  then obtain y where "strcmp m2 ?a (literal P ''PS1'') = Some y" "y \<noteq> 0" using strcmp_eq_0 [OF c p] by auto
  then have "executeBuiltInExport P c (s\<lparr>memory := m2, vars := vs\<rparr>) = Some s'"
    using r en m1 m2 unfolding executeBuiltInWithoutExport_def e by (simp add: Let_def)
  from export_keeps [OF this] show ?thesis
    using keeps_trans keeps_trans [OF keeps_store_equal [OF e en m1] keeps_extends [OF x2]] by simp
qed

section \<open>Freeing a command with an argument\<close>

lemma free_block_keeps: "free_block p m = Some m' \<Longrightarrow> load m' q \<in> {None, load m q}"
  using free_block_load [of p m m' q] by (cases "load m' q") auto

lemma free_with_argument:
  assumes wb: "whole_blocks c" and n: "0 < argumentCount c" and a: "argument_at c 0 = Some a" "load m a = Some x" "x \<noteq> 0"
  shows "freeCommandArgument c m = None"
proof (rule ccontr)
  assume "freeCommandArgument c m \<noteq> None"
  obtain b where b: "command c = Ptr b 0" using wb by (auto simp: whole_blocks_def)
  have "[0..<argumentCount c] = 0 # [Suc 0..<argumentCount c]" using n by (intro upt_conv_Cons) simp
  with \<open>freeCommandArgument c m \<noteq> None\<close>
  obtain m1 k q m2 m3 l r m4 where f: "free_block (trimmedInput c) m = Some m1" "strlen m1 (command c) = Some k"
    "memset (command c) 0 (of_nat k) m1 = Some (q, m2)" "free_block (command c) m2 = Some m3"
    "strlen m3 a = Some l" "memset (command c) 0 (of_nat l) m3 = Some (r, m4)"
    using a(1) b by (auto simp: freeCommandArgument_def bind_eq_Some_conv)
  have gone: "load m3 (Ptr b i) = None" for i
  proof (cases "load m3 (Ptr b i)")
    case (Some y)
    then show ?thesis using f(4) b by (auto simp: free_block_def block_update dest: block_Some_less split: if_splits)
  qed
  have an: "a \<noteq> NULL" using a(2) by auto
  have "load m3 a \<noteq> Some 0"
  proof (cases "elsewhere (command c) a")
    case True
    then have "load m2 a = load m1 a" using memset_changes_only [OF f(3)] by (simp add: changes_only_def)
    then show ?thesis using free_block_keeps [OF f(4), of a] free_block_keeps [OF f(1), of a] a(2,3) by auto
  next
    case False
    then show ?thesis using gone b by (auto simp: elsewhere_def)
  qed
  then show False
    using strlen_positive [OF f(5) an] memset_freed [of m3 "command c" l 0] gone b f(6) by (simp del: load.simps)
qed

section \<open>Lines\<close>

lemma executeCommand_keeps:
  assumes m: "literals P m" "extends m (memory s)" "new_to m (command c)"
    and w: "cstring (memory s) (command c) w0" "take 4 w0 \<noteq> bytes ''PS1=''"
  shows "case executeCommand P exec c s of None \<Rightarrow> True | Some (Ended s') \<Rightarrow> False | Some (Value u s') \<Rightarrow> keeps (memory s) (memory s')"
proof -
  have l: "literals P (memory s)" using literals_extends [OF m(1,2)] .
  note code = getBuiltInCode_value [OF l w(1)]
  show ?thesis
    unfolding executeCommand_def code
    using cd_keeps [of P c s] pwd_keeps [of P c s] export_keeps [of P c s] echo_keeps [of P c s]
      assignment_keeps [OF _ m w(1) _ w(2)]
    by (auto simp: executeBinary_overflows bind_eq_Some_conv split: option.splits outcome.splits)
qed


definition cd_text :: "u8 list" where
  "cd_text = bytes ''cd /bin'' @ [0x0A]"


end
