(* ===== verification/Console.thy ===== *)
theory Console
  imports Kprintf
begin

text \<open>
  The console with formats: a terminal that prints formats, and the refinement of it by
  \<open>kprintf\<close>. The terminal knows nothing of addresses, digits or cells. It has no value for a
  text that does not fit between the cursor and the end of the last row, which a conversion
  does not wrap (sys/kprintf.c writes it on into the status row).
\<close>

section \<open>The specification\<close>

text \<open>A text without line feeds is stored cell by cell from the cursor.\<close>

definition term_text :: "u8 list \<Rightarrow> terminal \<Rightarrow> terminal option" where
  "term_text chs t =
     (case term_scroll t of (rows, h, w) \<Rightarrow>
        if 160 * h + w + 2 * length chs \<le> 3840 then Some (fold term_store chs (rows, h, w)) else None)"

text \<open>The text of a conversion, \<open>None\<close> for a character that is not one, and the arguments left.
  An address has a NUL before its digits, as the code prints it.\<close>

fun conversion :: "u8 \<Rightarrow> vararg list \<Rightarrow> (u8 list option \<times> vararg list) option" where
  "conversion d args =
     (if d = of_char (CHR ''s'') then
        (case args of ArgStr str # rest \<Rightarrow> Some (Some (takeWhile (\<lambda>ch. ch \<noteq> 0) str), rest) | _ \<Rightarrow> None)
      else if d = of_char (CHR ''d'') then
        (case args of ArgInt i # rest \<Rightarrow> if sint i = - (2 ^ 31) then None else Some (Some (int_text (sint i)), rest)
         | _ \<Rightarrow> None)
      else if d = of_char (CHR ''x'') then
        (case args of ArgInt u # rest \<Rightarrow> Some (Some (int_text (int (unat u))), rest) | _ \<Rightarrow> None)
      else if d = of_char (CHR ''c'') then
        (case args of ArgInt i # rest \<Rightarrow> Some (Some [ucast i], rest) | _ \<Rightarrow> None)
      else if d = of_char (CHR ''p'') then
        (case args of ArgU64 a # rest \<Rightarrow> Some (Some (if a = 0 then [0x30] else 0 # hex_text (unat a)), rest) | _ \<Rightarrow> None)
      else Some (None, args))"

fun term_printf :: "u8 list \<Rightarrow> vararg list \<Rightarrow> terminal \<Rightarrow> terminal option" where
  "term_printf [] args t = Some t"
| "term_printf (ch # fmt) args t =
     (if ch = 0 then Some t
      else if ch \<noteq> of_char (CHR ''%'') then term_printf fmt args (term_putc ch t)
      else case fmt of [] \<Rightarrow> None
        | d # fmt \<Rightarrow> if d = 0 then None else
            (case conversion d args of None \<Rightarrow> None
             | Some (None, args) \<Rightarrow> term_printf fmt args t
             | Some (Some chs, args) \<Rightarrow> Option.bind (term_text chs t) (term_printf fmt args)))"

section \<open>Runs of cells\<close>

lemma finish_append:
  "finish (finish c (put_cells xs p)) (put_cells ys (put_cells xs p)) = finish c (put_cells (xs @ ys) p)"
  by (simp add: finish_def put_cells_append UpdateHeightWidth_def Let_def)

lemma text_refines:
  assumes "console_inv c1" and "unat (current_height c1) \<le> 23" and "offset_of c1 + 2 * length chs \<le> 3840"
  defines "c2 \<equiv> finish c1 (put_cells chs (BASE_ADDR + offset_of c1, vram c1))"
  shows "terminal_of c2 = fold term_store chs (terminal_of c1) \<and> console_inv c2
    \<and> (\<forall>x. x < BASE_ADDR \<or> BASE_ADDR + 3840 \<le> x \<longrightarrow> vram c2 x = vram c1 x)"
  using assms(1-3) unfolding c2_def
proof (induction chs arbitrary: c1)
  case Nil
  have off: "offset_of c1 < 2 ^ 63" using Nil.prems by (simp add: offset_of_def console_inv_def)
  have "offset_of c1 div 160 = unat (current_height c1)" "offset_of c1 mod 160 = unat (current_width c1)"
    using Nil.prems(1) by (simp_all add: offset_of_def console_inv_def)
  then show ?case
    using Nil.prems(1) UpdateHeightWidth_at [OF off]
    by (simp add: finish_def terminal_of_def console_inv_def)
next
  case (Cons ch chs)
  let ?p = "(BASE_ADDR + offset_of c1, vram c1)" and ?c = "finish c1 (put_cells [ch] (BASE_ADDR + offset_of c1, vram c1))"
  note s = store_cell_refines [OF Cons.prems(1,2), where ch = ch]
  have ev: "even (offset_of c1)" "offset_of c1 + 2 * length [ch] < 2 ^ 63"
    using Cons.prems by (simp_all add: offset_of_def console_inv_def)
  note f = finish_cells [OF ev(2,1), of c1]
  have p: "put_cells [ch] ?p = (BASE_ADDR + offset_of ?c, vram ?c)"
    using f(2,3) by (intro prod_eqI) simp_all
  have e: "finish ?c (put_cells chs (BASE_ADDR + offset_of ?c, vram ?c)) = finish c1 (put_cells (ch # chs) ?p)"
    by (simp only: p [symmetric] finish_append append.simps)
  show ?case
  proof (cases "chs = []")
    case True
    then show ?thesis using s by simp
  next
    case False
    then have "offset_of ?c < 3840" using Cons.prems(3) f(2) by (cases chs) auto
    then have "unat (current_height ?c) \<le> 23" by (simp add: offset_of_def)
    moreover have "offset_of ?c + 2 * length chs \<le> 3840" using Cons.prems(3) f(2) by simp
    ultimately show ?thesis using Cons.IH [OF s(2)] s(1,3) e by (simp del: put_cells.simps)
  qed
qed

lemma run_refines:
  assumes "console_inv c" and "getCurrentAddress c = (a, c1)" and "term_text chs (terminal_of c) = Some t"
  defines "c2 \<equiv> finish c1 (put_cells chs (a, vram c1))"
  shows "terminal_of c2 = t \<and> console_inv c2 \<and> (\<forall>x. x < BASE_ADDR \<or> BASE_ADDR + 3840 \<le> x \<longrightarrow> vram c2 x = vram c x)"
proof -
  note i = getCurrentAddress_inv [OF assms(1,2)] and r = getCurrentAddress_refines [OF assms(2)]
  have "160 * unat (current_height c1) + unat (current_width c1) + 2 * length chs \<le> 3840"
    and t: "t = fold term_store chs (terminal_of c1)"
    using assms(3) unfolding term_text_def r [symmetric] by (auto simp: terminal_of_def split: if_splits)
  then have "offset_of c1 + 2 * length chs \<le> 3840" by (simp add: offset_of_def)
  from text_refines [OF i(1,3) this] show ?thesis
    unfolding c2_def i(2) using t getCurrentAddress_frame [OF assms(2)] by simp
qed

section \<open>Conversions\<close>

lemma conversion_refines:
  assumes "conversion d args = Some (res, rest)"
  shows "kprintf_conv d args c = Some (rest, case res of None \<Rightarrow> c
    | Some chs \<Rightarrow> (case getCurrentAddress c of (a, c1) \<Rightarrow> finish c1 (put_cells chs (a, vram c1))))"
  using assms
  by (auto simp: kprintf_conv_def printers HandleSignedInt_cells case_prod_unfold Let_def
      split: if_splits list.splits vararg.splits simp del: put_cells.simps)

lemma printf_refines:
  assumes "console_inv c" and "term_printf fmt args (terminal_of c) = Some t"
  shows "\<exists>c'. kprintf fmt args c = Some c' \<and> terminal_of c' = t \<and> console_inv c'
    \<and> (\<forall>x. x < BASE_ADDR \<or> BASE_ADDR + 3840 \<le> x \<longrightarrow> vram c' x = vram c x)"
  using assms
proof (induction "length fmt" arbitrary: fmt args c rule: less_induct)
  case less
  show ?case
  proof (cases fmt)
    case Nil
    then show ?thesis using less.prems by simp
  next
    case (Cons ch fmt')
    consider "ch = 0" | "ch \<noteq> 0" "ch \<noteq> of_char (CHR ''%'')"
      | d rest where "ch = of_char (CHR ''%'')" "fmt' = d # rest" "d \<noteq> 0"
      using less.prems(2) Cons by (cases fmt') (auto split: if_splits)
    then show ?thesis
    proof cases
      case 1
      then show ?thesis using less.prems Cons by simp
    next
      case 2
      note p = putc_refines [OF less.prems(1), where ch = ch]
      have "term_printf fmt' args (terminal_of (putc ch c)) = Some t" using less.prems(2) Cons 2 p(1) by simp
      from less.hyps [OF _ p(2) this] show ?thesis
        using Cons p(3) kprintf_plain_step [OF 2] by (simp del: kprintf.simps)
    next
      case 3
      obtain res args' where conv: "conversion d args = Some (res, args')"
        using less.prems(2) Cons 3 by (auto split: option.splits)
      let ?c = "case res of None \<Rightarrow> c
        | Some chs \<Rightarrow> (case getCurrentAddress c of (a, c1) \<Rightarrow> finish c1 (put_cells chs (a, vram c1)))"
      have k: "kprintf fmt args c = kprintf rest args' ?c"
        using Cons 3 conversion_refines [OF conv, of c] by simp
      have "console_inv ?c \<and> term_printf rest args' (terminal_of ?c) = Some t
        \<and> (\<forall>x. x < BASE_ADDR \<or> BASE_ADDR + 3840 \<le> x \<longrightarrow> vram ?c x = vram c x)"
      proof (cases res)
        case None
        then show ?thesis using less.prems Cons 3 conv by (simp del: conversion.simps)
      next
        case (Some chs)
        then obtain t' where t': "term_text chs (terminal_of c) = Some t'" "term_printf rest args' t' = Some t"
          using less.prems Cons 3 conv by (auto simp: bind_eq_Some_conv simp del: conversion.simps)
        obtain a c1 where g: "getCurrentAddress c = (a, c1)" by fastforce
        from run_refines [OF less.prems(1) g t'(1)] show ?thesis using Some g t'(2) by simp
      qed
      then show ?thesis using less.hyps [of rest ?c args'] Cons 3 unfolding k by auto
    qed
  qed
qed

section \<open>Refinement\<close>

text \<open>C8: \<open>kprintf\<close> refines the terminal, for every format and every list of arguments. Whenever the
  terminal can print the format - the arguments have the types of the conversions, no \<open>%d\<close>
  prints the least integer, every converted text fits between the cursor and the end of the
  last row -, the call is defined, the screen afterwards is that of the terminal (scrolled
  where a cursor ran below the last row), the cursor is well formed, and the status row and all other memory
  are as before.\<close>

theorem kprintf_refines_terminal:
  assumes "console_inv c" and "term_printf fmt args (terminal_of c) = Some t"
  shows "\<exists>c'. kprintf fmt args c = Some c' \<and> terminal_of c' = t \<and> console_inv c'
    \<and> (\<forall>x. x < BASE_ADDR \<or> BASE_ADDR + 3840 \<le> x \<longrightarrow> vram c' x = vram c x)"
  by (rule printf_refines [OF assms])

theorem kprintf_refines_terminal_witness:
  "\<exists>c'. kprintf (bytes ''n=%d %s'' @ [0x0A]) [ArgInt (- 7), ArgStr (bytes ''ok'')] start_console = Some c'
    \<and> snd (terminal_of c') = (1, 0)"
proof -
  have inv: "console_inv start_console" by (rule start_console_inv)
  obtain rows where t: "terminal_of start_console = (rows, 0, 0)" by (simp add: terminal_of_def start_console_def)
  have "int_text (sint (- 7 :: i32)) = bytes ''-7''" by (simp add: int_text_def dec_text_def rev_digits.simps)
  then obtain rows' where "term_printf (bytes ''n=%d %s'' @ [0x0A]) [ArgInt (- 7), ArgStr (bytes ''ok'')] (rows, 0, 0) = Some (rows', 1, 0)"
    by (simp add: term_putc_def term_text_def)
  then obtain t where t2: "term_printf (bytes ''n=%d %s'' @ [0x0A]) [ArgInt (- 7), ArgStr (bytes ''ok'')] (terminal_of start_console) = Some t"
    "snd t = (1, 0)"
    by (simp add: t)
  from kprintf_refines_terminal [OF inv t2(1)] t2(2) show ?thesis by auto
qed

end
