(* ===== verification/Prompt.thy ===== *)
theory Prompt
  imports Interpreter
begin

text \<open>
  The prompt. An assignment to \<open>PS1\<close> also copies its value into the array that the shell prints
  before every line (\<open>executeBuiltInWithoutExport\<close> of bin/sbush/sbush.c). The interpreter of
  Interpreter is extended by this action, and the refinement by the code is shown again, for
  sessions in which the prompt changes.
\<close>

section \<open>The line\<close>

text \<open>What the code needs of the array: its size, and that nothing else is in it.\<close>

definition prompt_array :: "'os program \<Rightarrow> 'os shell \<Rightarrow> bool" where
  "prompt_array P s \<longleftrightarrow> room (memory s) (PS1 P) 100 \<and> keys_elsewhere (PS1 P) (vars s)
     \<and> (\<forall>str \<in> set sbush_literals. elsewhere (PS1 P) (literal P str))"

lemma prompt_loaded: "prompt_array P s \<Longrightarrow> load (memory s) (PS1 P) \<noteq> None"
  by (auto simp: prompt_array_def room_def valid_def dest!: spec [of _ 0])

lemma prompt_literal: "prompt_array P s \<Longrightarrow> str \<in> set sbush_literals \<Longrightarrow> elsewhere (PS1 P) (literal P str)"
  by (simp add: prompt_array_def)

text \<open>The command itself.\<close>

lemma assign_prompt:
  assumes a: "cstring (memory s) (command c) (bytes ''PS1'' @ 0x3D # v)" and v: "length v < 100"
    and b: "bindings (memory s) (vars s) kvs" "length (vars s) = 20" "table_has_room (bytes ''PS1'') kvs"
      "keys_elsewhere (command c) (vars s)"
    and lit: "literals P (memory s)" and e: "elsewhere (command c) (literal P ''PS1'')" "elsewhere (command c) (PS1 P)"
    and p: "prompt_array P s" and n: "argumentCount c = 0"
  obtains m1 vs' m' where "executeBuiltInWithoutExport P c s = Some (s\<lparr>memory := m', vars := vs'\<rparr>)"
    "store (padd (command c) 3) 0 (memory s) = Some m1"
    "bindings m' vs' (put (bytes ''PS1'') (padd (command c) 4) kvs)" "length vs' = 20"
    "cstring m' (PS1 P) v" "cstring m' (command c) (bytes ''PS1'')"
    "\<And>q x. load m1 q = Some x \<Longrightarrow> elsewhere (PS1 P) q \<Longrightarrow> load m' q = Some x" "\<And>q. valid m1 q \<Longrightarrow> valid m' q"
    "keys_old_or_new m1 (vars s) vs'"
proof -
  let ?a = "command c" and ?k = "bytes ''PS1''"
  have k: "length ?k + 1 < 2 ^ 31" "int (length ?k) = 3" "(3 :: int) + 1 = 4" by simp_all
  obtain m1 vs' m2 where r: "store (padd ?a (int (length ?k))) 0 (memory s) = Some m1"
    "setenv (junk P) ?a (padd ?a (int (length ?k) + 1)) 1 (vars s) m1 = Some (0, vs', m2)"
    "bindings m2 vs' (put ?k (padd ?a (int (length ?k) + 1)) kvs)" "length vs' = 20"
    "cstring m2 ?a ?k" "cstring m2 (padd ?a (int (length ?k) + 1)) v" "extends m1 m2" "keys_old_or_new m1 (vars s) vs'"
    "\<And>q t. cstring (memory s) q t \<Longrightarrow> elsewhere ?a q \<Longrightarrow> cstring m2 q t"
    by (rule assign_variable [OF a k(1) b, of "junk P"]) blast
  note r = r [unfolded k(2,3)]
  have val: "elsewhere (PS1 P) (padd ?a i)" for i using elsewhere_offset [OF elsewhere_sym [OF e(2)]] .
  have "room m1 (PS1 P) 100" using p room_store [OF r(1)] by (simp add: prompt_array_def)
  then have rm: "room m2 (PS1 P) 100" using r(7) by (auto simp: room_def valid_def extends_def)
  obtain m3 m4 where w: "memset (PS1 P) 0 (of_nat 100) m2 = Some (PS1 P, m3)" "cstring m3 (padd ?a 4) v"
    "memcpy (PS1 P) (padd ?a 4) (of_nat (length v)) m3 = Some (padd (PS1 P) (int (length v)), m4)"
    "bytes_at m4 (PS1 P) (v @ replicate (100 - length v) 0)" "changes_only (PS1 P) m2 m4" "\<And>q. valid m4 q = valid m2 q"
    by (rule clear_copy [OF rm _ r(6) v val]) (simp, blast)
  have "strcmp m2 ?a (literal P ''PS1'') = Some 0"
    using strcmp_eq_0 [OF r(5) r(9) [OF literal_string [OF lit known_literals(5)] e(1)]] by auto
  moreover have "strchr (memory s) ?a 0x3D = Some (padd ?a 3)"
    using strchr_found [OF a] by simp
  moreover have "padd ?a 3 \<noteq> NULL" using cstring_not_null [OF a] by (cases ?a) auto
  moreover have "strlen m3 (padd ?a 4) = Some (length v)" using strlen_cstring [OF w(2)] v by simp
  ultimately have "executeBuiltInWithoutExport P c s = Some (s\<lparr>memory := m4, vars := vs'\<rparr>)"
    using r(1,2) w(1,3) n by (simp add: executeBuiltInWithoutExport_def executeBuiltInExport_def)
  moreover have "keys_elsewhere (PS1 P) vs'"
  proof (rule keys_elsewhere_old_or_new [OF r(8)])
    show "keys_elsewhere (PS1 P) (vars s)" using p by (simp add: prompt_array_def)
    show "load m1 (PS1 P) \<noteq> None"
      using prompt_loaded [OF p] valid_after_store [OF r(1)] by (simp add: valid_def)
  qed
  then have "bindings m4 vs' (put ?k (padd ?a 4) kvs)" by (rule bindings_changes_only [OF r(3) w(5)])
  moreover have "100 - length v = Suc (99 - length v)" using v by arith
  then have "bytes_at m4 (PS1 P) (v @ replicate (Suc (99 - length v)) 0)" using w(4) by (simp only:)
  then have "cstring m4 (PS1 P) v" using bytes_at_string r(6) unfolding cstring_def [of m2] by blast
  moreover have "cstring m4 ?a ?k" using cstring_changes_only [OF w(5)] elsewhere_sym [OF e(2)] r(5) by blast
  moreover have "load m4 q = Some x" if "load m1 q = Some x" "elsewhere (PS1 P) q" for q x
    using that r(7) w(5) by (simp add: extends_def changes_only_def)
  moreover have "valid m4 q" if "valid m1 q" for q using that w(6) r(7) by (auto simp: valid_def extends_def)
  ultimately show ?thesis using that r(1,4,8) by blast
qed

text \<open>Its line: parsed, executed and freed.\<close>

lemma prompt_line:
  assumes lits: "literals P (memory s)" and p: "prompt_array P s" and v: "clean v" "length v < 16"
    and b: "bindings (memory s) (vars s) kvs" "length (vars s) = 20" "table_has_room (bytes ''PS1'') kvs"
    and i: "cstring (memory s) input (bytes ''PS1'' @ 0x3D # v @ [0x0A])"
  obtains s' q where "parseAndExecuteCommand P exec input s = Some (Value () s')" "world s' = world s"
    "bindings (memory s') (vars s') (put (bytes ''PS1'') q kvs)" "length (vars s') = 20"
    "cstring (memory s') (PS1 P) v" "prompt_array P s'"
    "\<And>q x. load (memory s) q = Some x \<Longrightarrow> elsewhere (PS1 P) q \<Longrightarrow> load (memory s') q = Some x"
    "\<And>q. keys_elsewhere q (vars s) \<Longrightarrow> load (memory s) q \<noteq> None \<Longrightarrow> keys_elsewhere q (vars s')"
proof -
  let ?k = "bytes ''PS1''" and ?w = "bytes ''PS1'' @ 0x3D # v"
  have cw: "clean ?w" "length ?w < 20" "?w \<noteq> []" using v by simp_all
  have str: "cstring (memory s) input (?w @ [0x0A])" "0x7C \<notin> set (?w @ [0x0A])"
    using i clean_notin [OF cw(1)] by simp_all
  have "strchr (memory s) input 0x7C = Some NULL" using strchr_none [OF str(1)] str(2) by simp
  moreover obtain c m where q: "parseInput (junk P) input 0x20 (memory s) = Some (Some c, m)"
    "parsed (memory s) c m ?w []" "isBackground c = background (?w @ [0x0A])"
    by (rule parseInput_line [OF _ str(1) line_words_word [OF cw]]) simp
  note pf = q(2) [unfolded parsed_def]
  let ?s = "s\<lparr>memory := m\<rparr>" and ?a = "command c" and ?t = "trimmedInput c"
  have e: "extends (memory s) m" and cs: "cstring (memory ?s) ?a ?w" and n: "argumentCount c = 0" using pf by simp_all
  have lm: "literals P (memory ?s)" using literals_extends [OF lits e] by simp
  have bm: "bindings (memory ?s) (vars ?s) kvs" using bindings_extends [OF e b(1)] by simp
  have pm: "prompt_array P ?s" using p e by (auto simp: prompt_array_def room_def valid_def extends_def)
  have new: "elsewhere ?a x" "elsewhere ?t x" if "load (memory s) x \<noteq> None" for x using that new_elsewhere pf by auto
  have ka: "keys_elsewhere ?a (vars ?s)" "keys_elsewhere ?t (vars ?s)" using keys_elsewhere_new [OF b(1)] pf by auto
  have ps: "load (memory s) (literal P ''PS1'') \<noteq> None" using cstring_head [OF literal_string [OF lits known_literals(5)]] by simp
  obtain m1 vs' m' where w: "executeBuiltInWithoutExport P c ?s = Some (?s\<lparr>memory := m', vars := vs'\<rparr>)"
    "store (padd ?a 3) 0 (memory ?s) = Some m1" "bindings m' vs' (put ?k (padd ?a 4) kvs)" "length vs' = 20"
    "cstring m' (PS1 P) v" "cstring m' ?a ?k"
    "\<And>q x. load m1 q = Some x \<Longrightarrow> elsewhere (PS1 P) q \<Longrightarrow> load m' q = Some x" "\<And>q. valid m1 q \<Longrightarrow> valid m' q"
    "keys_old_or_new m1 (vars ?s) vs'"
    by (rule assign_prompt [OF cs _ bm _ b(3) ka(1) lm new(1) [OF ps] new(1) [OF prompt_loaded [OF p]] pm n])
      (use b(2) v in auto)
  have "getBuiltInCode P c (memory ?s) = Some 5" by (rule assignment_code [OF lm cs]) simp
  then have ex: "executeCommand P exec c ?s = Some (Value () (?s\<lparr>memory := m', vars := vs'\<rparr>))"
    using w(1) by (simp add: executeCommand_def)
  have e1: "extends (memory s) m1" by (rule extends_store [OF e _ w(2) [simplified]]) (use pf in auto)
  have l1: "load m1 ?a \<noteq> None" "load m1 ?t \<noteq> None"
    using cstring_head [OF cs] pf valid_after_store [OF w(2)] by (auto simp: valid_def)
  then have ke: "keys_elsewhere ?a vs'" "keys_elsewhere ?t vs'" using keys_elsewhere_old_or_new [OF w(9)] ka by auto
  have "load m' ?t \<noteq> None" using w(8) [of ?t] l1(2) by (simp add: valid_def)
  then obtain m2 where f: "freeCommandArgument c m' = Some m2"
    "\<And>b off. load m2 (Ptr b off) = (if Ptr b 0 = ?t \<or> Ptr b 0 = ?a then None else load m' (Ptr b off))"
    using free_parsed [of c m' ?k "[]" 0] pf w(6) n by (auto simp: holds_words_def)
  have kept: "load m2 x = load m' x" if "elsewhere ?a x" "elsewhere ?t x" for x
  proof (cases x)
    case (Ptr b off)
    then have "Ptr b 0 \<noteq> ?a" "Ptr b 0 \<noteq> ?t" using that unfolding elsewhere_def by (metis add_0 padd.simps(2))+
    then show ?thesis using f(2) Ptr by (simp del: load.simps)
  qed simp
  have old: "load m2 x = Some y" if "load (memory s) x = Some y" "elsewhere (PS1 P) x" for x y
    using that e1 w(7) kept [of x] new [of x] by (simp add: extends_def)
  have prompt: "load m2 (padd (PS1 P) j) = load m' (padd (PS1 P) j)" for j
    by (intro kept elsewhere_offset new prompt_loaded [OF p])
  have keys: "keys_elsewhere x vs'" if "keys_elsewhere x (vars s)" "load (memory s) x \<noteq> None" for x
    using keys_elsewhere_old_or_new [OF w(9)] that e1 by (auto simp: extends_def)
  have "valid m2 (padd (PS1 P) (int j))" if "j < 100" for j
    using that p e1 prompt [of "int j"] w(8) [of "padd (PS1 P) (int j)"]
    by (auto simp: prompt_array_def room_def valid_def extends_def)
  then have "prompt_array P (?s\<lparr>memory := m2, vars := vs'\<rparr>)"
    using p keys [of "PS1 P"] prompt_loaded [OF p] by (simp add: prompt_array_def room_def)
  moreover have "cstring m2 (PS1 P) v" using w(5) prompt by (simp add: cstring_def bytes_at_def)
  moreover have "bindings m2 vs' (put ?k (padd ?a 4) kvs)" by (rule bindings_after_free [OF w(3) ke(2,1) f(2)])
  moreover have "parseAndExecuteCommand P exec input s = Some (Value () (?s\<lparr>memory := m2, vars := vs'\<rparr>))"
    using \<open>strchr (memory s) input 0x7C = Some NULL\<close> q(1) ex f(1) by (simp add: parseAndExecuteCommand_def)
  ultimately show ?thesis using that [of "?s\<lparr>memory := m2, vars := vs'\<rparr>"] w(4) old keys by simp
qed

section \<open>The interpreter with a prompt\<close>

datatype action = Run command | Set_prompt "u8 list"

primrec action_text :: "action \<Rightarrow> u8 list" where
  "action_text (Run c) = command_text c"
| "action_text (Set_prompt v) = bytes ''PS1='' @ v @ [0x0A]"

primrec proper_action :: "action \<Rightarrow> bool" where
  "proper_action (Run c) = proper c"
| "proper_action (Set_prompt v) = (clean v \<and> length v < 16)"

primrec sets :: "action \<Rightarrow> u8 list set" where
  "sets (Run c) = assigned c"
| "sets (Set_prompt v) = {bytes ''PS1''}"

text \<open>What is written, with the prompt and the working directory as the state.\<close>

fun dialogue :: "u8 list \<Rightarrow> u8 list \<Rightarrow> action list \<Rightarrow> (i32 \<times> u8 list) list" where
  "dialogue prompt dir [] = []"
| "dialogue prompt dir (Run c # acts) = (1, prompt) # prints dir c @ dialogue prompt (next_dir dir c) acts"
| "dialogue prompt dir (Set_prompt v # acts) = (1, prompt) # dialogue v dir acts"

fun last_prompt :: "u8 list \<Rightarrow> action list \<Rightarrow> u8 list" where
  "last_prompt prompt [] = prompt"
| "last_prompt prompt (Run c # acts) = last_prompt prompt acts"
| "last_prompt prompt (Set_prompt v # acts) = last_prompt v acts"

section \<open>One round\<close>

definition prompt_ready :: "'os program \<Rightarrow> ptr \<Rightarrow> u8 list \<Rightarrow> u8 list set \<Rightarrow> 'os shell \<Rightarrow> bool" where
  "prompt_ready P buffer prompt K s \<longleftrightarrow> shell_ready P buffer prompt K s \<and> prompt_array P s"

lemma prompt_array_kept:
  assumes "prompt_array P s" and e: "elsewhere buffer (PS1 P)"
    and o: "\<And>q x. elsewhere buffer q \<Longrightarrow> load (memory s) q = Some x \<Longrightarrow> load (memory s1) q = Some x"
    and k: "\<And>q. elsewhere buffer q \<Longrightarrow> load (memory s) q \<noteq> None \<Longrightarrow> keys_elsewhere q (vars s) \<Longrightarrow> keys_elsewhere q (vars s1)"
  shows "prompt_array P s1"
proof -
  have "valid (memory s1) (padd (PS1 P) (int i))" if "i < 100" for i
    using assms(1) that o [OF elsewhere_offset [OF e, of "int i"]] by (auto simp: prompt_array_def room_def valid_def)
  then show ?thesis using assms(1) k [OF e prompt_loaded [OF assms(1)]] by (simp add: prompt_array_def room_def)
qed

lemma run_round:
  assumes d: "directories (procs P) rest out cwd" and t: "terminal (io (procs P)) rest out"
    and r: "prompt_ready P buffer prompt K s" and c: "proper c" "card (K \<union> assigned c) \<le> 20"
    and i: "rest (world s) = command_text c @ later"
  obtains s1 where "interactive P exec buffer s = interactive P exec buffer s1" "prompt_ready P buffer prompt (K \<union> assigned c) s1"
    "rest (world s1) = later" "out (world s1) = out (world s) @ (1, prompt) # prints (cwd (world s)) c"
    "cwd (world s1) = next_dir (cwd (world s)) c"
proof -
  have sr: "shell_ready P buffer prompt K s" and pa: "prompt_array P s" using r by (simp_all add: prompt_ready_def)
  obtain s1 where s1: "interactive P exec buffer s = interactive P exec buffer s1" "shell_ready P buffer prompt (K \<union> assigned c) s1"
    "rest (world s1) = later" "out (world s1) = out (world s) @ (1, prompt) # prints (cwd (world s)) c"
    "cwd (world s1) = next_dir (cwd (world s)) c"
    "\<And>q x. elsewhere buffer q \<Longrightarrow> load (memory s) q = Some x \<Longrightarrow> load (memory s1) q = Some x"
    "\<And>q. elsewhere buffer q \<Longrightarrow> load (memory s) q \<noteq> None \<Longrightarrow> keys_elsewhere q (vars s) \<Longrightarrow> keys_elsewhere q (vars s1)"
    by (rule command_round [OF d t sr c i]) blast
  have "elsewhere buffer (PS1 P)" using sr by (simp add: shell_ready_def ready_def)
  then have "prompt_array P s1" using prompt_array_kept [OF pa _ s1(6,7)] by simp
  then show ?thesis using that s1(1-5) by (simp add: prompt_ready_def)
qed

lemma shell_ready_prompt:
  assumes r: "shell_ready P buffer prompt K s" and pa: "prompt_array P s"
    and n: "has_names s' K'" and v: "cstring (memory s') (PS1 P) v" "length v < 2 ^ 31"
    and o: "\<And>q x. load (memory s) q = Some x \<Longrightarrow> elsewhere (PS1 P) q \<Longrightarrow> load (memory s') q = Some x"
    and k: "keys_elsewhere buffer (vars s')"
  shows "shell_ready P buffer v K' s'"
proof -
  have e: "elsewhere buffer (PS1 P)" and rm: "room (memory s) buffer 1000" and l: "literals P (memory s)"
    and el: "\<forall>str \<in> set sbush_literals. elsewhere buffer (literal P str)" using r by (simp_all add: shell_ready_def ready_def)
  have str: "cstring (memory s') q t" if "cstring (memory s) q t" "elsewhere (PS1 P) q" for q t
    using that o elsewhere_offset [OF that(2)] by (simp add: cstring_def bytes_at_def)
  have "literals P (memory s')" unfolding literals_def
    using str literal_string [OF l] prompt_literal [OF pa] by blast
  moreover have "room (memory s') buffer 1000"
    using rm o elsewhere_offset [OF elsewhere_sym [OF e]] by (auto simp: room_def valid_def)
  ultimately show ?thesis using n v e el k by (simp add: shell_ready_def ready_def)
qed

lemma set_prompt_round:
  assumes d: "directories (procs P) rest out cwd" and t: "terminal (io (procs P)) rest out"
    and r: "prompt_ready P buffer prompt K s" and v: "clean v" "length v < 16" and room: "card (insert (bytes ''PS1'') K) \<le> 20"
    and i: "rest (world s) = action_text (Set_prompt v) @ later"
  obtains s1 where "interactive P exec buffer s = interactive P exec buffer s1"
    "prompt_ready P buffer v (insert (bytes ''PS1'') K) s1" "rest (world s1) = later"
    "out (world s1) = out (world s) @ [(1, prompt)]" "cwd (world s1) = cwd (world s)"
proof -
  have sr: "shell_ready P buffer prompt K s" and pa: "prompt_array P s" using r by (simp_all add: prompt_ready_def)
  have rd: "ready P buffer prompt (memory s)" using sr by (simp add: shell_ready_def)
  have e: "elsewhere buffer (PS1 P)" using rd by (simp add: ready_def)
  let ?w = "bytes ''PS1'' @ 0x3D # v"
  have cw: "clean ?w" "length ?w < 999" using v by simp_all
  have "take_line 999 (?w @ 0x0A # later) = (?w @ [0x0A], False) \<and> line_rest 999 (?w @ 0x0A # later) = later"
    by (rule take_line_word) (use clean_notin [OF cw(1)] cw(2) in simp_all)
  then have line: "fst (take_line 999 (rest (world s))) = ?w @ [0x0A]" "snd (take_line 999 (rest (world s))) = False"
    "line_rest 999 (rest (world s)) = later" using i by simp_all
  obtain s0 m s1 where q: "custom_fputs P (PS1 P) 1 s = Some s0" "memset buffer 0 1000 (memory s0) = Some (buffer, m)"
    "get_line P buffer 1000 0 (s0\<lparr>memory := m\<rparr>) = Some (if snd (take_line 999 (rest (world s))) then NULL else buffer, s1)"
    "ready P buffer prompt (memory s1)" "bytes_at (memory s1) buffer (fst (take_line 999 (rest (world s))) @ [0])"
    "rest (world s1) = line_rest 999 (rest (world s))" "out (world s1) = out (world s) @ [(1, prompt)]" "vars s1 = vars s"
    "\<forall>x. outside x buffer 1000 \<longrightarrow> load (memory s1) x = load (memory s) x"
    "\<And>f :: _ \<Rightarrow> u8 list. \<forall>fd n w. f (snd (sys_read (io (procs P)) fd n w)) = f w \<Longrightarrow>
       \<forall>fd bs w. f (snd (sys_write (io (procs P)) fd bs w)) = f w \<Longrightarrow> f (world s1) = f (world s)"
    by (rule interactive_round_outside [OF rd t]) blast
  have g: "get_line P buffer 1000 0 (s0\<lparr>memory := m\<rparr>) = Some (buffer, s1)" using q(3) line by simp
  have cd: "cwd (world s1) = cwd (world s)" by (rule q(10)) (use d in \<open>simp_all add: directories_def\<close>)
  have sr1: "shell_ready P buffer prompt K s1" by (rule shell_ready_outside [OF sr q(4,8,9)])
  have old: "load (memory s1) x = load (memory s) x" if "elsewhere buffer x" for x
    using changes_only_outside [OF q(9)] that by (simp add: changes_only_def)
  have pa1: "prompt_array P s1" by (rule prompt_array_kept [OF pa e]) (use old q(8) in simp_all)
  have str: "cstring (memory s1) buffer (bytes ''PS1'' @ 0x3D # v @ [0x0A])"
    using q(5) line clean_notin [OF cw(1), of 0] by (simp add: cstring_def)
  have l: "literals P (memory s1)" using q(4) by (simp add: ready_def)
  obtain kvs where kvs: "bindings (memory s1) (vars s1) kvs" "length (vars s1) = 20" "distinct (map fst kvs)" "fst ` set kvs = K"
    using sr1 by (auto simp: shell_ready_def has_names_def)
  have "length kvs = card K" using distinct_card [OF kvs(3)] kvs(4) by simp
  then have tr: "table_has_room (bytes ''PS1'') kvs"
    using room kvs(4) by (cases "bytes ''PS1'' \<in> K") (auto simp: table_has_room_def insert_absorb simp del: bytes_Cons)
  obtain s2 p where s2: "parseAndExecuteCommand P exec buffer s1 = Some (Value () s2)" "world s2 = world s1"
    "bindings (memory s2) (vars s2) (put (bytes ''PS1'') p kvs)" "length (vars s2) = 20"
    "cstring (memory s2) (PS1 P) v" "prompt_array P s2"
    "\<And>q x. load (memory s1) q = Some x \<Longrightarrow> elsewhere (PS1 P) q \<Longrightarrow> load (memory s2) q = Some x"
    "\<And>q. keys_elsewhere q (vars s1) \<Longrightarrow> load (memory s1) q \<noteq> None \<Longrightarrow> keys_elsewhere q (vars s2)"
    by (rule prompt_line [OF l pa1 v kvs(1,2) tr str]) blast
  have n: "has_names s2 (insert (bytes ''PS1'') K)"
    unfolding has_names_def using s2(3,4) distinct_put [OF kvs(3)] fst_put kvs(4) by metis
  have kb: "keys_elsewhere buffer (vars s2)"
    by (rule s2(8)) (use sr1 cstring_head [OF str] in \<open>simp_all add: shell_ready_def\<close>)
  have "shell_ready P buffer v (insert (bytes ''PS1'') K) s2"
    by (rule shell_ready_prompt [OF sr1 pa1 n s2(5) _ s2(7) kb]) (use v in simp_all)
  moreover obtain x where "strcmp (memory s1) buffer (literal P (''exit'' @ newline)) = Some x" "x \<noteq> 0"
    using strcmp_eq_0 [OF str literal_string [OF l known_literals(10)]] by (auto simp: newline_def)
  then have "interactive P exec buffer s = interactive P exec buffer s2"
    using q(1,2) g cstring_not_null [OF str] cstring_head [OF str] s2(1) by (subst interactive.simps) simp
  ultimately show ?thesis using that [of s2] s2(2,6) q(6,7) line cd by (simp add: prompt_ready_def)
qed

section \<open>Sessions\<close>

definition all_set :: "action list \<Rightarrow> u8 list set" where
  "all_set acts = (\<Union>a \<in> set acts. sets a)"

lemma sets_room:
  assumes "finite K" and "card (K \<union> all_set (a # acts)) \<le> 20"
  shows "card (K \<union> sets a) \<le> 20 \<and> finite (K \<union> sets a) \<and> card ((K \<union> sets a) \<union> all_set acts) \<le> 20"
proof -
  have fin: "finite (sets b)" for b by (cases b) (simp_all add: finite_assigned)
  have u: "K \<union> all_set (a # acts) = (K \<union> sets a) \<union> all_set acts" by (auto simp: all_set_def)
  have "finite (K \<union> all_set (a # acts))" using assms(1) fin by (auto simp: all_set_def)
  then have "card (K \<union> sets a) \<le> card (K \<union> all_set (a # acts))" by (rule card_mono) (auto simp: all_set_def)
  then show ?thesis using assms fin u by simp
qed

lemma actions_run:
  assumes d: "directories (procs P) rest out cwd" and t: "terminal (io (procs P)) rest out"
  shows "prompt_ready P buffer prompt K s \<Longrightarrow> list_all proper_action acts \<Longrightarrow> finite K \<Longrightarrow> card (K \<union> all_set acts) \<le> 20 \<Longrightarrow>
    rest (world s) = concat (map action_text acts) @ later \<Longrightarrow>
    \<exists>s1. interactive P exec buffer s = interactive P exec buffer s1 \<and> ready P buffer (last_prompt prompt acts) (memory s1)
      \<and> rest (world s1) = later \<and> out (world s1) = out (world s) @ dialogue prompt (cwd (world s)) acts"
proof (induction acts arbitrary: s K prompt)
  case Nil
  then show ?case by (intro exI [of _ s]) (simp add: prompt_ready_def shell_ready_def)
next
  case (Cons a acts)
  note room = sets_room [OF Cons.prems(3,4)]
  have i: "rest (world s) = action_text a @ (concat (map action_text acts) @ later)" using Cons.prems(5) by simp
  have p: "proper_action a" "list_all proper_action acts" using Cons.prems(2) by simp_all
  show ?case
  proof (cases a)
    case (Run c)
    obtain s1 where s1: "interactive P exec buffer s = interactive P exec buffer s1" "prompt_ready P buffer prompt (K \<union> assigned c) s1"
      "rest (world s1) = concat (map action_text acts) @ later" "out (world s1) = out (world s) @ (1, prompt) # prints (cwd (world s)) c"
      "cwd (world s1) = next_dir (cwd (world s)) c"
      by (rule run_round [OF d t Cons.prems(1)]) (use p room i Run in simp_all)
    have "finite (K \<union> assigned c)" "card ((K \<union> assigned c) \<union> all_set acts) \<le> 20" using room Run by simp_all
    from Cons.IH [OF s1(2) p(2) this s1(3)] s1(1,4,5) Run show ?thesis by auto
  next
    case (Set_prompt v)
    obtain s1 where s1: "interactive P exec buffer s = interactive P exec buffer s1"
      "prompt_ready P buffer v (insert (bytes ''PS1'') K) s1" "rest (world s1) = concat (map action_text acts) @ later"
      "out (world s1) = out (world s) @ [(1, prompt)]" "cwd (world s1) = cwd (world s)"
      by (rule set_prompt_round [OF d t Cons.prems(1)]) (use p room i Set_prompt in simp_all)
    have "finite (insert (bytes ''PS1'') K)" "card (insert (bytes ''PS1'') K \<union> all_set acts) \<le> 20" using room Set_prompt by simp_all
    from Cons.IH [OF s1(2) p(2) this s1(3)] s1(1,4,5) Set_prompt show ?thesis by auto
  qed
qed


text \<open>An example: the array of the prompt with its 100 bytes.\<close>

definition prompt_shell :: "u8 list \<Rightarrow> demo_os shell" where
  "prompt_shell input = \<lparr>memory = literal_blocks @ [Some (bytes ''sbush~>'' @ replicate 93 0)], vars = replicate 20 None,
     world = ((input, []), [])\<rparr>"

lemma prompt_shell:
  "literals (demo literal_block (Ptr 27 0)) (memory (prompt_shell input))"
  "cstring (memory (prompt_shell input)) (Ptr 27 0) (bytes ''sbush~>'')"
  "prompt_array (demo literal_block (Ptr 27 0)) (prompt_shell input)"
proof -
  have n: "length literal_blocks = 27" by (simp add: literal_blocks_def length_literals)
  show "literals (demo literal_block (Ptr 27 0)) (memory (prompt_shell input))"
    unfolding prompt_shell_def by (simp add: literals_in_blocks)
  have "replicate 93 (0 :: u8) = 0 # replicate 92 0" by (simp add: numeral_eq_Suc)
  then show "cstring (memory (prompt_shell input)) (Ptr 27 0) (bytes ''sbush~>'')"
    by (intro cstring_in_block [where rest = "replicate 92 0"]) (simp_all add: prompt_shell_def block_def nth_append n)
  have "elsewhere (Ptr 27 0) (literal_block str)" if "str \<in> set sbush_literals" for str
  proof -
    have "length (takeWhile (\<lambda>x. x \<noteq> str) sbush_literals) < length sbush_literals"
      using that length_takeWhile_le [of "\<lambda>x. x \<noteq> str" sbush_literals] takeWhile_eq_all_conv [of "\<lambda>x. x \<noteq> str" sbush_literals]
      by (metis (no_types, lifting) le_neq_implies_less takeWhile_eq_take take_all order_refl)
    then show ?thesis by (simp add: elsewhere_def literal_block_def length_literals)
  qed
  moreover have "room (memory (prompt_shell input)) (Ptr 27 0) 100"
    by (simp add: room_def valid_def prompt_shell_def block_def nth_append n)
  ultimately show "prompt_array (demo literal_block (Ptr 27 0)) (prompt_shell input)"
    by (simp add: prompt_array_def prompt_shell_def keys_elsewhere_def)
qed


end
