(* ===== verification/Path.thy ===== *)
theory Path
  imports Copies
begin

text \<open>
  The path of an external command: how \<open>setExecutionArguments\<close> of bin/sbush/sbush.c puts the
  value of \<open>PATH\<close> before the name of the command, in the command's own buffer of 20 bytes.
\<close>

section \<open>Copies that do not fit\<close>

lemma memcpy_loop_room:
  "for_list (\<lambda>i (destination, source, m). do {
       x \<leftarrow> load m source; m \<leftarrow> store destination x m; Some (padd destination 1, padd source 1, m)
     }) [0..<n] (dest, src, m) = Some (d, s, m') \<Longrightarrow>
   d = padd dest (int n) \<and> s = padd src (int n) \<and> room m dest n \<and> (\<forall>q. valid m' q = valid m q)"
proof (induction n arbitrary: d s m')
  case 0
  then show ?case by simp
next
  case (Suc n)
  obtain d1 s1 m1 where l: "for_list (\<lambda>i (destination, source, m). do {
       x \<leftarrow> load m source; m \<leftarrow> store destination x m; Some (padd destination 1, padd source 1, m)
     }) [0..<n] (dest, src, m) = Some (d1, s1, m1)"
    using Suc.prems by (auto simp: for_list_append bind_eq_Some_conv)
  obtain x m2 where st: "load m1 s1 = Some x" "store d1 x m1 = Some m2" "d = padd d1 1" "s = padd s1 1" "m' = m2"
    using Suc.prems l by (auto simp: for_list_append bind_eq_Some_conv)
  note ih = Suc.IH [OF l]
  have "valid m1 d1"
  proof (rule ccontr)
    assume "\<not> valid m1 d1"
    then have "store d1 x m1 = None" by (simp add: valid_def store_freed)
    then show False using st(2) by simp
  qed
  then show ?case using ih st valid_after_store [OF st(2)] by (auto simp: room_def less_Suc_eq add.commute [of 1])
qed

lemma memcpy_needs_room:
  assumes "memcpy dest src (of_nat n) m = Some (q, m')" and "src \<noteq> NULL" and "n < 2 ^ 31"
  shows "room m dest n"
  using assms memcpy_loop_room [of n dest src m] by (auto simp: memcpy_def signed_size [OF assms(3)] bind_eq_Some_conv)

lemma strlen_unterminated:
  assumes "bytes_at m p xs" and "0 \<notin> set xs" and "load m (padd p (int (length xs))) = None" and "p \<noteq> NULL"
  shows "strlen m p = None"
proof (rule ccontr)
  assume "strlen m p \<noteq> None"
  then obtain n where "strlen_loop m p 0 = Some n" using assms(4) by (auto simp: strlen_def)
  from strlen_loop_Some [OF this] obtain s where s: "cstring m p s" by auto
  show False
  proof (cases "length s < length xs")
    case True
    have "load m (padd p (int (length s))) = Some 0"
      using s by (auto simp: cstring_def bytes_at_def dest: spec [of _ "length s"])
    then show False using assms(1,2) True by (metis bytes_at_def nth_mem option.inject)
  next
    case False
    then have "load m (padd p (int (length xs))) \<noteq> None"
      using s by (auto simp: cstring_def bytes_at_def simp del: load.simps dest!: spec [of _ "length xs"])
    then show False using assms(3) by simp
  qed
qed

section \<open>The path before the command\<close>

text \<open>The buffer of a parsed command: 20 bytes, zero after the name.\<close>

definition command_buffer :: "mem \<Rightarrow> ptr \<Rightarrow> u8 list \<Rightarrow> bool" where
  "command_buffer m p w \<longleftrightarrow> 0 \<notin> set w \<and> length w < 20 \<and> bytes_at m p (w @ replicate (20 - length w) 0)
     \<and> load m (padd p 20) = None"

lemma command_buffer_room: "command_buffer m p w \<Longrightarrow> room m p 20"
  by (simp add: command_buffer_def room_def valid_def bytes_at_def)

lemma command_buffer_string: "command_buffer m p w \<Longrightarrow> cstring m p w"
proof -
  assume c: "command_buffer m p w"
  then have "20 - length w = Suc (19 - length w)" by (auto simp: command_buffer_def)
  then show ?thesis using c bytes_at_string [of m p w "19 - length w"] by (simp add: command_buffer_def)
qed

lemma command_buffer_changes_only:
  "command_buffer m p w \<Longrightarrow> changes_only q m m' \<Longrightarrow> elsewhere q p \<Longrightarrow> command_buffer m' p w"
  using elsewhere_offset [of q p] by (simp add: command_buffer_def changes_only_def bytes_at_def)

text \<open>The name is saved in a buffer of its own.\<close>

lemma save_name:
  assumes c: "command_buffer m p w"
  obtains buf m1 m2 m3 where "new_block j 100 m = (buf, m1)" "memset buf 0 100 m1 = Some (buf, m2)"
    "strlen m2 p = Some (length w)" "memcpy buf p (of_nat (length w)) m2 = Some (padd buf (int (length w)), m3)"
    "cstring m3 buf w" "command_buffer m3 p w" "elsewhere p buf" "extends m m3"
proof -
  obtain buf m1 where nb: "new_block j 100 m = (buf, m1)" by (cases "new_block j 100 m") auto
  note b = new_block_facts [OF nb] and n = new_to_block [OF nb]
  have s: "cstring m p w" by (rule command_buffer_string [OF c])
  then have e: "elsewhere buf p" using new_elsewhere [OF n] cstring_head by blast
  have len: "length w < 100" "0 \<notin> set w" using c by (simp_all add: command_buffer_def)
  obtain m2 m3 where k: "memset buf 0 (of_nat 100) m1 = Some (buf, m2)" "cstring m2 p w"
    "memcpy buf p (of_nat (length w)) m2 = Some (padd buf (int (length w)), m3)"
    "bytes_at m3 buf (w @ replicate (100 - length w) 0)" "changes_only buf m1 m3"
    by (rule clear_copy [OF b(2) _ cstring_extends [OF b(1) s] len(1) e]) (simp, blast)
  have "100 - length w = Suc (99 - length w)" using len(1) by arith
  then have "cstring m3 buf w" using bytes_at_string [of m3 buf w "99 - length w"] k(4) len(2) by simp
  moreover have "load m1 (padd p i) = load m (padd p i)" for i
  proof (cases p)
    case (Ptr b off)
    have "buf = Ptr (length m) 0" using nb by (auto simp: new_block_def)
    then have "b \<noteq> length m" using e Ptr by (auto simp: elsewhere_def dest: spec [of _ off])
    then show ?thesis using new_block_load [OF nb] Ptr by (simp del: load.simps)
  qed simp
  then have "command_buffer m1 p w" using c by (simp add: command_buffer_def bytes_at_def)
  then have "command_buffer m3 p w" using command_buffer_changes_only [OF _ k(5) e] by blast
  moreover have "strlen m2 p = Some (length w)" using strlen_cstring [OF k(2)] len(1) by simp
  ultimately show ?thesis
    using that nb k(1,3) elsewhere_sym [OF e] extends_changes_only [OF b(1) n k(5)] by simp
qed

lemma zero_padding:
  assumes w: "bytes_at m p (w @ replicate (n - length w) 0)" and d: "written_at m p d m4"
    and r: "written_at m4 (padd p (int (length d))) w m5" and k: "length d + length w < n" and pn: "p \<noteq> NULL"
  shows "bytes_at m5 p (d @ w @ [0])"
proof -
  let ?z = "length d + length w"
  have out: "outside (padd p (int ?z)) p (length d)" "outside (padd p (int ?z)) (padd p (int (length d))) (length w)"
    using pn by (simp_all add: outside_def padd_inject)
  have i: "?z < length (w @ replicate (n - length w) 0)" "length w \<le> ?z" using k by auto
  have "(w @ replicate (n - length w) 0) ! ?z = 0" using i k by (simp add: nth_append)
  then have "load m (padd p (int ?z)) = Some 0" using w i(1) unfolding bytes_at_def by metis
  then have "load m5 (padd p (int ?z)) = Some 0" using d r out by (simp add: written_at_def)
  moreover have "bytes_at m5 p d"
    using d r pn by (auto simp: written_at_def bytes_at_def outside_def padd_inject)
  moreover have "bytes_at m5 (padd p (int (length d))) w" using r by (simp add: written_at_def)
  ultimately show ?thesis by (simp add: bytes_at_append bytes_at_Cons)
qed

text \<open>What follows after that.\<close>

definition path_then_name :: "ptr \<Rightarrow> ptr \<Rightarrow> ptr \<Rightarrow> nat \<Rightarrow> mem \<Rightarrow> mem option" where
  "path_then_name a path buf k m = do {
     (q, m) \<leftarrow> memcpy a path (of_nat k) m;
     k \<leftarrow> strlen m path;
     n \<leftarrow> strlen m buf;
     (q, m) \<leftarrow> memcpy (padd a (int k)) buf (of_nat n) m;
     n \<leftarrow> strlen m a;
     store (padd a (int n)) 0 m }"

lemma copy_path:
  assumes "command_buffer m a w" and p: "cstring m path d" "length d < 2 ^ 31" "elsewhere a path" and b: "cstring m buf w" "elsewhere a buf"
  shows "if length d \<le> 20 then \<exists>m1. memcpy a path (of_nat (length d)) m = Some (padd a (int (length d)), m1)
      \<and> written_at m a d m1 \<and> strlen m1 path = Some (length d) \<and> strlen m1 buf = Some (length w) \<and> cstring m1 buf w
    else memcpy a path (of_nat (length d)) m = None"
proof (cases "length d \<le> 20")
  case False
  have "load m (padd a 20) = None" using assms(1) by (simp add: command_buffer_def)
  then have "\<not> room m a (length d)" using False by (auto simp: room_def valid_def intro!: exI [of _ 20])
  then show ?thesis
    using memcpy_needs_room [OF _ cstring_not_null [OF p(1)] p(2)] False
    by (cases "memcpy a path (of_nat (length d)) m") auto
next
  case True
  have "disjoint_runs path a (length d)" using elsewhere_padd [OF p(3)] by (simp add: disjoint_runs_def outside_def)
  then obtain m1 where m1: "memcpy a path (of_nat (length d)) m = Some (padd a (int (length d)), m1)" "written_at m a d m1"
    using memcpy_room [OF cstring_bytes [OF p(1)] cstring_not_null [OF p(1)] room_mono [OF command_buffer_room [OF assms(1)] True]] p(2) by blast
  have "cstring m1 path d" "cstring m1 buf w"
    using cstring_changes_only [OF written_changes_only [OF m1(2)]] p b by blast+
  moreover have "length w < 2 ^ 31" using assms(1) by (simp add: command_buffer_def)
  ultimately show ?thesis using True m1 strlen_cstring p(2) by simp
qed

lemma copy_both:
  assumes c: "command_buffer m a w" and p: "cstring m path d" "length d < 2 ^ 31" "elsewhere a path" and b: "cstring m buf w" "elsewhere a buf"
  shows "if length d + length w \<le> 20 then \<exists>m2. path_then_name a path buf (length d) m = do { n \<leftarrow> strlen m2 a; store (padd a (int n)) 0 m2 }
      \<and> bytes_at m2 a (d @ w) \<and> load m2 (padd a 20) = None \<and> changes_only a m m2
      \<and> (length d + length w < 20 \<longrightarrow> bytes_at m2 a (d @ w @ [0]))
    else path_then_name a path buf (length d) m = None"
proof (cases "length d \<le> 20")
  case False
  then show ?thesis using copy_path [OF assms] by (simp add: path_then_name_def)
next
  case True
  then obtain m1 where m1: "memcpy a path (of_nat (length d)) m = Some (padd a (int (length d)), m1)" "written_at m a d m1"
    "strlen m1 path = Some (length d)" "strlen m1 buf = Some (length w)" "cstring m1 buf w" using copy_path [OF assms] by auto
  have v1: "valid m1 q = valid m q" for q using m1(2) by (simp add: written_at_def)
  have w: "length w < 20" and past: "load m (padd a 20) = None" and z: "bytes_at m a (w @ replicate (20 - length w) 0)"
    using c by (simp_all add: command_buffer_def)
  have bn: "buf \<noteq> NULL" and an: "a \<noteq> NULL" using cstring_not_null b(1) command_buffer_string [OF c] by blast+
  show ?thesis
  proof (cases "length d + length w \<le> 20")
    case False
    have "\<not> room m1 (padd a (int (length d))) (length w)"
      using past False True v1 by (auto simp: room_def valid_def intro!: exI [of _ "20 - length d"])
    then have "memcpy (padd a (int (length d))) buf (of_nat (length w)) m1 = None"
      using memcpy_needs_room [OF _ bn] w by (cases "memcpy (padd a (int (length d))) buf (of_nat (length w)) m1") auto
    then show ?thesis using False m1 by (simp add: path_then_name_def)
  next
    case fits: True
    have r: "room m1 (padd a (int (length d))) (length w)"
      using room_offset [OF command_buffer_room [OF c] fits] v1 by (simp add: room_def)
    have "disjoint_runs buf (padd a (int (length d))) (length w)"
      using elsewhere_padd [OF b(2)] by (simp add: disjoint_runs_def outside_def)
    then obtain m2 where m2: "memcpy (padd a (int (length d))) buf (of_nat (length w)) m1 = Some (padd a (int (length d + length w)), m2)"
      "written_at m1 (padd a (int (length d))) w m2"
      using memcpy_room [OF cstring_bytes [OF m1(5)] bn r] w by auto
    have "path_then_name a path buf (length d) m = do { n \<leftarrow> strlen m2 a; store (padd a (int n)) 0 m2 }"
      using m1(1,3,4) m2(1) by (simp add: path_then_name_def)
    moreover have "valid m2 (padd a 20) = valid m (padd a 20)" using v1 m2(2) by (simp add: written_at_def)
    then have "load m2 (padd a 20) = None" using past by (simp add: valid_def)
    moreover have "bytes_at m2 a d" using m1(2) m2(2) an by (auto simp: written_at_def bytes_at_def outside_def padd_inject)
    then have "bytes_at m2 a (d @ w)" using m2(2) by (simp add: bytes_at_append written_at_def)
    moreover have "changes_only a m1 m2" using m2(2) by (simp add: changes_only_def written_at_def outside_def elsewhere_def)
    moreover note written_changes_only [OF m1(2)] zero_padding [OF z m1(2) m2(2) _ an]
    ultimately show ?thesis using fits changes_only_trans by (intro if_P [THEN iffD2] exI [of _ m2]) auto
  qed
qed

text \<open>C39: The path before the name. If the value of \<open>PATH\<close> and the name of the command fit their 20
  bytes together with a terminator, the command becomes the path followed by the name, and
  nothing else in memory changes. If they do not - with the directory \<open>/usr/local/bin/\<close>, for
  a name of five letters -, the buffer is overrun.\<close>

theorem prefix_path_exactly:
  assumes "command_buffer m (command c) w" and "cstring m path d" and "length d < 2 ^ 31" and "elsewhere (command c) path"
  shows "if length d + length w < 20
    then \<exists>m'. prefix_path P path c m = Some m' \<and> cstring m' (command c) (d @ w)
      \<and> (\<forall>q x. load m q = Some x \<longrightarrow> elsewhere (command c) q \<longrightarrow> load m' q = Some x)
    else prefix_path P path c m = None"
proof -
  let ?a = "command c"
  obtain buf m1 m2 m3 where s: "new_block (junk P) 100 m = (buf, m1)" "memset buf 0 100 m1 = Some (buf, m2)"
    "strlen m2 ?a = Some (length w)" "memcpy buf ?a (of_nat (length w)) m2 = Some (padd buf (int (length w)), m3)"
    "cstring m3 buf w" "command_buffer m3 ?a w" "elsewhere ?a buf" "extends m m3"
    by (rule save_name [OF assms(1), of "junk P"])
  have p3: "cstring m3 path d" by (rule cstring_extends [OF s(8) assms(2)])
  have pp: "prefix_path P path c m = path_then_name ?a path buf (length d) m3"
    using s(1-4) strlen_cstring [OF p3 assms(3)] by (simp add: prefix_path_def path_then_name_def)
  note both = copy_both [OF s(6) p3 assms(3,4) s(5,7)]
  show ?thesis
  proof (cases "length d + length w \<le> 20")
    case False
    then show ?thesis using both pp by simp
  next
    case True
    then obtain m4 where m4: "prefix_path P path c m = do { n \<leftarrow> strlen m4 ?a; store (padd ?a (int n)) 0 m4 }"
      "bytes_at m4 ?a (d @ w)" "load m4 (padd ?a 20) = None" "changes_only ?a m3 m4"
      "length d + length w < 20 \<Longrightarrow> bytes_at m4 ?a (d @ w @ [0])" using both pp by auto
    have dw: "0 \<notin> set (d @ w)" using assms(1,2) by (simp add: cstring_def command_buffer_def)
    show ?thesis
    proof (cases "length d + length w < 20")
      case True
      have c4: "cstring m4 ?a (d @ w)" using m4(5) [OF True] dw by (simp add: cstring_def)
      then have z: "load m4 (padd ?a (int (length (d @ w)))) = Some 0"
        by (auto simp: cstring_def bytes_at_def dest: spec [of _ "length (d @ w)"])
      then obtain m5 where m5: "store (padd ?a (int (length (d @ w)))) 0 m4 = Some m5" using valid_store [of m4 "padd ?a (int (length (d @ w)))" 0] by (auto simp: valid_def)
      have l5: "load m5 = load m4" using load_store [OF m5] z by auto
      have "prefix_path P path c m = Some m5" using m4(1) strlen_cstring [OF c4] True m5 by simp
      then show ?thesis using True c4 m4(4) s(8) l5 by (simp add: cstring_def bytes_at_def changes_only_def extends_def)
    next
      case False
      then have "strlen m4 ?a = None"
        using strlen_unterminated [OF m4(2) dw] m4(3) \<open>length d + length w \<le> 20\<close> cstring_not_null [OF command_buffer_string [OF s(6)]] by simp
      then show ?thesis using False m4(1) by simp
    qed
  qed
qed

text \<open>An example: the command \<open>ls\<close> with the path \<open>/bin/\<close>, and with one that is too long.\<close>

definition path_memory :: "u8 list \<Rightarrow> mem" where
  "path_memory d = [Some (bytes ''ls'' @ replicate 18 0), Some (d @ [0])]"

theorem prefix_path_exactly_witness:
  "(\<exists>m'. prefix_path (demo literal_block NULL) (Ptr 1 0) (a_command (Ptr 0 0)) (path_memory (bytes ''/bin/'')) = Some m'
      \<and> cstring m' (Ptr 0 0) (bytes ''/bin/ls''))
    \<and> prefix_path (demo literal_block NULL) (Ptr 1 0) (a_command (Ptr 0 0)) (path_memory (replicate 18 0x2F)) = None"
proof -
  have c: "command_buffer (path_memory d) (command (a_command (Ptr 0 0))) (bytes ''ls'')" for d
    by (simp add: command_buffer_def a_command_def path_memory_def bytes_at_def block_def)
  have p: "cstring (path_memory d) (Ptr 1 0) d" if "0 \<notin> set d" for d
    using that by (intro cstring_in_block [where rest = "[]"]) (simp_all add: path_memory_def block_def)
  have e: "elsewhere (command (a_command (Ptr 0 0))) (Ptr 1 0)" by (simp add: elsewhere_def a_command_def)
  have z: "0 \<notin> set (replicate 18 (0x2F :: u8))" "0 \<notin> set (bytes ''/bin/'')" by simp_all
  show ?thesis
    using prefix_path_exactly [OF c p [OF z(2)] _ e, of "demo literal_block NULL"] prefix_path_exactly [OF c p [OF z(1)] _ e, of "demo literal_block NULL"]
    by (auto simp: a_command_def)
qed

end
