(* ===== verification/Spec2Isabelle.thy ===== *)
theory Spec2Isabelle
  imports Kprintf Idt Pic Pit Ps2 Pci Gdt IsrStubs Kmain
    Syscall Malloc Readline Pipes Script Cat Structures Panel Arguments
    Console Prompt Path
begin

text \<open>
  A verification development of SBUnix, a small x86-64 teaching operating system: the kernel
  under sys, which sets the machine up and then lives on interrupts, and the user programs of
  bin (a shell and cat) on the C library of libc, which run on the system calls of a Linux
  kernel. The two halves share no state.

  \<^bold>\<open>The kernel.\<close> \<open>boot\<close> and \<open>start\<close> of sys/main.c call the initialisation of every device in turn
  and then loop; what happens afterwards happens in the interrupt handlers.

  \<^item> Kprintf: sys/kprintf.c, the text console. The screen is the map of the video memory's
    bytes, the cursor the two integers of main.c. \<open>kprintf\<close> with every conversion, scrolling,
    and the two routines that write the status row. Undefined behaviour (the negation of the
    least \<open>int\<close>, a conversion without its argument) is \<open>None\<close>.
  \<^item> Console: a list-of-rows terminal that prints formats, as a specification of \<open>kprintf\<close>, and
    the refinement of it for every format and argument list.
  \<^item> PortIO, Pic, Pit, Ps2: sys/pic.c, sys/pit.c, sys/ps2Controller.c. Port accesses are a
    log; what a device answers is a function of the log so far.
  \<^item> Idt, HandlerTable: sys/idt.c, the descriptor table as the list of its 256 packed entries,
    and the interface by which the drivers install their handlers (the locale
    \<open>handler_table\<close>, interpreted in Pic on \<open>set_ir_in_idt\<close> and \<open>get_ir_from_idt\<close>).
  \<^item> IsrStubs: the assembly entry points of sys/idt.s, sys/pit.s and sys/ps2Controller.s and
    the macros of asm_util.h, as programs of a five-instruction machine.
  \<^item> Pci: sys/pci.c, configuration reads and the scan of all 256 buses and 32 slots.
  \<^item> Gdt: sys/gdt.c and sys/gdt.s, the descriptor of the task state segment.
  \<^item> Kmain: sys/main.c, the composition of all these, and \<open>idle\<close>, the step relation of timer
    and keyboard interrupts after the start, with its invariant by rule induction.
  \<^item> Panel: a specification of the status row (clock, last key, modifiers) as a fold over ticks
    and scan codes, and the refinement of it by the interrupts of the idle loop.

  \<^bold>\<open>The user programs.\<close> Memory is a list of blocks (CMem); a pointer is a block and an offset,
  and an access outside a block or to a freed one is \<open>None\<close>.

  \<^item> CString, Stdio, Readline: the string and stream routines of libc.
  \<^item> Malloc: libc/malloc.c on a flat memory of mapped pages, the list of headers in that memory.
  \<^item> Allocator: the interface of an allocator to its clients (the locale \<open>allocator\<close>),
    interpreted both on the blocks of CMem and on \<open>malloc\<close>. The other theories allocate
    blocks; that interpretation says when the code's own allocator behaves like that: after
    its first allocation, as long as nothing is freed. What \<open>free\<close> does is in Malloc. In the
    block memory \<open>free_block\<close> is the C library's contract: the block is gone.
  \<^item> Environ, Dictionary: libc/getenv.c and its interface (the locale \<open>dictionary\<close>,
    interpreted on \<open>setenv\<close> in mode 1 and \<open>getenv\<close>).
  \<^item> Parser: bin/sbush/parser.c, trimming, splitting and freeing of a command line.
  \<^item> Syscall: include/sys/syscall.h, what each wrapper puts into which register.
  \<^item> Process, Builtins, Shell: bin/sbush/sbush.c and crt/crt1.c, from the process calls through
    the built-in commands, external commands, pipelines and script files to \<open>main\<close> and \<open>_start\<close>.
  \<^item> Lines, Session, Pwd, Pipes: whole command lines, sessions and pipelines, the composition
    of all of the above.
  \<^item> Arguments: what a built-in command keeps of the parsed line, and why no line with an
    argument has a defined execution.
  \<^item> Copies: the string routines change only the object they are given; what is elsewhere stays.
  \<^item> Interpreter, Prompt: a specification of the shell as an interpreter of commands without
    arguments and, in Prompt, of lines that set the prompt; the refinement of it by whole sessions.
  \<^item> Script: the refinement of the same interpreter by script files; other script files.
  \<^item> Path: when putting the value of \<open>PATH\<close> before the name of a command fits its buffer.
  \<^item> Cat: bin/cat/cat.c, its copying and its \<open>main\<close> on a system of files, and bin/ls/ls.c, which
    only returns 1.

  \<^bold>\<open>Structures.\<close> Layout computes where the members of a packed C structure lie, and proves once
  that members do not overlap and are read back as written. Ahci has the structures of
  include/sys/ahci.h in these terms; Structures those of sys/idt.c, sys/gdt.c, malloc.c,
  parser.h, elf64.h, tarfs.h, dirent.h, signal.h and the \<open>FILE\<close> of types.h with libc/stdio.c and libc/fileno.c, and
  shows that the byte images of Idt and Gdt agree with the declarations.

  \<^bold>\<open>Conventions.\<close> A result \<open>None\<close> is undefined behaviour or, for the \<open>partial_function\<close>s, a
  loop that does not end; a theorem that something is \<open>Some\<close> says that the code returns. A
  process that has ended is the \<open>Ended\<close> of \<open>outcome\<close>. An uninitialised pointer is \<open>None\<close> in its
  slot; uninitialised bytes are what the parameter \<open>junk\<close> says. A \<open>FILE\<close> pointer is its
  descriptor. String literals are found at the addresses of the parameter \<open>literal\<close>; the
  hypothesis \<open>literals\<close> says that they are in memory. System calls are parameters, functions of
  the state of the system that may answer anything; hypotheses such as \<open>byte_stream\<close>,
  \<open>block_stream\<close>, \<open>write_log\<close>, \<open>log_apart\<close>, \<open>terminal\<close>, \<open>directories\<close>, \<open>script_file\<close>,
  \<open>cat_system\<close> and \<open>fresh_pages\<close> state what their manual pages promise, and every theorem that has one is applied to a concrete system in its witness.
  \<open>fork\<close> answers once, so parent and child are the two kinds of answer. The system calls of
  Process work as their names say, while Syscall models what the wrappers really pass; the
  theorems of Syscall say how far apart the two are.

  \<^bold>\<open>Bounds.\<close> Lengths below \<open>2 ^ 31\<close> are assumed where the code keeps them in an \<open>int\<close>. Script
  files that start shells that run script files are followed to the depth of the argument of
  \<open>run_file\<close>, any number; deeper nesting is \<open>None\<close>. There is no other fuel.

  \<^bold>\<open>Lemmas.\<close> Prelude has the loops (\<open>for_list\<close>, \<open>fold\<close> shapes) and the byte encodings that
  everything shares, and the collections \<open>layout\<close>, \<open>frame\<close> and \<open>summary\<close>. In each component a
  loop has a closed form, an operation a lemma for every branch, and a state an invariant
  (\<open>idt_inv\<close>, \<open>bindings\<close>, \<open>parsed\<close>, \<open>ready\<close>, \<open>separate\<close>, \<open>heap_ok\<close>); the properties follow
  from these in a few steps.

  \<^bold>\<open>What the theorems show.\<close> The machine is set up as intended and keeps
  running; text, time and keys end up where they should; descriptors and handler addresses are
  encoded and found again; devices are recorded (up to the eighth); any format that fits the screen
  is printed as on a terminal and any sequence of interrupts shows the status row of the
  specification. Every declared structure has the size and the member offsets that its processor or
  device documents. The user's line is parsed into its words; variables are found again; sessions
  (with their prompts) and scripts of commands without arguments do what the interpreter says; cat
  shows the file it opens. They also show where the code does not do what it means to: registers are
  permuted by every interrupt, every external command and every pipeline overruns the argument
  vector, every command with an argument uses freed memory, a long \<open>PATH\<close> overruns the
  command, a variable points into freed memory, a script ends at its first empty line, the shell
  loops at the end of its input.

  \<^bold>\<open>Not modelled.\<close> The 32-bit system calls under \<open>#if 0\<close> and the commented-out
  body of bin/ls; the values of single register bits in ahci.h and pic.h that no code uses; the
  stack switch in \<open>boot\<close>, which the modelled state does not see; the declared but undefined
  directory and signal functions, and the structure of signal information, which nothing uses;
  the call of \<open>printParsedCommand\<close>, which is only compiled for debugging (the function itself
  is modelled). Timing, caches, and other
  interrupts than the two installed are outside the model.
\<close>

end
